(* ===== verification/Prelude.thy ===== *)
theory Prelude
  imports Main "HOL-Library.Word" "HOL-Library.Multiset"
begin

text \<open>
  The vocabulary every component shares: Rust's integer widths as words, byte strings and
  addresses, the operations of the Rust standard library that the code uses (the ordered map
  \<open>BTreeMap\<close>, the \<open>HashMap\<close> entry interface, \<open>Iterator::position\<close>, \<open>Vec::remove\<close>), the
  little-endian encoding of a \<open>u32\<close>, and two interfaces as locales: \<open>ordered_map\<close> (what a
  client may assume of an ordered map) and \<open>event_machine\<close> (a component that handles a
  sequence of events and keeps an invariant).

  Arithmetic: the release profile of the workspace does not enable overflow checks, so
  \<open>+\<close>, \<open>-\<close> and \<open>*\<close> on the unsigned types wrap around; the word operations model exactly that.
\<close>

section \<open>Machine types\<close>

type_synonym u8 = "8 word"
type_synonym u32 = "32 word"
type_synonym u64 = "64 word"
type_synonym u128 = "128 word"
type_synonym u256 = "256 word"

text \<open>
  \<open>Vec<u8>\<close>; the arrays \<open>[u8; 20]\<close> and \<open>[u8; 32]\<close> as big-endian words, so that their
  lexicographic order is the order of the words.
\<close>

type_synonym bytes = "u8 list"
type_synonym address = "160 word"
type_synonym b256 = "256 word"

named_theorems rust_defs \<open>definitions of the modelled standard library operations\<close>

section \<open>Generic list and map operations of the standard library\<close>

text \<open>\<open>Iterator::position\<close>: the index of the first element that satisfies the predicate.\<close>

fun position :: "('a \<Rightarrow> bool) \<Rightarrow> 'a list \<Rightarrow> nat option" where
  "position P [] = None"
| "position P (x # xs) = (if P x then Some 0 else map_option Suc (position P xs))"

text \<open>\<open>Vec::remove(i)\<close> for an index in range: the element and the shortened vector.\<close>

definition remove_nth :: "nat \<Rightarrow> 'a list \<Rightarrow> 'a list" where
  "remove_nth i xs = take i xs @ drop (Suc i) xs"

text \<open>\<open>map.entry(k).and_modify(f).or_insert(d)\<close> and \<open>map.entry(k).and_modify(f)\<close>.\<close>

definition and_modify_or_insert :: "'k \<Rightarrow> ('v \<Rightarrow> 'v) \<Rightarrow> 'v \<Rightarrow> ('k \<rightharpoonup> 'v) \<Rightarrow> ('k \<rightharpoonup> 'v)" where
  "and_modify_or_insert k f d m = m(k \<mapsto> (case m k of None \<Rightarrow> d | Some v \<Rightarrow> f v))"

definition and_modify :: "'k \<Rightarrow> ('v \<Rightarrow> 'v) \<Rightarrow> ('k \<rightharpoonup> 'v) \<Rightarrow> ('k \<rightharpoonup> 'v)" where
  "and_modify k f m = m(k := map_option f (m k))"

lemma position_None_iff: "position P xs = None \<longleftrightarrow> (\<forall>x \<in> set xs. \<not> P x)"
  by (induction xs) auto

lemma position_SomeD:
  "position P xs = Some i \<Longrightarrow> i < length xs \<and> P (xs ! i) \<and> (\<forall>j < i. \<not> P (xs ! j))"
proof (induction xs arbitrary: i)
  case Nil
  then show ?case by simp
next
  case (Cons x xs)
  then show ?case
    by (cases "P x"; cases i) (auto simp: less_Suc_eq_0_disj)
qed

lemma remove_nth_split:
  "i < length xs \<Longrightarrow> xs = take i xs @ xs ! i # drop (Suc i) xs"
  by (simp add: id_take_nth_drop)

lemma mset_remove_nth:
  assumes "i < length xs"
  shows "mset xs = add_mset (xs ! i) (mset (remove_nth i xs))"
proof -
  have "mset xs = mset (take i xs @ xs ! i # drop (Suc i) xs)"
    using remove_nth_split [OF assms] by simp
  then show ?thesis by (simp add: remove_nth_def)
qed

lemma set_remove_nth_subset: "set (remove_nth i xs) \<subseteq> set xs"
  by (auto simp: remove_nth_def dest: in_set_takeD in_set_dropD)

lemma and_modify_apply [simp]:
  "and_modify k f m a = (if a = k then map_option f (m a) else m a)"
  by (simp add: and_modify_def)

lemma and_modify_or_insert_apply [simp]:
  "and_modify_or_insert k f d m a =
     (if a = k then Some (case m k of None \<Rightarrow> d | Some v \<Rightarrow> f v) else m a)"
  by (simp add: and_modify_or_insert_def)

lemma dom_and_modify [simp]: "dom (and_modify k f m) = dom m"
  by (auto simp: dom_def split: if_splits)

lemma dom_and_modify_or_insert [simp]: "dom (and_modify_or_insert k f d m) = insert k (dom m)"
  by (auto simp: dom_def split: if_splits)

lemma restrict_UNIV [simp]: "m |` UNIV = m"
  by (simp add: restrict_map_def)

lemma restrict_Compl_insert: "(m(k := None)) |` (- A) = m |` (- insert k A)"
  by (auto simp: restrict_map_def fun_eq_iff)

lemmas restrict_Compl_insert' = restrict_Compl_insert [unfolded fun_upd_def]

lemma restrict_Compl_single: "m |` (- {k}) = m(k := None)"
  by (auto simp: restrict_map_def fun_eq_iff)

lemma restrict_Compl_Un: "(m |` (- A)) |` (- B) = m |` (- (A \<union> B))"
  by (auto simp: restrict_map_def fun_eq_iff)

lemma word_pos_iff: "0 < w \<longleftrightarrow> 0 < unat w"
  by (simp add: word_less_nat_alt)

lemma word_zero_iff: "w = 0 \<longleftrightarrow> unat w = 0"
  by (simp add: word_unat_eq_iff)

text \<open>A difference that starts from a word is that of the words.\<close>

lemma unat_of_nat_diff: "unat (of_nat (unat w - n) :: 'a::len word) = unat (w :: 'a word) - n"
proof -
  have "unat w - n < 2 ^ LENGTH('a)" using unsigned_less [of w] by (rule le_less_trans [rotated]) simp
  then show ?thesis by (simp add: unat_of_nat)
qed

lemma unat_of_nat_le:
  assumes "k \<le> unat (w :: 'a::len word)"
  shows "unat (of_nat k :: 'a word) = k"
proof -
  have "k < 2 ^ LENGTH('a)" using assms unsigned_less [of w] by (rule le_less_trans)
  then show ?thesis by (simp add: unat_of_nat)
qed

lemma of_nat_eq_iff: "i < 2 ^ LENGTH('a) \<Longrightarrow> j < 2 ^ LENGTH('a) \<Longrightarrow>
    (of_nat i :: 'a::len word) = of_nat j \<longleftrightarrow> i = j"
  by (simp add: word_unat_eq_iff unat_of_nat)

lemma word_less_succ: "w + 1 \<noteq> 0 \<Longrightarrow> w < w + 1" for w :: "'a::len word"
  using unatSuc [of w] by (simp add: word_less_nat_alt add.commute)

section \<open>Ordered maps\<close>

text \<open>
  \<open>BTreeMap<K, V>\<close> as an association list in strictly ascending key order. The operations
  are those the code calls: \<open>get\<close>, \<open>insert\<close>, \<open>remove\<close>, \<open>keys().next()\<close>,
  \<open>keys().next_back()\<close>, \<open>range(..=k).next_back()\<close> and \<open>collect\<close> from an iterator of pairs
  (a later pair replaces an earlier one with the same key).
\<close>

type_synonym ('k, 'v) btree = "('k \<times> 'v) list"

abbreviation bt_get :: "('k, 'v) btree \<Rightarrow> 'k \<rightharpoonup> 'v" where
  "bt_get \<equiv> map_of"

fun bt_insert :: "'k::linorder \<Rightarrow> 'v \<Rightarrow> ('k, 'v) btree \<Rightarrow> ('k, 'v) btree" where
  "bt_insert k v [] = [(k, v)]"
| "bt_insert k v ((a, b) # m) =
     (if k < a then (k, v) # (a, b) # m
      else if k = a then (k, v) # m
      else (a, b) # bt_insert k v m)"

fun bt_remove :: "'k \<Rightarrow> ('k, 'v) btree \<Rightarrow> ('k, 'v) btree" where
  "bt_remove k [] = []"
| "bt_remove k ((a, b) # m) = (if k = a then m else (a, b) # bt_remove k m)"

definition bt_first_key :: "('k, 'v) btree \<Rightarrow> 'k option" where
  "bt_first_key m = (case m of [] \<Rightarrow> None | (k, _) # _ \<Rightarrow> Some k)"

definition bt_last_key :: "('k, 'v) btree \<Rightarrow> 'k option" where
  "bt_last_key m = (if m = [] then None else Some (fst (last m)))"

definition bt_floor :: "('k::linorder, 'v) btree \<Rightarrow> 'k \<Rightarrow> ('k \<times> 'v) option" where
  "bt_floor m t = (case filter (\<lambda>(k, _). k \<le> t) m of [] \<Rightarrow> None | x # xs \<Rightarrow> Some (last (x # xs)))"

definition bt_collect :: "('k::linorder \<times> 'v) list \<Rightarrow> ('k, 'v) btree" where
  "bt_collect xs = fold (\<lambda>(k, v) m. bt_insert k v m) xs []"

definition bt_ok :: "('k::linorder, 'v) btree \<Rightarrow> bool" where
  "bt_ok m \<longleftrightarrow> sorted_wrt (<) (map fst m)"

lemmas bt_defs = bt_first_key_def bt_last_key_def bt_floor_def bt_collect_def bt_ok_def

lemma bt_ok_Nil [simp]: "bt_ok []"
  by (simp add: bt_ok_def)

lemma bt_ok_Cons [simp]:
  "bt_ok ((k, v) # m) \<longleftrightarrow> bt_ok m \<and> (\<forall>k' \<in> fst ` set m. k < k')"
  by (auto simp: bt_ok_def)

lemma bt_ok_append:
  "bt_ok (m @ n) \<longleftrightarrow> bt_ok m \<and> bt_ok n \<and> (\<forall>k \<in> fst ` set m. \<forall>k' \<in> fst ` set n. k < k')"
  by (auto simp: bt_ok_def sorted_wrt_append)

lemma bt_ok_distinct: "bt_ok m \<Longrightarrow> distinct (map fst m)"
  unfolding bt_ok_def by (induction m) auto

lemma keys_bt_insert [simp]: "fst ` set (bt_insert k v m) = insert k (fst ` set m)"
  by (induction k v m rule: bt_insert.induct) auto

lemma bt_ok_insert [simp]: "bt_ok m \<Longrightarrow> bt_ok (bt_insert k v m)"
proof (induction k v m rule: bt_insert.induct)
  case (1 k v)
  then show ?case by simp
next
  case (2 k v a b m)
  then show ?case by (auto dest: order.strict_trans)
qed

lemma bt_get_insert [simp]: "bt_get (bt_insert k v m) = (bt_get m)(k \<mapsto> v)"
  by (induction k v m rule: bt_insert.induct) (auto simp: fun_eq_iff)

lemma bt_insert_present:
  "bt_ok (l @ (k, v) # r) \<Longrightarrow> bt_insert k w (l @ (k, v) # r) = l @ (k, w) # r"
  by (induction l) (auto dest: order.strict_trans)

lemma set_bt_remove_subset: "set (bt_remove k m) \<subseteq> set m"
  by (induction k m rule: bt_remove.induct) auto

lemma bt_remove_absent: "k \<notin> fst ` set m \<Longrightarrow> bt_remove k m = m"
  by (induction k m rule: bt_remove.induct) auto

lemma length_bt_remove:
  "bt_get m k = Some v \<Longrightarrow> Suc (length (bt_remove k m)) = length m"
  by (induction k m rule: bt_remove.induct) (auto split: if_splits)

lemma length_bt_insert_le: "length (bt_insert k v m) \<le> Suc (length m)"
  by (induction k v m rule: bt_insert.induct) auto

lemma bt_ok_remove [simp]: "bt_ok m \<Longrightarrow> bt_ok (bt_remove k m)"
proof (induction k m rule: bt_remove.induct)
  case (1 k)
  then show ?case by simp
next
  case (2 k a b m)
  then show ?case using set_bt_remove_subset [of k m] by fastforce
qed

lemma bt_get_remove [simp]:
  "bt_ok m \<Longrightarrow> bt_get (bt_remove k m) = (bt_get m)(k := None)"
proof (induction k m rule: bt_remove.induct)
  case (1 k)
  then show ?case by auto
next
  case (2 k a b m)
  have "k \<notin> fst ` set m" if "k = a" using "2.prems" that by auto
  then show ?case using "2" by (auto simp: fun_eq_iff map_of_eq_None_iff)
qed

lemma bt_remove_present:
  "bt_ok (l @ (k, v) # r) \<Longrightarrow> bt_remove k (l @ (k, v) # r) = l @ r"
  by (induction l) auto

lemma bt_get_split:
  assumes "bt_get m k = Some v"
  obtains l r where "m = l @ (k, v) # r"
  using map_of_SomeD [OF assms] split_list by metis

lemma bt_ok_collect: "bt_ok (bt_collect xs)"
proof -
  have "bt_ok m \<Longrightarrow> bt_ok (fold (\<lambda>(k, v) m. bt_insert k v m) xs m)" for m
    by (induction xs arbitrary: m) auto
  then show ?thesis by (simp add: bt_collect_def)
qed

lemma bt_insert_last: "\<forall>k' \<in> fst ` set m. k' < k \<Longrightarrow> bt_insert k v m = m @ [(k, v)]"
  by (induction m) auto

lemma bt_collect_ok: "bt_ok m \<Longrightarrow> bt_collect m = m"
proof (induction m rule: rev_induct)
  case Nil
  then show ?case by (simp add: bt_collect_def)
next
  case (snoc x xs)
  obtain k v where x: "x = (k, v)" by force
  from snoc.prems have ok: "bt_ok xs" and lt: "\<forall>k' \<in> fst ` set xs. k' < k"
    by (auto simp: bt_ok_append x)
  have "bt_collect (xs @ [x]) = bt_insert k v (bt_collect xs)"
    by (simp add: bt_collect_def x)
  then show ?case using snoc.IH [OF ok] bt_insert_last [OF lt] by (simp add: x)
qed

subsection \<open>What a client may assume of an ordered map\<close>

locale ordered_map =
  fixes ok :: "'m \<Rightarrow> bool"
    and get :: "'m \<Rightarrow> 'k::linorder \<Rightarrow> 'v option"
    and put :: "'k \<Rightarrow> 'v \<Rightarrow> 'm \<Rightarrow> 'm"
    and delete :: "'k \<Rightarrow> 'm \<Rightarrow> 'm"
    and first_key :: "'m \<Rightarrow> 'k option"
    and last_key :: "'m \<Rightarrow> 'k option"
    and floor :: "'m \<Rightarrow> 'k \<Rightarrow> ('k \<times> 'v) option"
  assumes ok_put: "ok m \<Longrightarrow> ok (put k v m)"
    and ok_delete: "ok m \<Longrightarrow> ok (delete k m)"
    and get_put: "ok m \<Longrightarrow> get (put k v m) = (get m)(k \<mapsto> v)"
    and get_delete: "ok m \<Longrightarrow> get (delete k m) = (get m)(k := None)"
    and first_law: "ok m \<Longrightarrow> first_key m = Some k \<longleftrightarrow> k \<in> dom (get m) \<and> (\<forall>k' \<in> dom (get m). k \<le> k')"
    and last_law: "ok m \<Longrightarrow> last_key m = Some k \<longleftrightarrow> k \<in> dom (get m) \<and> (\<forall>k' \<in> dom (get m). k' \<le> k)"
    and floor_law: "ok m \<Longrightarrow> floor m t = Some (k, v) \<longleftrightarrow>
      get m k = Some v \<and> k \<le> t \<and> (\<forall>k' \<in> dom (get m). k' \<le> t \<longrightarrow> k' \<le> k)"
begin

lemma first_le: "ok m \<Longrightarrow> first_key m = Some k \<Longrightarrow> get m k' = Some v \<Longrightarrow> k \<le> k'"
  using first_law by blast

lemma last_ge: "ok m \<Longrightarrow> last_key m = Some k \<Longrightarrow> get m k' = Some v \<Longrightarrow> k' \<le> k"
  using last_law by blast

lemma first_present: "ok m \<Longrightarrow> first_key m = Some k \<Longrightarrow> \<exists>v. get m k = Some v"
  using first_law by blast

lemma last_present: "ok m \<Longrightarrow> last_key m = Some k \<Longrightarrow> \<exists>v. get m k = Some v"
  using last_law by blast

lemma get_put_same: "ok m \<Longrightarrow> get (put k v m) k = Some v"
  by (simp add: get_put)

lemma get_put_other: "ok m \<Longrightarrow> k' \<noteq> k \<Longrightarrow> get (put k v m) k' = get m k'"
  by (simp add: get_put)

lemma delete_put: "ok m \<Longrightarrow> get m k = None \<Longrightarrow> get (delete k (put k v m)) = get m"
  by (auto simp: get_put get_delete ok_put)

lemma floor_exact: "ok m \<Longrightarrow> get m t = Some v \<Longrightarrow> floor m t = Some (t, v)"
  by (subst floor_law) auto

lemma floor_None_below: "ok m \<Longrightarrow> floor m t = Some (k, v) \<Longrightarrow> k \<le> t"
  using floor_law by blast

text \<open>A later key above the bound does not change the entry selected at the bound.\<close>

lemma floor_put_above:
  assumes "ok m" and "t < k" and "floor m t = Some e"
  shows "floor (put k v m) t = Some e"
proof -
  obtain j w where e: "e = (j, w)" by (cases e)
  from assms e have j: "get m j = Some w" "j \<le> t" "\<forall>k' \<in> dom (get m). k' \<le> t \<longrightarrow> k' \<le> j"
    using floor_law by blast+
  with \<open>t < k\<close> have "j \<noteq> k" by auto
  with j assms(1,2) show ?thesis
    unfolding e by (subst floor_law) (auto simp: get_put ok_put)
qed

lemma floor_put_above_eq:
  assumes "ok m" and "t < k"
  shows "floor (put k v m) t = floor m t"
proof -
  have "floor (put k v m) t = Some (j, w) \<longleftrightarrow> floor m t = Some (j, w)" for j w
    using assms(2) unfolding floor_law [OF ok_put [OF assms(1)]] floor_law [OF assms(1)]
    by (auto simp: get_put [OF assms(1)])
  then show ?thesis by (metis option.exhaust surj_pair)
qed

end

lemma bt_first_key_iff:
  assumes "bt_ok m"
  shows "bt_first_key m = Some k \<longleftrightarrow> k \<in> dom (bt_get m) \<and> (\<forall>k' \<in> dom (bt_get m). k \<le> k')"
proof (cases m)
  case Nil
  then show ?thesis by (simp add: bt_first_key_def)
next
  case (Cons x r)
  obtain a b where x: "x = (a, b)" by force
  have "\<forall>k' \<in> fst ` set r. a < k'" using assms by (simp add: Cons x)
  then show ?thesis
    by (auto simp: bt_first_key_def Cons x dom_map_of_conv_image_fst image_iff intro: order.antisym)
qed

lemma bt_last_key_iff:
  assumes "bt_ok m"
  shows "bt_last_key m = Some k \<longleftrightarrow> k \<in> dom (bt_get m) \<and> (\<forall>k' \<in> dom (bt_get m). k' \<le> k)"
proof (cases m rule: rev_cases)
  case Nil
  then show ?thesis by (simp add: bt_last_key_def)
next
  case (snoc r x)
  obtain a b where x: "x = (a, b)" by force
  have "\<forall>k' \<in> fst ` set r. k' < a" using assms by (simp add: snoc x bt_ok_append)
  then show ?thesis
    unfolding dom_map_of_conv_image_fst
    by (auto simp: bt_last_key_def snoc x intro: order.antisym)
qed

lemma bt_filter_ok: "bt_ok m \<Longrightarrow> bt_ok (filter P m)"
  by (induction m) (auto simp: bt_ok_def)

lemma map_of_filter_keys:
  "bt_ok m \<Longrightarrow> map_of (filter (\<lambda>(k, _). Q k) m) k = (if Q k then map_of m k else None)"
  by (induction m) (auto split: if_splits)

lemma bt_floor_iff:
  assumes ok: "bt_ok m"
  shows "bt_floor m t = Some (k, v) \<longleftrightarrow>
    bt_get m k = Some v \<and> k \<le> t \<and> (\<forall>k' \<in> dom (bt_get m). k' \<le> t \<longrightarrow> k' \<le> k)"
proof -
  let ?f = "filter (\<lambda>(k, _). k \<le> t) m"
  have okf: "bt_ok ?f" by (rule bt_filter_ok [OF ok])
  have get: "bt_get ?f j = (if j \<le> t then bt_get m j else None)" for j
    by (rule map_of_filter_keys [OF ok])
  have fl: "bt_floor m t = (if ?f = [] then None else Some (last ?f))"
    by (auto simp: bt_floor_def split: list.splits)
  have "bt_floor m t = Some (k, v) \<longleftrightarrow> bt_last_key ?f = Some k \<and> bt_get ?f k = Some v"
  proof (cases ?f rule: rev_cases)
    case Nil
    then show ?thesis by (simp only: fl) (simp add: bt_last_key_def)
  next
    case (snoc r x)
    obtain a b where x: "x = (a, b)" by force
    have "bt_get (r @ [(a, b)]) a = Some b"
      using okf snoc x bt_ok_distinct by (metis in_set_conv_decomp map_of_is_SomeI)
    then show ?thesis by (simp only: fl) (auto simp add: snoc x bt_last_key_def map_add_def split: option.splits)
  qed
  also have "\<dots> \<longleftrightarrow> bt_get m k = Some v \<and> k \<le> t \<and> (\<forall>k' \<in> dom (bt_get m). k' \<le> t \<longrightarrow> k' \<le> k)"
    unfolding bt_last_key_iff [OF okf] by (auto simp: get dom_def split: if_splits)
  finally show ?thesis .
qed

interpretation bt: ordered_map bt_ok bt_get bt_insert bt_remove bt_first_key bt_last_key bt_floor
  by unfold_locales (simp_all add: bt_first_key_iff bt_last_key_iff bt_floor_iff)

section \<open>Event machines\<close>

text \<open>
  A component that receives events one at a time: \<open>enabled\<close> says which events its guards let
  through in a state, \<open>step\<close> gives the next state and the messages it sends. A history invariant
  relates the state to everything received and sent so far; a client proves it for one step and has
  it for every run.
\<close>

fun run_events :: "('s \<Rightarrow> 'e \<Rightarrow> 's \<times> 'o list) \<Rightarrow> 's \<Rightarrow> 'e list \<Rightarrow> 's \<times> 'o list" where
  "run_events step s [] = (s, [])"
| "run_events step s (e # es) =
     (let (s', os) = step s e; (s'', os') = run_events step s' es in (s'', os @ os'))"

fun enabled_run :: "('s \<Rightarrow> 'e \<Rightarrow> bool) \<Rightarrow> ('s \<Rightarrow> 'e \<Rightarrow> 's \<times> 'o list) \<Rightarrow> 's \<Rightarrow> 'e list \<Rightarrow> bool" where
  "enabled_run enabled step s [] \<longleftrightarrow> True"
| "enabled_run enabled step s (e # es) \<longleftrightarrow> enabled s e \<and> enabled_run enabled step (fst (step s e)) es"

locale event_machine =
  fixes enabled :: "'s \<Rightarrow> 'e \<Rightarrow> bool"
    and step :: "'s \<Rightarrow> 'e \<Rightarrow> 's \<times> 'o list"
    and inv :: "'s \<Rightarrow> 'e list \<Rightarrow> 'o list \<Rightarrow> bool"
  assumes step_inv: "inv s es os \<Longrightarrow> enabled s e \<Longrightarrow> step s e = (s', os') \<Longrightarrow> inv s' (es @ [e]) (os @ os')"
begin

lemma run_inv:
  assumes "inv s es os" and "enabled_run enabled step s fs" and "run_events step s fs = (s', os')"
  shows "inv s' (es @ fs) (os @ os')"
  using assms
proof (induction fs arbitrary: s es os s' os')
  case Nil
  then show ?case by simp
next
  case (Cons e fs)
  obtain s1 o1 where 1: "step s e = (s1, o1)" by force
  obtain s2 o2 where 2: "run_events step s1 fs = (s2, o2)" by force
  from Cons.prems(2) 1 have "enabled s e" and r: "enabled_run enabled step s1 fs" by auto
  have i: "inv s1 (es @ [e]) (os @ o1)" using Cons.prems(1) \<open>enabled s e\<close> 1 by (rule step_inv)
  have "inv s2 ((es @ [e]) @ fs) ((os @ o1) @ o2)" using i r 2 by (rule Cons.IH)
  with Cons.prems(3) 1 2 show ?case by simp
qed

lemma run_inv_start:
  assumes "inv s [] []" and "enabled_run enabled step s fs" and "run_events step s fs = (s', os')"
  shows "inv s' fs os'"
  using run_inv [OF assms] by simp

end

lemma run_events_append:
  "run_events step s (es @ fs) =
     (let (s', os) = run_events step s es; (s'', os') = run_events step s' fs in (s'', os @ os'))"
  by (induction es arbitrary: s) (auto split: prod.splits)

section \<open>Little-endian integers and length-prefixed framing\<close>

text \<open>\<open>u32::to_le_bytes\<close> and \<open>u32::from_le_bytes\<close> on a slice of exactly four bytes.\<close>

definition u32_to_le_bytes :: "u32 \<Rightarrow> bytes" where
  "u32_to_le_bytes w = map (\<lambda>i. of_nat (unat w div 256 ^ i mod 256)) [0, 1, 2, 3]"

definition u32_from_le_bytes :: "bytes \<Rightarrow> u32 option" where
  "u32_from_le_bytes bs = (case bs of
     [a, b, c, d] \<Rightarrow> Some (of_nat (unat a + 256 * unat b + 65536 * unat c + 16777216 * unat d))
   | _ \<Rightarrow> None)"

lemma length_u32_to_le_bytes [simp]: "length (u32_to_le_bytes w) = 4"
  by (simp add: u32_to_le_bytes_def)

lemma digits_base_256:
  assumes "n < 4294967296"
  shows "n mod 256 + 256 * (n div 256 mod 256) + 65536 * (n div 65536 mod 256)
           + 16777216 * (n div 16777216 mod 256) = (n :: nat)"
proof -
  define a b c where "a = n div 256" and "b = a div 256" and "c = b div 256"
  have d: "n div 65536 = b" "n div 16777216 = c"
    by (simp_all add: a_def b_def c_def flip: div_mult2_eq)
  have "c < 256" using assms by (simp flip: d)
  then have "c mod 256 = c" by simp
  moreover have "n = 256 * a + n mod 256" "a = 256 * b + a mod 256" "b = 256 * c + b mod 256"
    by (simp_all add: a_def b_def c_def)
  ultimately show ?thesis unfolding d a_def [symmetric] by linarith
qed

lemma u32_le_roundtrip: "u32_from_le_bytes (u32_to_le_bytes w) = Some w"
proof -
  have u: "unat (of_nat (k mod 256) :: u8) = k mod 256" for k
    by (simp add: unat_of_nat)
  have "unat w < 2 ^ LENGTH(32)" by (rule unsigned_less)
  then have "unat w < 4294967296" by simp
  note s = digits_base_256 [OF this]
  have "u32_from_le_bytes (u32_to_le_bytes w) =
    Some (of_nat (unat w mod 256 + 256 * (unat w div 256 mod 256)
      + 65536 * (unat w div 65536 mod 256) + 16777216 * (unat w div 16777216 mod 256)))"
    unfolding u32_from_le_bytes_def u32_to_le_bytes_def list.map list.case u
    by (simp del: of_nat_add of_nat_mult of_nat_numeral)
  then show ?thesis unfolding s by simp
qed

end
