(* ===== verification/ClobApi.thy ===== *)
theory ClobApi
  imports Prelude
begin

text \<open>
  The public API types of the CLOB (\<^verbatim>\<open>examples/clob/core/src/api/mod.rs\<close>): requests,
  responses, orders, fills, balances, and the methods on them. Field names carry a prefix
  (\<open>ao\<close> for \<open>AddOrderRequest\<close>, \<open>ord\<close> for \<open>Order\<close>, \<open>fl\<close> for \<open>OrderFill\<close>, \<open>fs\<close> for
  \<open>FillStatus\<close>, \<open>ab\<close> for \<open>AssetBalance\<close>) because the records share a name space.
\<close>

section \<open>Requests\<close>

record add_order_request =
  ao_address :: address
  ao_is_buy :: bool
  ao_limit_price :: u64
  ao_size :: u64

record cancel_order_request =
  co_oid :: u64

record deposit_request =
  dep_address :: address
  dep_base_free :: u64
  dep_quote_free :: u64

record withdraw_request =
  wd_address :: address
  wd_base_free :: u64
  wd_quote_free :: u64

datatype request =
    AddOrder add_order_request
  | CancelOrder cancel_order_request
  | Deposit deposit_request
  | Withdraw withdraw_request

section \<open>Orders, fills and balances\<close>

record asset_balance =
  ab_free :: u64
  ab_locked :: u64

definition default_balance :: asset_balance where
  "default_balance = \<lparr>ab_free = 0, ab_locked = 0\<rparr>"

record order =
  ord_is_buy :: bool
  ord_limit_price :: u64
  ord_size :: u64
  ord_oid :: u64
  ord_address :: address

definition to_order :: "add_order_request \<Rightarrow> u64 \<Rightarrow> order" where
  "to_order req oid = \<lparr>ord_is_buy = ao_is_buy req, ord_limit_price = ao_limit_price req,
     ord_size = ao_size req, ord_oid = oid, ord_address = ao_address req\<rparr>"

text \<open>\<open>Order::quote_size\<close>: the product wraps around at 64 bits.\<close>

definition order_quote_size :: "order \<Rightarrow> u64" where
  "order_quote_size o' = ord_size o' * ord_limit_price o'"

record order_fill =
  fl_maker_oid :: u64
  fl_taker_oid :: u64
  fl_size :: u64
  fl_price :: u64
  fl_buyer :: address
  fl_seller :: address

definition order_fill_new :: "u64 \<Rightarrow> u64 \<Rightarrow> u64 \<Rightarrow> u64 \<Rightarrow> address \<Rightarrow> address \<Rightarrow> order_fill" where
  "order_fill_new maker_oid taker_oid sz price buyer seller =
     \<lparr>fl_maker_oid = maker_oid, fl_taker_oid = taker_oid, fl_size = sz, fl_price = price,
      fl_buyer = buyer, fl_seller = seller\<rparr>"

definition default_fill :: order_fill where
  "default_fill = order_fill_new 0 0 0 0 0 0"

definition fill_quote_size :: "order_fill \<Rightarrow> u64" where
  "fill_quote_size f = fl_size f * fl_price f"

record fill_status =
  fs_oid :: u64
  fs_size :: u64
  fs_address :: address
  fs_filled_size :: u64
  fs_fills :: "order_fill list"

definition filled_quote :: "fill_status \<Rightarrow> u64" where
  "filled_quote st = fold (\<lambda>f quote_filled. quote_filled + fill_quote_size f) (fs_fills st) 0"

section \<open>Responses\<close>

record add_order_response =
  ar_success :: bool
  ar_status :: "fill_status option"

record cancel_order_response =
  cr_success :: bool
  cr_fill_status :: "fill_status option"

record deposit_response =
  dr_success :: bool

record withdraw_response =
  wr_success :: bool

datatype response =
    AddOrderResp add_order_response
  | CancelOrderResp cancel_order_response
  | DepositResp deposit_response
  | WithdrawResp withdraw_response

record api_response =
  api_response :: response
  api_global_index :: u64

text \<open>Whether the engine reports the request as processed.\<close>

fun resp_success :: "response \<Rightarrow> bool" where
  "resp_success (AddOrderResp r) = ar_success r"
| "resp_success (CancelOrderResp r) = cr_success r"
| "resp_success (DepositResp r) = dr_success r"
| "resp_success (WithdrawResp r) = wr_success r"

section \<open>Lemmas\<close>

lemma to_order_sel [simp]:
  "ord_is_buy (to_order r i) = ao_is_buy r"
  "ord_limit_price (to_order r i) = ao_limit_price r"
  "ord_size (to_order r i) = ao_size r"
  "ord_oid (to_order r i) = i"
  "ord_address (to_order r i) = ao_address r"
  by (simp_all add: to_order_def)

lemma default_balance_sel [simp]:
  "ab_free default_balance = 0" "ab_locked default_balance = 0"
  by (simp_all add: default_balance_def)

lemma filled_quote_sum: "filled_quote st = (\<Sum>f \<leftarrow> fs_fills st. fill_quote_size f)"
proof -
  have "fold (\<lambda>f q. q + fill_quote_size f) xs a = a + (\<Sum>f \<leftarrow> xs. fill_quote_size f)" for xs a
    by (induction xs arbitrary: a) (simp_all add: add.assoc)
  then show ?thesis by (simp add: filled_quote_def)
qed

end
