(* ===== verification/OrderBook.thy ===== *)
theory OrderBook
  imports ClobApi
begin

text \<open>
  The order book of the CLOB (\<^verbatim>\<open>examples/clob/core/src/orderbook.rs\<close>): two ordered maps
  from price to the queue of orders at that price, and a map from order id to price. The
  matching loop of \<open>OrderBook::limit\<close> is written once for both sides, as \<open>match_side\<close>: it is
  given the key that is tried first (\<open>ask_min\<close> or \<open>bid_max\<close>) and the price test of the taker.
  A panic (the \<open>expect\<close> in \<open>limit\<close>) is the value \<open>None\<close>.

  The specification is price-time priority on plain lists and natural numbers
  (\<open>spec_match\<close>, \<open>spec_rest\<close>, \<open>spec_side\<close>); \<open>limit_priority\<close> shows that the loop implements it.
\<close>

section \<open>The model\<close>

record order_book =
  ob_bids :: "(u64, order list) btree"
  ob_asks :: "(u64, order list) btree"
  ob_oid_to_level :: "u64 \<rightharpoonup> u64"

definition default_book :: order_book where
  "default_book = \<lparr>ob_bids = [], ob_asks = [], ob_oid_to_level = Map.empty\<rparr>"

text \<open>The fill that the loop pushes for one maker order.\<close>

definition maker_fill :: "u64 \<Rightarrow> bool \<Rightarrow> address \<Rightarrow> order \<Rightarrow> u64 \<Rightarrow> order_fill" where
  "maker_fill taker_oid is_buy taker_address maker sz =
     (let fill = default_fill\<lparr>fl_maker_oid := ord_oid maker, fl_taker_oid := taker_oid\<rparr>;
          fill = (if is_buy
                  then fill\<lparr>fl_buyer := taker_address, fl_seller := ord_address maker\<rparr>
                  else fill\<lparr>fl_buyer := ord_address maker, fl_seller := taker_address\<rparr>)
      in fill\<lparr>fl_size := sz, fl_price := ord_limit_price maker\<rparr>)"

text \<open>
  The loop over \<open>level.iter_mut()\<close>: the level with its mutated maker, the number of complete
  fills, the remaining amount, the fills, and the id map.
\<close>

fun fill_loop :: "u64 \<Rightarrow> bool \<Rightarrow> address \<Rightarrow> order list \<Rightarrow> u64 \<Rightarrow> (u64 \<rightharpoonup> u64)
    \<Rightarrow> order list \<times> nat \<times> u64 \<times> order_fill list \<times> (u64 \<rightharpoonup> u64)" where
  "fill_loop t b a [] rem o2l = ([], 0, rem, [], o2l)"
| "fill_loop t b a (m # ms) rem o2l =
     (if ord_size m \<le> rem then
        let rem' = rem - ord_size m;
            fill = maker_fill t b a m (ord_size m);
            o2l' = o2l(ord_oid m := None)
        in if rem' = 0 then (m # ms, 1, rem', [fill], o2l')
           else (let (ms', n, r, fs, o2l'') = fill_loop t b a ms rem' o2l'
                 in (m # ms', Suc n, r, fill # fs, o2l''))
      else (m\<lparr>ord_size := ord_size m - rem\<rparr> # ms, 0, 0, [maker_fill t b a m rem], o2l))"

definition fill_at_price_level :: "order list \<Rightarrow> u64 \<Rightarrow> u64 \<Rightarrow> bool \<Rightarrow> address \<Rightarrow> (u64 \<rightharpoonup> u64)
    \<Rightarrow> order list \<times> u64 \<times> order_fill list \<times> (u64 \<rightharpoonup> u64)" where
  "fill_at_price_level level taker_oid sz is_buy taker_address o2l =
     (let (level', complete_fills, remaining_amount, fills, o2l') =
        fill_loop taker_oid is_buy taker_address level sz o2l
      in (drop complete_fills level', remaining_amount, fills, o2l'))"

definition bid_max :: "order_book \<Rightarrow> u64 option" where
  "bid_max b = bt_last_key (ob_bids b)"

definition ask_min :: "order_book \<Rightarrow> u64 option" where
  "ask_min b = bt_first_key (ob_asks b)"

definition enqueue_order :: "order \<Rightarrow> order_book \<Rightarrow> order_book" where
  "enqueue_order ord b =
     (let b = b\<lparr>ob_oid_to_level := (ob_oid_to_level b)(ord_oid ord \<mapsto> ord_limit_price ord)\<rparr>;
          level = (\<lambda>side. case bt_get side (ord_limit_price ord) of None \<Rightarrow> [] | Some l \<Rightarrow> l)
      in if ord_is_buy ord
         then b\<lparr>ob_bids := bt_insert (ord_limit_price ord) (level (ob_bids b) @ [ord]) (ob_bids b)\<rparr>
         else b\<lparr>ob_asks := bt_insert (ord_limit_price ord) (level (ob_asks b) @ [ord]) (ob_asks b)\<rparr>)"

lemma fill_loop_rest:
  "fill_loop t b a ms rem o2l = (ms', n, r, fs, o2l') \<Longrightarrow> 0 < r \<Longrightarrow> drop n ms' = []"
  by (induction t b a ms rem o2l arbitrary: ms' n r fs o2l' rule: fill_loop.induct)
    (auto split: if_splits prod.splits simp: Let_def)

lemma fill_at_price_level_rest:
  "fill_at_price_level lvl t rem b a o2l = (lvl', r, fs, o2l') \<Longrightarrow> 0 < r \<Longrightarrow> lvl' = []"
  by (auto simp: fill_at_price_level_def split: prod.splits dest: fill_loop_rest)

text \<open>
  The loop \<open>while let Some(p) = valid_...(cur, remaining)\<close>. It ends because a level that
  leaves an amount over is empty and is removed.
\<close>

function match_side :: "((u64, order list) btree \<Rightarrow> u64 option) \<Rightarrow> (u64 \<Rightarrow> bool) \<Rightarrow> order
    \<Rightarrow> (u64, order list) btree \<Rightarrow> (u64 \<rightharpoonup> u64) \<Rightarrow> u64 \<Rightarrow> u64 option \<Rightarrow> order_fill list
    \<Rightarrow> ((u64, order list) btree \<times> (u64 \<rightharpoonup> u64) \<times> u64 \<times> order_fill list) option" where
  "match_side best valid ord side o2l rem cur fills =
     (case cur of
        None \<Rightarrow> Some (side, o2l, rem, fills)
      | Some p \<Rightarrow>
          if valid p \<and> 0 < rem then
            (case bt_get side p of
               None \<Rightarrow> None
             | Some level \<Rightarrow>
                 let (level', rem', new_fills, o2l') = fill_at_price_level level (ord_oid ord) rem
                       (ord_is_buy ord) (ord_address ord) o2l;
                     side' = (if level' = [] then bt_remove p side else bt_insert p level' side);
                     cur' = (if 0 < rem' then best side' else cur)
                 in match_side best valid ord side' o2l' rem' cur' (fills @ new_fills))
          else Some (side, o2l, rem, fills))"
  by pat_completeness auto
termination
proof (relation "measure (\<lambda>(best, valid, ord, side, o2l, rem, cur, fills).
          if rem = (0 :: u64) then 0 else Suc (length side))", goal_cases)
  case 1
  then show ?case by simp
next
  case (2 best valid ord side o2l rem cur fills p level x level' y rem' z new_fills o2l' side' cur')
  then have f: "fill_at_price_level level (ord_oid ord) rem (ord_is_buy ord) (ord_address ord) o2l
      = (level', rem', new_fills, o2l')" by simp
  from 2 have "0 < rem" by simp
  show ?case
  proof (cases "rem' = 0")
    case True
    with \<open>0 < rem\<close> show ?thesis by simp
  next
    case False
    then have "0 < rem'" by (simp add: word_gt_0)
    with f have "level' = []" by (rule fill_at_price_level_rest)
    with 2 have "Suc (length side') = length side" using length_bt_remove by simp
    with False \<open>0 < rem\<close> show ?thesis by simp
  qed
qed

declare match_side.simps [simp del]

definition limit :: "order \<Rightarrow> order_book \<Rightarrow> (u64 \<times> order_fill list \<times> order_book) option" where
  "limit ord b =
     (case (if ord_is_buy ord
            then map_option (\<lambda>(side, o2l, rem, fills).
                     (rem, fills, b\<lparr>ob_asks := side, ob_oid_to_level := o2l\<rparr>))
                   (match_side bt_first_key (\<lambda>p. ord_limit_price ord \<ge> p) ord (ob_asks b)
                      (ob_oid_to_level b) (ord_size ord) (ask_min b) [])
            else map_option (\<lambda>(side, o2l, rem, fills).
                     (rem, fills, b\<lparr>ob_bids := side, ob_oid_to_level := o2l\<rparr>))
                   (match_side bt_last_key (\<lambda>p. ord_limit_price ord \<le> p) ord (ob_bids b)
                      (ob_oid_to_level b) (ord_size ord) (bid_max b) []))
      of None \<Rightarrow> None
       | Some (rem, fills, b') \<Rightarrow>
           Some (rem, fills, if 0 < rem then enqueue_order ord b' else b'))"

text \<open>Removing the order with the given id from one level, if it is there.\<close>

definition remove_from_level :: "u64 \<Rightarrow> order list \<Rightarrow> order option \<times> order list" where
  "remove_from_level oid lvl =
     (case position (\<lambda>x. ord_oid x = oid) lvl of
        None \<Rightarrow> (None, lvl)
      | Some i \<Rightarrow> (Some (lvl ! i), remove_nth i lvl))"

definition cancel :: "u64 \<Rightarrow> order_book \<Rightarrow> order option \<times> order_book" where
  "cancel oid b =
     (case ob_oid_to_level b oid of
        None \<Rightarrow> (None, b)
      | Some price \<Rightarrow>
          let b = b\<lparr>ob_oid_to_level := (ob_oid_to_level b)(oid := None)\<rparr>
          in case bt_get (ob_bids b) price of
               Some lvl \<Rightarrow>
                 let (r, lvl') = remove_from_level oid lvl
                 in (r, b\<lparr>ob_bids := bt_insert price lvl' (ob_bids b)\<rparr>)
             | None \<Rightarrow>
                 (case bt_get (ob_asks b) price of
                    Some lvl \<Rightarrow>
                      let (r, lvl') = remove_from_level oid lvl
                      in (r, b\<lparr>ob_asks := bt_insert price lvl' (ob_asks b)\<rparr>)
                  | None \<Rightarrow> (None, b)))"

section \<open>Specification: price-time priority\<close>

text \<open>
  On natural numbers: a taker of amount \<open>r\<close> meets the makers in the given order;
  \<open>spec_match\<close> pairs each maker that trades with the traded amount, \<open>spec_rest\<close> is the queue
  that is left and \<open>spec_filled\<close> the ids that leave the book.
\<close>

fun spec_match :: "order list \<Rightarrow> nat \<Rightarrow> (order \<times> nat) list" where
  "spec_match [] r = []"
| "spec_match (m # ms) r =
     (if r = 0 then []
      else let k = min (unat (ord_size m)) r in (m, k) # spec_match ms (r - k))"

fun spec_rest :: "order list \<Rightarrow> nat \<Rightarrow> order list" where
  "spec_rest [] r = []"
| "spec_rest (m # ms) r =
     (if r = 0 then m # ms
      else if unat (ord_size m) \<le> r then spec_rest ms (r - unat (ord_size m))
      else m\<lparr>ord_size := ord_size m - of_nat r\<rparr> # ms)"

fun spec_filled :: "order list \<Rightarrow> nat \<Rightarrow> u64 list" where
  "spec_filled [] r = []"
| "spec_filled (m # ms) r =
     (if r = 0 \<or> r < unat (ord_size m) then []
      else ord_oid m # spec_filled ms (r - unat (ord_size m)))"

definition total_size :: "order list \<Rightarrow> nat" where
  "total_size ms = (\<Sum>m \<leftarrow> ms. unat (ord_size m))"

text \<open>One side of the book, levels in priority order; \<open>valid\<close> is the price test.\<close>

fun spec_side :: "(u64 \<Rightarrow> bool) \<Rightarrow> (u64 \<times> order list) list \<Rightarrow> nat \<Rightarrow> (u64 \<times> order list) list" where
  "spec_side valid [] r = []"
| "spec_side valid ((p, l) # ls) r =
     (if r = 0 \<or> \<not> valid p then (p, l) # ls
      else let l' = spec_rest l r in
           if l' = [] then spec_side valid ls (r - total_size l) else (p, l') # ls)"

definition side_orders :: "(u64 \<times> order list) list \<Rightarrow> order list" where
  "side_orders ls = concat (map snd ls)"

definition crossing :: "(u64 \<Rightarrow> bool) \<Rightarrow> (u64 \<times> order list) list \<Rightarrow> order list" where
  "crossing valid ls = side_orders (takeWhile (valid \<circ> fst) ls)"

definition beyond :: "(u64 \<Rightarrow> bool) \<Rightarrow> (u64 \<times> order list) list \<Rightarrow> order list" where
  "beyond valid ls = side_orders (dropWhile (valid \<circ> fst) ls)"

definition spec_fills :: "order \<Rightarrow> order list \<Rightarrow> order_fill list" where
  "spec_fills ord ms =
     map (\<lambda>(m, k). maker_fill (ord_oid ord) (ord_is_buy ord) (ord_address ord) m (of_nat k))
       (spec_match ms (unat (ord_size ord)))"

text \<open>The makers that a taker may trade with, in the order in which it meets them.\<close>

definition crossing_makers :: "order \<Rightarrow> order_book \<Rightarrow> order list" where
  "crossing_makers ord b =
     (if ord_is_buy ord then crossing (\<lambda>p. ord_limit_price ord \<ge> p) (ob_asks b)
      else crossing (\<lambda>p. ord_limit_price ord \<le> p) (rev (ob_bids b)))"

definition spec_book :: "order \<Rightarrow> order_book \<Rightarrow> order_book" where
  "spec_book ord b =
     (let r = unat (ord_size ord);
          o2l = ob_oid_to_level b |` (- set (spec_filled (crossing_makers ord b) r))
      in if ord_is_buy ord
         then b\<lparr>ob_asks := spec_side (\<lambda>p. ord_limit_price ord \<ge> p) (ob_asks b) r,
                ob_oid_to_level := o2l\<rparr>
         else b\<lparr>ob_bids := rev (spec_side (\<lambda>p. ord_limit_price ord \<le> p) (rev (ob_bids b)) r),
                ob_oid_to_level := o2l\<rparr>)"

definition spec_limit :: "order \<Rightarrow> order_book \<Rightarrow> u64 \<times> order_fill list \<times> order_book" where
  "spec_limit ord b =
     (let makers = crossing_makers ord b;
          rem = unat (ord_size ord) - total_size makers
      in (of_nat rem, spec_fills ord makers,
          if 0 < rem then enqueue_order ord (spec_book ord b) else spec_book ord b))"

section \<open>Lemmas on the specification\<close>

lemma total_size_simps [simp]:
  "total_size [] = 0" "total_size (m # ms) = unat (ord_size m) + total_size ms"
  "total_size (xs @ ys) = total_size xs + total_size ys"
  by (simp_all add: total_size_def)

lemma side_orders_simps [simp]:
  "side_orders [] = []" "side_orders (pl # ls) = snd pl @ side_orders ls"
  "side_orders (ls @ ls') = side_orders ls @ side_orders ls'"
  by (simp_all add: side_orders_def)

lemma set_side_orders: "set (side_orders ls) = (\<Union>(p, l) \<in> set ls. set l)"
  by (auto simp: side_orders_def)

lemma mset_side_orders_rev: "mset (side_orders (rev ls)) = mset (side_orders ls)"
  by (induction ls) (auto simp: side_orders_def)

lemma crossing_Nil [simp]: "crossing valid [] = []"
  by (simp add: crossing_def)

lemma crossing_Cons [simp]:
  "crossing valid ((p, l) # ls) = (if valid p then l @ crossing valid ls else [])"
  by (simp add: crossing_def)

lemma beyond_Nil [simp]: "beyond valid [] = []"
  by (simp add: beyond_def)

lemma beyond_Cons [simp]:
  "beyond valid ((p, l) # ls) = (if valid p then beyond valid ls else l @ side_orders ls)"
  by (simp add: beyond_def)

lemma crossing_beyond: "crossing valid ls @ beyond valid ls = side_orders ls"
  by (induction ls) auto

lemma spec_zero [simp]:
  "spec_match ms 0 = []" "spec_rest ms 0 = ms" "spec_filled ms 0 = []"
  by (cases ms; simp)+

lemma spec_side_zero [simp]: "spec_side valid ls 0 = ls"
  by (cases "(valid, ls, 0::nat)" rule: spec_side.cases) auto

lemma spec_match_append:
  "spec_match (xs @ ys) r = spec_match xs r @ spec_match ys (r - total_size xs)"
proof (induction xs r rule: spec_match.induct)
  case (2 m ms r)
  then show ?case by (cases "unat (ord_size m) \<le> r") (simp_all add: min_def Let_def)
qed simp

lemma spec_filled_append:
  "spec_filled (xs @ ys) r = spec_filled xs r @
     (if total_size xs \<le> r then spec_filled ys (r - total_size xs) else [])"
proof (induction xs r rule: spec_filled.induct)
  case (2 m ms r)
  then show ?case by (cases "unat (ord_size m) \<le> r") auto
qed simp

lemma spec_rest_append:
  "spec_rest (xs @ ys) r =
     (if spec_rest xs r = [] then spec_rest ys (r - total_size xs) else spec_rest xs r @ ys)"
proof (induction xs r rule: spec_rest.induct)
  case (2 m ms r)
  then show ?case by (cases "unat (ord_size m) \<le> r") auto
qed simp

text \<open>A queue that leaves something over is used up; a queue that is not used up leaves nothing.\<close>

lemma spec_rest_Nil: "total_size ms < r \<Longrightarrow> spec_rest ms r = []"
  by (induction ms r rule: spec_rest.induct) auto

lemma spec_rest_not_Nil: "spec_rest ms r \<noteq> [] \<Longrightarrow> r \<le> total_size ms"
  using spec_rest_Nil by (meson not_le)

lemma spec_rest_Nil_total: "spec_rest ms r = [] \<Longrightarrow> total_size ms \<le> r"
  by (induction ms r rule: spec_rest.induct) (auto split: if_splits)

lemma sum_spec_match: "(\<Sum>(m, k) \<leftarrow> spec_match ms r. k) = min r (total_size ms)"
  by (induction ms r rule: spec_match.induct) (auto simp: min_def Let_def)

lemma spec_match_mem:
  "(m, k) \<in> set (spec_match ms r) \<Longrightarrow> m \<in> set ms \<and> k \<le> unat (ord_size m) \<and> k \<le> r"
  by (induction ms r rule: spec_match.induct) (auto split: if_splits simp: Let_def)

lemma spec_match_pos:
  "(m, k) \<in> set (spec_match ms r) \<Longrightarrow> \<forall>m \<in> set ms. 0 < ord_size m \<Longrightarrow> 0 < k"
proof (induction ms r rule: spec_match.induct)
  case (2 x ms r)
  have "0 < unat (ord_size x)" using "2.prems" by (simp add: word_gt_0 unat_gt_0)
  with 2 show ?case by (auto split: if_splits simp: Let_def)
qed simp

lemma spec_match_makers: "map fst (spec_match ms r) = take (length (spec_match ms r)) ms"
  by (induction ms r rule: spec_match.induct) (auto simp: Let_def)

lemma spec_filled_rest_oids:
  "map ord_oid ms = spec_filled ms r @ map ord_oid (spec_rest ms r)"
  by (induction ms r rule: spec_rest.induct) auto

lemma spec_rest_mem:
  assumes "x \<in> set (spec_rest ms r)"
  obtains m where "m \<in> set ms" "ord_oid x = ord_oid m" "ord_is_buy x = ord_is_buy m"
    "ord_limit_price x = ord_limit_price m" "ord_address x = ord_address m"
    "ord_size x \<le> ord_size m" "0 < ord_size m \<longrightarrow> 0 < ord_size x"
proof -
  have le: "w - of_nat r \<le> w \<and> 0 < w - of_nat r" if "\<not> unat w \<le> r" for w :: u64 and r
  proof -
    have "unat w < 2 ^ LENGTH(64)" by (rule unsigned_less)
    with that have "r < 2 ^ LENGTH(64)" by linarith
    then have r: "unat (of_nat r :: u64) = r" by (simp add: unat_of_nat)
    with that have "of_nat r < w" by (simp add: word_less_nat_alt)
    then show ?thesis
      using r that by (simp add: word_le_nat_alt word_less_nat_alt unat_sub)
  qed
  from assms have "\<exists>m \<in> set ms. ord_oid x = ord_oid m \<and> ord_is_buy x = ord_is_buy m
    \<and> ord_limit_price x = ord_limit_price m \<and> ord_address x = ord_address m
    \<and> ord_size x \<le> ord_size m \<and> (0 < ord_size m \<longrightarrow> 0 < ord_size x)"
    by (induction ms r rule: spec_rest.induct) (auto split: if_splits dest: le)
  with that show ?thesis by blast
qed

lemma side_orders_spec_side:
  "side_orders (spec_side valid ls r) = spec_rest (crossing valid ls) r @ beyond valid ls"
proof (induction valid ls r rule: spec_side.induct)
  case (1 valid r)
  then show ?case by simp
next
  case (2 valid p l ls r)
  show ?case
  proof (cases "r = 0 \<or> \<not> valid p \<or> spec_rest l r \<noteq> []")
    case True
    then show ?thesis
      using crossing_beyond [of valid ls] by (auto simp: Let_def spec_rest_append)
  next
    case False
    with 2 show ?thesis by (simp add: Let_def spec_rest_append)
  qed
qed

lemma spec_side_cases:
  "(p, l) \<in> set (spec_side valid ls r) \<Longrightarrow> (p, l) \<in> set ls \<or>
     (\<exists>l0 r0. (p, l0) \<in> set ls \<and> l = spec_rest l0 r0)"
  by (induction valid ls r rule: spec_side.induct) (auto simp: Let_def split: if_splits)

lemma spec_side_keys: "fst ` set (spec_side valid ls r) \<subseteq> fst ` set ls"
  by (force dest: spec_side_cases)

text \<open>With an amount left over no level that passes the price test is left.\<close>

lemma spec_side_left_over:
  "total_size (crossing valid ls) < r \<Longrightarrow> spec_side valid ls r = dropWhile (valid \<circ> fst) ls"
  by (induction valid ls r rule: spec_side.induct) (auto simp: Let_def spec_rest_Nil)

lemma spec_side_suffix_shape:
  "sorted_wrt R (map fst ls) \<Longrightarrow> sorted_wrt R (map fst (spec_side valid ls r))"
  by (induction valid ls r rule: spec_side.induct) (auto simp: Let_def)

section \<open>The loops implement the specification\<close>

lemma fill_loop_spec:
  "0 < rem \<Longrightarrow> fill_loop t b a ms rem o2l = (ms', n, r, fs, o2l') \<Longrightarrow>
     drop n ms' = spec_rest ms (unat rem)
     \<and> fs = map (\<lambda>(m, k). maker_fill t b a m (of_nat k)) (spec_match ms (unat rem))
     \<and> r = of_nat (unat rem - total_size ms)
     \<and> o2l' = o2l |` (- set (spec_filled ms (unat rem)))"
proof (induction t b a ms rem o2l arbitrary: ms' n r fs o2l' rule: fill_loop.induct)
  case (1 t b a rem o2l)
  then show ?case by simp
next
  case (2 t b a m ms rem o2l)
  have pos: "0 < unat rem" using "2.prems"(1) by (simp add: word_gt_0 unat_gt_0)
  show ?case
  proof (cases "ord_size m \<le> rem")
    case le: True
    then have nat: "unat (ord_size m) \<le> unat rem" "unat (rem - ord_size m) = unat rem - unat (ord_size m)"
      by (simp_all add: word_le_nat_alt unat_sub)
    show ?thesis
    proof (cases "rem - ord_size m = 0")
      case True
      then have "unat rem - unat (ord_size m) = 0" using nat by simp
      then have "unat (ord_size m) = unat rem" using nat(1) by simp
      then have "unat (ord_size m) = unat rem" "ord_size m = rem" by (simp_all add: word_unat_eq_iff)
      with 2 le True pos show ?thesis by (auto simp: Let_def restrict_Compl_single)
    next
      case False
      obtain ms1 n1 r1 fs1 o1 where rec: "fill_loop t b a ms (rem - ord_size m) (o2l(ord_oid m := None))
          = (ms1, n1, r1, fs1, o1)" by (metis prod_cases5)
      from False have "0 < rem - ord_size m" by (simp add: word_gt_0)
      from "2.IH" [OF le refl refl refl False this rec] "2.prems" le False rec nat pos show ?thesis
        by (clarsimp simp: Let_def restrict_Compl_insert restrict_Compl_insert')
    qed
  next
    case False
    then have "unat rem < unat (ord_size m)" by (simp add: word_less_nat_alt not_le)
    with "2.prems" False pos show ?thesis by (auto simp: Let_def)
  qed
qed

lemma fill_at_price_level_spec:
  assumes "0 < rem"
  shows "fill_at_price_level lvl t rem b a o2l =
    (spec_rest lvl (unat rem), of_nat (unat rem - total_size lvl),
     map (\<lambda>(m, k). maker_fill t b a m (of_nat k)) (spec_match lvl (unat rem)),
     o2l |` (- set (spec_filled lvl (unat rem))))"
  using fill_loop_spec [OF assms] by (auto simp: fill_at_price_level_def split: prod.splits)

text \<open>
  What \<open>match_side\<close> needs of a side of the book: an order of its levels (\<open>levels\<close>) in which the
  key that \<open>best\<close> returns comes first, and in which removing or replacing that level acts on the
  head.
\<close>

locale book_side =
  fixes best :: "(u64, order list) btree \<Rightarrow> u64 option"
    and levels :: "(u64, order list) btree \<Rightarrow> (u64 \<times> order list) list"
  assumes best_Nil: "levels m = [] \<Longrightarrow> best m = None"
    and best_Cons: "bt_ok m \<Longrightarrow> levels m = (p, l) # ls \<Longrightarrow> best m = Some p \<and> bt_get m p = Some l"
    and remove_head: "bt_ok m \<Longrightarrow> levels m = (p, l) # ls \<Longrightarrow> levels (bt_remove p m) = ls"
    and replace_head: "bt_ok m \<Longrightarrow> levels m = (p, l) # ls \<Longrightarrow> levels (bt_insert p l' m) = (p, l') # ls"
begin

lemma match_side_stop:
  "match_side best valid ord side o2l 0 cur fills = Some (side, o2l, 0, fills)"
  by (subst match_side.simps) (simp split: option.splits)

theorem match_side_spec:
  assumes "bt_ok side"
  shows "\<exists>side'. match_side best valid ord side o2l rem (best side) fills =
      Some (side', o2l |` (- set (spec_filled (crossing valid (levels side)) (unat rem))),
        of_nat (unat rem - total_size (crossing valid (levels side))),
        fills @ map (\<lambda>(m, k). maker_fill (ord_oid ord) (ord_is_buy ord) (ord_address ord) m (of_nat k))
          (spec_match (crossing valid (levels side)) (unat rem)))
    \<and> bt_ok side' \<and> levels side' = spec_side valid (levels side) (unat rem)"
  using assms
proof (induction "levels side" arbitrary: side o2l rem fills)
  case Nil
  then have e: "levels side = []" by simp
  with Nil(2) best_Nil [OF e] show ?case by (subst match_side.simps) simp
next
  case (Cons x ls)
  obtain p l where "x = (p, l)" by force
  with Cons(2) have lv: "levels side = (p, l) # ls" by simp
  note ok = Cons.prems
  from best_Cons [OF ok lv] have b: "best side = Some p" "bt_get side p = Some l" by simp_all
  show ?case
  proof (cases "rem = 0 \<or> \<not> valid p")
    case True
    then have "unat rem = 0 \<or> \<not> valid p" by auto
    with True show ?thesis by (subst match_side.simps) (auto simp: b lv ok)
  next
    case False
    then have pos: "0 < rem" "0 < unat rem" and v: "valid p"
      by (auto simp: word_gt_0 unat_gt_0)
    let ?l' = "spec_rest l (unat rem)" and ?r' = "of_nat (unat rem - total_size l) :: u64"
    let ?o' = "o2l |` (- set (spec_filled l (unat rem)))"
    let ?f' = "map (\<lambda>(m, k). maker_fill (ord_oid ord) (ord_is_buy ord) (ord_address ord) m (of_nat k))
          (spec_match l (unat rem))"
    have r': "unat ?r' = unat rem - total_size l" by (rule unat_of_nat_diff)
    have unfold: "match_side best valid ord side o2l rem (best side) fills =
        (let side' = if ?l' = [] then bt_remove p side else bt_insert p ?l' side
         in match_side best valid ord side' ?o' ?r' (if 0 < ?r' then best side' else Some p) (fills @ ?f'))"
      by (subst match_side.simps) (simp add: b pos v fill_at_price_level_spec [OF pos(1)] Let_def)
    show ?thesis
    proof (cases "?l' = []")
      case True
      let ?s = "bt_remove p side"
      have lvs: "levels ?s = ls" by (rule remove_head [OF ok lv])
      have oks: "bt_ok ?s" using ok by simp
      have m: "match_side best valid ord side o2l rem (best side) fills =
          match_side best valid ord ?s ?o' ?r' (best ?s) (fills @ ?f')"
      proof (cases "?r' = 0")
        case z: True
        show ?thesis unfolding unfold using True z by (simp add: match_side_stop)
      next
        case False
        then show ?thesis unfolding unfold using True by (simp add: word_gt_0 Let_def)
      qed
      have le: "total_size l \<le> unat rem" by (rule spec_rest_Nil_total [OF True])
      show ?thesis
        using Cons(1) [OF lvs [symmetric] oks, of ?o' ?r' "fills @ ?f'"] True v pos le
        unfolding m lvs r' lv
        by (simp add: spec_match_append spec_filled_append restrict_Compl_Un diff_diff_left)
    next
      case False
      have z: "unat rem - total_size l = 0" using spec_rest_not_Nil [OF False] by simp
      have lvs: "levels (bt_insert p ?l' side) = (p, ?l') # ls" by (rule replace_head [OF ok lv])
      from False v pos ok lvs z spec_rest_not_Nil [OF False] show ?thesis
        unfolding unfold lv
        by (auto simp: match_side_stop spec_match_append spec_filled_append Let_def)
    qed
  qed
qed

end

interpretation asks: book_side bt_first_key "\<lambda>m. m"
proof unfold_locales
  fix m :: "(u64, order list) btree" and p l ls
  assume "bt_ok m" and "m = (p, l) # ls"
  then show "bt_insert p l' m = (p, l') # ls" for l' by simp
qed (auto simp: bt_first_key_def)

interpretation bids: book_side bt_last_key rev
proof unfold_locales
  fix m :: "(u64, order list) btree" and p l ls
  assume ok: "bt_ok m" and m: "rev m = (p, l) # ls"
  then have m: "m = rev ls @ [(p, l)]" by (metis rev.simps(2) rev_rev_ident)
  have "map_of (rev ls @ [(p, l)]) p = Some l"
    using bt_ok_distinct [OF ok] unfolding m by (intro map_of_is_SomeI) auto
  then show "bt_last_key m = Some p \<and> bt_get m p = Some l"
    by (simp add: m bt_last_key_def)
  show "rev (bt_remove p m) = ls"
    using ok bt_remove_present [of "rev ls" p l "[]"] by (simp add: m)
  show "rev (bt_insert p l' m) = (p, l') # ls" for l'
    using ok bt_insert_present [of "rev ls" p l "[]" l'] by (simp add: m)
qed (auto simp: bt_last_key_def)

lemma limit_left_over:
  "0 < (of_nat (unat w - n) :: u64) \<longleftrightarrow> 0 < unat (w :: u64) - n"
  by (subst word_pos_iff) (subst unat_of_nat_diff, rule refl)

lemma limit_eq_spec:
  assumes "bt_ok (ob_bids b)" and "bt_ok (ob_asks b)"
  shows "limit ord b = Some (spec_limit ord b)"
proof (cases "ord_is_buy ord")
  case True
  obtain side' where "match_side bt_first_key (\<lambda>p. ord_limit_price ord \<ge> p) ord (ob_asks b)
      (ob_oid_to_level b) (ord_size ord) (bt_first_key (ob_asks b)) [] =
      Some (side', ob_oid_to_level b |` (- set (spec_filled (crossing_makers ord b) (unat (ord_size ord)))),
        of_nat (unat (ord_size ord) - total_size (crossing_makers ord b)),
        spec_fills ord (crossing_makers ord b))"
    "side' = spec_side (\<lambda>p. ord_limit_price ord \<ge> p) (ob_asks b) (unat (ord_size ord))"
    using asks.match_side_spec [OF assms(2), of "\<lambda>p. ord_limit_price ord \<ge> p" ord
        "ob_oid_to_level b" "ord_size ord" "[]"] True
    by (auto simp: crossing_makers_def spec_fills_def)
  then show ?thesis
    using True by (simp only: limit_def ask_min_def spec_limit_def spec_book_def Let_def
      limit_left_over if_True option.case option.map prod.case)
next
  case False
  obtain side' where "match_side bt_last_key (\<lambda>p. ord_limit_price ord \<le> p) ord (ob_bids b)
      (ob_oid_to_level b) (ord_size ord) (bt_last_key (ob_bids b)) [] =
      Some (side', ob_oid_to_level b |` (- set (spec_filled (crossing_makers ord b) (unat (ord_size ord)))),
        of_nat (unat (ord_size ord) - total_size (crossing_makers ord b)),
        spec_fills ord (crossing_makers ord b))"
    "rev side' = spec_side (\<lambda>p. ord_limit_price ord \<le> p) (rev (ob_bids b)) (unat (ord_size ord))"
    using bids.match_side_spec [OF assms(1), of "\<lambda>p. ord_limit_price ord \<le> p" ord
        "ob_oid_to_level b" "ord_size ord" "[]"] False
    by (auto simp: crossing_makers_def spec_fills_def)
  moreover from this(2) have "side' = rev (spec_side (\<lambda>p. ord_limit_price ord \<le> p) (rev (ob_bids b)) (unat (ord_size ord)))"
    by (metis rev_rev_ident)
  ultimately show ?thesis
    using False by (simp only: limit_def bid_max_def spec_limit_def spec_book_def Let_def
      limit_left_over if_False option.case option.map prod.case)
qed

section \<open>The invariant of the book\<close>

definition level_ok :: "bool \<Rightarrow> u64 \<Rightarrow> order list \<Rightarrow> bool" where
  "level_ok is_buy p l \<longleftrightarrow>
     (\<forall>x \<in> set l. ord_is_buy x = is_buy \<and> ord_limit_price x = p \<and> 0 < ord_size x)"

definition side_ok :: "bool \<Rightarrow> (u64, order list) btree \<Rightarrow> bool" where
  "side_ok is_buy m \<longleftrightarrow> bt_ok m \<and> (\<forall>(p, l) \<in> set m. level_ok is_buy p l)"

text \<open>The resting orders, the bids best first and then the asks best first.\<close>

definition book_orders :: "order_book \<Rightarrow> order list" where
  "book_orders b = side_orders (rev (ob_bids b)) @ side_orders (ob_asks b)"

definition oid_entry :: "order \<Rightarrow> u64 \<times> u64" where
  "oid_entry x = (ord_oid x, ord_limit_price x)"

definition oids_ok :: "order_book \<Rightarrow> bool" where
  "oids_ok b \<longleftrightarrow> distinct (map ord_oid (book_orders b)) \<and>
     Map.graph (ob_oid_to_level b) = oid_entry ` set (book_orders b)"

definition uncrossed :: "order_book \<Rightarrow> bool" where
  "uncrossed b \<longleftrightarrow> (\<forall>p \<in> fst ` set (ob_bids b). \<forall>q \<in> fst ` set (ob_asks b). p < q)"

definition book_ok :: "order_book \<Rightarrow> bool" where
  "book_ok b \<longleftrightarrow> side_ok True (ob_bids b) \<and> side_ok False (ob_asks b) \<and> oids_ok b \<and> uncrossed b"

lemma side_ok_bt: "side_ok d m \<Longrightarrow> bt_ok m"
  by (simp add: side_ok_def)

lemma book_ok_bt: "book_ok b \<Longrightarrow> bt_ok (ob_bids b)" "book_ok b \<Longrightarrow> bt_ok (ob_asks b)"
  by (simp_all add: book_ok_def side_ok_def)

lemma book_ok_default: "book_ok default_book"
  by (simp add: book_ok_def default_book_def side_ok_def oids_ok_def uncrossed_def book_orders_def)

lemma oid_lookup:
  assumes "oids_ok b"
  shows "ob_oid_to_level b i = Some p \<longleftrightarrow>
    (\<exists>x \<in> set (book_orders b). ord_oid x = i \<and> ord_limit_price x = p)"
proof -
  have "ob_oid_to_level b i = Some p \<longleftrightarrow> (i, p) \<in> Map.graph (ob_oid_to_level b)"
    by (auto simp: in_graphD intro: in_graphI)
  then show ?thesis using assms by (auto simp: oids_ok_def oid_entry_def)
qed

lemma oid_lookup_None:
  "oids_ok b \<Longrightarrow> ob_oid_to_level b i = None \<longleftrightarrow> i \<notin> ord_oid ` set (book_orders b)"
  using oid_lookup [of b i] by (metis (no_types, lifting) image_iff not_Some_eq)

lemma graph_restrict_Compl: "Map.graph (m |` (- A)) = {e \<in> Map.graph m. fst e \<notin> A}"
  by (auto simp: Map.graph_def restrict_map_def split: if_splits)

lemma fst_oid_entry [simp]: "fst (oid_entry x) = ord_oid x"
  by (simp add: oid_entry_def)

lemma fst_comp_oid_entry [simp]: "fst \<circ> oid_entry = ord_oid"
  by (simp add: fun_eq_iff)

text \<open>The id invariant when orders leave the book, and when one enters.\<close>

lemma Collect_Un_only:
  "G = A \<union> B \<Longrightarrow> \<forall>e \<in> A. \<not> P e \<Longrightarrow> \<forall>e \<in> B. P e \<Longrightarrow> {e \<in> G. P e} = B"
  by blast

lemma oids_ok_leave:
  assumes ok: "oids_ok b"
    and ms: "mset (map oid_entry (book_orders b)) =
      mset (map oid_entry gone) + mset (map oid_entry (book_orders b'))"
    and o2l: "ob_oid_to_level b' = ob_oid_to_level b |` (- ord_oid ` set gone)"
  shows "oids_ok b'"
proof -
  let ?es = "map oid_entry gone @ map oid_entry (book_orders b')"
  have "mset (map oid_entry (book_orders b)) = mset ?es" using ms by simp
  then have m: "mset (map fst (map oid_entry (book_orders b))) = mset (map fst ?es)"
    and set: "oid_entry ` set (book_orders b) = oid_entry ` set gone \<union> oid_entry ` set (book_orders b')"
    by (simp_all only: mset_map) (metis mset_eq_setD set_append set_map mset_map)
  from m have "mset (map ord_oid (book_orders b)) = mset (map ord_oid gone @ map ord_oid (book_orders b'))"
    by (simp only: map_map map_append fst_comp_oid_entry)
  with ok have d: "distinct (map ord_oid gone @ map ord_oid (book_orders b'))"
    unfolding oids_ok_def by (metis mset_eq_imp_distinct_iff)
  have "Map.graph (ob_oid_to_level b') = oid_entry ` set (book_orders b')"
  proof -
    have dis: "ord_oid ` set gone \<inter> ord_oid ` set (book_orders b') = {}" using d by simp
    have "fst e \<notin> ord_oid ` set gone" if "e \<in> oid_entry ` set (book_orders b')" for e
    proof -
      from that have "fst e \<in> ord_oid ` set (book_orders b')" by auto
      with dis show ?thesis by blast
    qed
    moreover have "fst e \<in> ord_oid ` set gone" if "e \<in> oid_entry ` set gone" for e
      using that by auto
    moreover have "Map.graph (ob_oid_to_level b) = oid_entry ` set gone \<union> oid_entry ` set (book_orders b')"
      using ok set by (simp add: oids_ok_def)
    ultimately show ?thesis unfolding o2l graph_restrict_Compl by (intro Collect_Un_only) auto
  qed
  with d show ?thesis by (simp add: oids_ok_def)
qed

lemma oids_ok_enter:
  assumes ok: "oids_ok b" and fresh: "ord_oid x \<notin> ord_oid ` set (book_orders b)"
    and ms: "mset (book_orders b') = add_mset x (mset (book_orders b))"
    and o2l: "ob_oid_to_level b' = (ob_oid_to_level b)(ord_oid x \<mapsto> ord_limit_price x)"
  shows "oids_ok b'"
proof -
  have set: "set (book_orders b') = insert x (set (book_orders b))"
    using ms by (metis set_mset_add_mset_insert set_mset_mset)
  have "mset (map ord_oid (book_orders b')) = mset (map ord_oid (x # book_orders b))"
    using ms by simp
  then have "distinct (map ord_oid (book_orders b'))"
    using ok fresh by (metis distinct.simps(2) list.simps(9) mset_eq_imp_distinct_iff oids_ok_def set_map)
  moreover have "(ob_oid_to_level b)(ord_oid x := None) = ob_oid_to_level b"
    using oid_lookup_None [OF ok, of "ord_oid x"] fresh by (simp add: fun_upd_idem_iff)
  then have "Map.graph (ob_oid_to_level b') = oid_entry ` set (book_orders b')"
    using ok set by (simp add: o2l oids_ok_def oid_entry_def)
  ultimately show ?thesis by (simp add: oids_ok_def)
qed

definition level_at :: "(u64, order list) btree \<Rightarrow> u64 \<Rightarrow> order list" where
  "level_at m p = (case bt_get m p of None \<Rightarrow> [] | Some l \<Rightarrow> l)"

lemma mset_side_orders_insert:
  "bt_ok m \<Longrightarrow> mset (side_orders (bt_insert p l m)) + mset (level_at m p) = mset (side_orders m) + mset l"
proof (induction p l m rule: bt_insert.induct)
  case (1 k v)
  then show ?case by (simp add: level_at_def)
next
  case (2 k v a b m)
  consider "k < a" | "k = a" | "a < k" by fastforce
  then show ?case
  proof cases
    case 1
    then have "map_of ((a, b) # m) k = None"
      using "2.prems" by (auto simp: map_of_eq_None_iff dest: order.strict_trans)
    with 1 show ?thesis by (auto simp: level_at_def)
  qed (use 2 in \<open>auto simp: level_at_def\<close>)
qed

lemma set_bt_insert_cases: "e \<in> set (bt_insert k v m) \<Longrightarrow> e = (k, v) \<or> e \<in> set m"
  by (induction k v m rule: bt_insert.induct) (auto split: if_splits)

lemma level_at_mem: "x \<in> set (level_at m p) \<Longrightarrow> \<exists>l. (p, l) \<in> set m \<and> x \<in> set l"
  by (cases "bt_get m p") (auto simp: level_at_def dest: map_of_SomeD)

lemma side_okD: "side_ok d m \<Longrightarrow> (p, l) \<in> set m \<Longrightarrow> level_ok d p l"
  by (auto simp: side_ok_def)

lemma side_ok_insert: "side_ok d m \<Longrightarrow> level_ok d p l \<Longrightarrow> side_ok d (bt_insert p l m)"
  by (auto simp: side_ok_def dest!: set_bt_insert_cases)

lemma level_ok_at: "side_ok d m \<Longrightarrow> level_ok d p (level_at m p)"
  by (cases "bt_get m p") (auto simp: level_at_def level_ok_def dest: side_okD dest!: map_of_SomeD)

lemma side_ok_orders:
  "side_ok d m \<Longrightarrow> x \<in> set (side_orders m) \<Longrightarrow> ord_is_buy x = d \<and> 0 < ord_size x"
  by (auto simp: side_ok_def level_ok_def set_side_orders)

lemma side_ok_at:
  assumes "side_ok d m" and "x \<in> set (side_orders m)"
  shows "x \<in> set (level_at m (ord_limit_price x))"
proof -
  obtain p l where pl: "(p, l) \<in> set m" "x \<in> set l" using assms(2) by (auto simp: set_side_orders)
  have "ord_limit_price x = p" using side_okD [OF assms(1) pl(1)] pl(2) by (simp add: level_ok_def)
  moreover have "bt_get m p = Some l"
    using pl(1) bt_ok_distinct [OF side_ok_bt [OF assms(1)]] by simp
  ultimately show ?thesis using pl(2) by (simp add: level_at_def)
qed

section \<open>The operations keep the invariant\<close>

lemma level_ok_rest: "level_ok d p l \<Longrightarrow> level_ok d p (spec_rest l r)"
  by (auto simp: level_ok_def elim!: spec_rest_mem)

lemma bt_ok_sub: "sorted_wrt (<) (map fst m) = bt_ok m" "sorted_wrt (>) (map fst (rev m)) = bt_ok m"
  by (simp_all add: bt_ok_def sorted_wrt_rev flip: rev_map)

lemma bt_ok_spec_side:
  "bt_ok m \<Longrightarrow> bt_ok (spec_side valid m r)" "bt_ok m \<Longrightarrow> bt_ok (rev (spec_side valid (rev m) r))"
  using spec_side_suffix_shape [of "(<)" m valid r] spec_side_suffix_shape [of "(>)" "rev m" valid r]
  by (simp_all add: bt_ok_def sorted_wrt_rev flip: rev_map)

lemma levels_ok_spec_side:
  assumes "\<forall>(p, l) \<in> set ls. level_ok d p l" and "(p, l) \<in> set (spec_side valid ls r)"
  shows "level_ok d p l"
  using spec_side_cases [OF assms(2)] assms(1) by (auto intro: level_ok_rest)

lemma side_ok_spec_side:
  "side_ok d m \<Longrightarrow> side_ok d (spec_side valid m r)"
  "side_ok d m \<Longrightarrow> side_ok d (rev (spec_side valid (rev m) r))"
  using levels_ok_spec_side [of m d _ _ valid r] levels_ok_spec_side [of "rev m" d _ _ valid r]
  by (auto simp: side_ok_def bt_ok_spec_side)

text \<open>The makers that are used up, and what remains of the others.\<close>

lemma spec_split:
  "\<exists>gone. spec_filled ms r = map ord_oid gone \<and>
     map oid_entry ms = map oid_entry gone @ map oid_entry (spec_rest ms r)"
proof (induction ms r rule: spec_rest.induct)
  case (2 m ms r)
  show ?case
  proof (cases "r = 0 \<or> r < unat (ord_size m)")
    case True
    then show ?thesis by (intro exI [of _ "[]"]) (auto simp: oid_entry_def)
  next
    case False
    with 2 obtain gone where "spec_filled ms (r - unat (ord_size m)) = map ord_oid gone"
      "map oid_entry ms = map oid_entry gone @ map oid_entry (spec_rest ms (r - unat (ord_size m)))"
      by auto
    with False show ?thesis by (intro exI [of _ "m # gone"]) simp
  qed
qed simp

lemma book_orders_spec_book:
  "\<exists>xs ys. book_orders b = xs @ crossing_makers ord b @ ys \<and>
     book_orders (spec_book ord b) =
       xs @ spec_rest (crossing_makers ord b) (unat (ord_size ord)) @ ys"
proof (cases "ord_is_buy ord")
  case True
  let ?v = "\<lambda>p. ord_limit_price ord \<ge> p"
  note cb = crossing_beyond [of ?v "ob_asks b"]
  show ?thesis
    by (rule exI [of _ "side_orders (rev (ob_bids b))"], rule exI [of _ "beyond ?v (ob_asks b)"])
      (use True cb in \<open>simp add: book_orders_def spec_book_def crossing_makers_def side_orders_spec_side Let_def\<close>)
next
  case False
  let ?v = "\<lambda>p. ord_limit_price ord \<le> p"
  note cb = crossing_beyond [of ?v "rev (ob_bids b)"]
  show ?thesis
    by (rule exI [of _ "[]"], rule exI [of _ "beyond ?v (rev (ob_bids b)) @ side_orders (ob_asks b)"])
      (use False cb in \<open>simp add: book_orders_def spec_book_def crossing_makers_def side_orders_spec_side Let_def\<close>)
qed

lemma oids_ok_spec_book:
  assumes "oids_ok b"
  shows "oids_ok (spec_book ord b)"
proof -
  let ?ms = "crossing_makers ord b" and ?r = "unat (ord_size ord)"
  obtain gone where g: "spec_filled ?ms ?r = map ord_oid gone"
    "map oid_entry ?ms = map oid_entry gone @ map oid_entry (spec_rest ?ms ?r)"
    using spec_split by blast
  obtain xs ys where "book_orders b = xs @ ?ms @ ys"
    "book_orders (spec_book ord b) = xs @ spec_rest ?ms ?r @ ys"
    using book_orders_spec_book by blast
  then have "mset (map oid_entry (book_orders b)) =
      mset (map oid_entry gone) + mset (map oid_entry (book_orders (spec_book ord b)))"
    by (simp add: g(2))
  moreover have "ob_oid_to_level (spec_book ord b) = ob_oid_to_level b |` (- ord_oid ` set gone)"
    by (simp add: spec_book_def g(1) Let_def)
  ultimately show ?thesis by (rule oids_ok_leave [OF assms])
qed

lemma uncrossed_mono:
  "uncrossed b \<Longrightarrow> fst ` set (ob_bids b') \<subseteq> fst ` set (ob_bids b) \<Longrightarrow>
     fst ` set (ob_asks b') \<subseteq> fst ` set (ob_asks b) \<Longrightarrow> uncrossed b'"
  unfolding uncrossed_def by blast

lemma uncrossed_spec_book: "uncrossed b \<Longrightarrow> uncrossed (spec_book ord b)"
  by (erule uncrossed_mono)
    (use spec_side_keys [of _ "rev (ob_bids b)"] in \<open>simp_all add: spec_book_def Let_def spec_side_keys\<close>)

lemma book_ok_spec_book: "book_ok b \<Longrightarrow> book_ok (spec_book ord b)"
proof -
  assume ok: "book_ok b"
  then have "side_ok True (ob_bids (spec_book ord b))" "side_ok False (ob_asks (spec_book ord b))"
    by (simp_all add: spec_book_def book_ok_def side_ok_spec_side Let_def)
  with ok show ?thesis by (simp add: book_ok_def oids_ok_spec_book uncrossed_spec_book)
qed

text \<open>An amount that is left over has passed every level that the price test accepts.\<close>

lemma dropWhile_sorted:
  assumes "sorted_wrt R (map fst ls)" and "\<And>p q. R p q \<Longrightarrow> valid q \<Longrightarrow> valid p"
    and "(q, l) \<in> set (dropWhile (valid \<circ> fst) ls)"
  shows "\<not> valid q"
proof
  assume "valid q"
  from assms(1,3) show False
  proof (induction ls)
    case (Cons x ls)
    show ?case
    proof (cases "valid (fst x)")
      case True
      with Cons show ?thesis by simp
    next
      case False
      with Cons.prems have "(q, l) \<in> set (x # ls)" by simp
      with Cons.prems(1) False \<open>valid q\<close> have "R (fst x) q" by auto
      from assms(2) [OF this \<open>valid q\<close>] False show ?thesis by simp
    qed
  qed simp
qed

lemma left_over_passed:
  assumes ok: "bt_ok (ob_bids b)" "bt_ok (ob_asks b)"
    and left: "total_size (crossing_makers ord b) < unat (ord_size ord)"
  shows "ord_is_buy ord \<Longrightarrow> q \<in> fst ` set (ob_asks (spec_book ord b)) \<Longrightarrow> ord_limit_price ord < q"
    and "\<not> ord_is_buy ord \<Longrightarrow> q \<in> fst ` set (ob_bids (spec_book ord b)) \<Longrightarrow> q < ord_limit_price ord"
proof -
  assume buy: "ord_is_buy ord" and q: "q \<in> fst ` set (ob_asks (spec_book ord b))"
  let ?v = "\<lambda>p. ord_limit_price ord \<ge> p"
  from left buy have "spec_side ?v (ob_asks b) (unat (ord_size ord)) = dropWhile (?v \<circ> fst) (ob_asks b)"
    by (intro spec_side_left_over) (simp add: crossing_makers_def)
  with q buy obtain l where "(q, l) \<in> set (dropWhile (?v \<circ> fst) (ob_asks b))"
    by (auto simp: spec_book_def Let_def)
  then have "\<not> ?v q"
    using ok(2) by (intro dropWhile_sorted [where R = "(<)"]) (auto simp: bt_ok_def)
  then show "ord_limit_price ord < q" by simp
next
  assume sell: "\<not> ord_is_buy ord" and q: "q \<in> fst ` set (ob_bids (spec_book ord b))"
  let ?v = "\<lambda>p. ord_limit_price ord \<le> p"
  from left sell have "spec_side ?v (rev (ob_bids b)) (unat (ord_size ord)) = dropWhile (?v \<circ> fst) (rev (ob_bids b))"
    by (intro spec_side_left_over) (simp add: crossing_makers_def)
  with q sell obtain l where "(q, l) \<in> set (dropWhile (?v \<circ> fst) (rev (ob_bids b)))"
    by (auto simp: spec_book_def Let_def)
  then have "\<not> ?v q"
    using ok(1) bt_ok_sub(2) by (intro dropWhile_sorted [where R = "(>)"]) auto
  then show "q < ord_limit_price ord" by simp
qed

lemma enqueue_order_alt:
  "enqueue_order ord b =
     (if ord_is_buy ord
      then b\<lparr>ob_oid_to_level := (ob_oid_to_level b)(ord_oid ord \<mapsto> ord_limit_price ord),
             ob_bids := bt_insert (ord_limit_price ord)
               (level_at (ob_bids b) (ord_limit_price ord) @ [ord]) (ob_bids b)\<rparr>
      else b\<lparr>ob_oid_to_level := (ob_oid_to_level b)(ord_oid ord \<mapsto> ord_limit_price ord),
             ob_asks := bt_insert (ord_limit_price ord)
               (level_at (ob_asks b) (ord_limit_price ord) @ [ord]) (ob_asks b)\<rparr>)"
  by (simp add: enqueue_order_def level_at_def Let_def)

lemma mset_enqueue:
  assumes "bt_ok (ob_bids b)" and "bt_ok (ob_asks b)"
  shows "mset (book_orders (enqueue_order ord b)) = add_mset ord (mset (book_orders b))"
proof -
  have "mset (side_orders (bt_insert p (level_at m p @ [ord]) m)) = add_mset ord (mset (side_orders m))"
    if "bt_ok m" for m p
    using mset_side_orders_insert [OF that, of p "level_at m p @ [ord]"] by simp
  with assms show ?thesis by (simp add: enqueue_order_alt book_orders_def mset_side_orders_rev)
qed

lemma book_ok_enqueue:
  assumes ok: "book_ok b" and fresh: "ord_oid ord \<notin> ord_oid ` set (book_orders b)"
    and pos: "0 < ord_size ord"
    and beyond: "\<And>q. ord_is_buy ord \<Longrightarrow> q \<in> fst ` set (ob_asks b) \<Longrightarrow> ord_limit_price ord < q"
      "\<And>q. \<not> ord_is_buy ord \<Longrightarrow> q \<in> fst ` set (ob_bids b) \<Longrightarrow> q < ord_limit_price ord"
  shows "book_ok (enqueue_order ord b)"
proof -
  note bt = book_ok_bt [OF ok]
  have "oids_ok (enqueue_order ord b)"
  proof (rule oids_ok_enter [of b ord])
    show "oids_ok b" using ok by (simp add: book_ok_def)
    show "ob_oid_to_level (enqueue_order ord b) = (ob_oid_to_level b)(ord_oid ord \<mapsto> ord_limit_price ord)"
      by (simp add: enqueue_order_alt)
  qed (use fresh mset_enqueue [OF bt] in simp_all)
  moreover have "uncrossed (enqueue_order ord b)"
  proof -
    have "fst ` set (ob_bids (enqueue_order ord b)) =
        (if ord_is_buy ord then insert (ord_limit_price ord) (fst ` set (ob_bids b)) else fst ` set (ob_bids b))"
      "fst ` set (ob_asks (enqueue_order ord b)) =
        (if ord_is_buy ord then fst ` set (ob_asks b) else insert (ord_limit_price ord) (fst ` set (ob_asks b)))"
      by (simp_all add: enqueue_order_alt)
    with ok beyond show ?thesis unfolding book_ok_def uncrossed_def by (cases "ord_is_buy ord") simp_all
  qed
  moreover have "level_ok d p (level_at m p @ [ord])"
    if "side_ok d m" "ord_is_buy ord = d" "ord_limit_price ord = p" for d m p
    using level_ok_at [OF that(1)] that pos by (auto simp: level_ok_def)
  then have "side_ok True (ob_bids (enqueue_order ord b))" "side_ok False (ob_asks (enqueue_order ord b))"
    using ok by (auto simp: book_ok_def enqueue_order_alt intro!: side_ok_insert)
  ultimately show ?thesis by (simp add: book_ok_def)
qed

lemma crossing_mem: "m \<in> set (crossing valid ls) \<Longrightarrow> \<exists>p l. (p, l) \<in> set ls \<and> valid p \<and> m \<in> set l"
proof (induction ls)
  case (Cons e ls)
  then show ?case by (cases e) (simp split: if_splits, blast)
qed simp

lemma set_book_orders:
  "set (book_orders b) = set (side_orders (ob_bids b)) \<union> set (side_orders (ob_asks b))"
  by (simp add: book_orders_def set_side_orders)

lemma crossing_makers_mem:
  assumes ok: "book_ok b" and m: "m \<in> set (crossing_makers ord b)"
  shows "m \<in> set (book_orders b)" and "ord_is_buy m \<longleftrightarrow> \<not> ord_is_buy ord" and "0 < ord_size m"
    and "if ord_is_buy ord then ord_limit_price m \<le> ord_limit_price ord
         else ord_limit_price ord \<le> ord_limit_price m"
proof -
  show mem: "m \<in> set (book_orders b)"
    using m book_orders_spec_book [of b ord] by auto
  let ?ls = "if ord_is_buy ord then ob_asks b else rev (ob_bids b)"
  let ?v = "\<lambda>p. if ord_is_buy ord then p \<le> ord_limit_price ord else ord_limit_price ord \<le> p"
  from m have "m \<in> set (crossing ?v ?ls)" by (auto simp: crossing_makers_def split: if_splits)
  then obtain p l where pl: "(p, l) \<in> set ?ls" "?v p" "m \<in> set l"
    using crossing_mem by blast
  have "level_ok (\<not> ord_is_buy ord) p l"
    using ok pl(1) side_okD by (cases "ord_is_buy ord") (auto simp: book_ok_def)
  with pl show "ord_is_buy m \<longleftrightarrow> \<not> ord_is_buy ord" "0 < ord_size m"
    "if ord_is_buy ord then ord_limit_price m \<le> ord_limit_price ord
     else ord_limit_price ord \<le> ord_limit_price m"
    by (simp_all add: level_ok_def)
qed

lemma set_mset_level: "mset l = add_mset x (mset l') \<Longrightarrow> set l = insert x (set l')"
  by (metis set_mset_add_mset_insert set_mset_mset)

lemma oids_spec_book: "ord_oid ` set (book_orders (spec_book ord b)) \<subseteq> ord_oid ` set (book_orders b)"
proof -
  obtain xs ys where "book_orders b = xs @ crossing_makers ord b @ ys"
    "book_orders (spec_book ord b) = xs @ spec_rest (crossing_makers ord b) (unat (ord_size ord)) @ ys"
    using book_orders_spec_book by blast
  moreover have "ord_oid ` set (spec_rest ms r) \<subseteq> ord_oid ` set ms" for ms r
    using spec_filled_rest_oids [of ms r] by (metis set_append set_map sup_ge2)
  ultimately show ?thesis by (simp add: image_Un) blast
qed

lemma oids_spec_limit:
  assumes "book_ok b"
  shows "ord_oid ` set (book_orders (snd (snd (spec_limit ord b)))) \<subseteq>
    insert (ord_oid ord) (ord_oid ` set (book_orders b))"
proof -
  have "mset (book_orders (enqueue_order ord (spec_book ord b))) =
      add_mset ord (mset (book_orders (spec_book ord b)))"
    by (rule mset_enqueue) (rule book_ok_bt [OF book_ok_spec_book [OF assms]])+
  from set_mset_level [OF this] show ?thesis
    using oids_spec_book [of ord b] by (auto simp: spec_limit_def Let_def)
qed

lemma book_ok_limit:
  assumes ok: "book_ok b" and fresh: "ord_oid ord \<notin> ord_oid ` set (book_orders b)"
  shows "book_ok (snd (snd (spec_limit ord b)))"
proof (cases "total_size (crossing_makers ord b) < unat (ord_size ord)")
  case True
  have "0 < ord_size ord" using True by (simp add: word_pos_iff)
  then have "book_ok (enqueue_order ord (spec_book ord b))"
    using oids_spec_book fresh left_over_passed [OF book_ok_bt [OF ok] True] book_ok_spec_book [OF ok]
    by (intro book_ok_enqueue) (blast | assumption)+
  with True show ?thesis by (simp add: spec_limit_def Let_def)
next
  case False
  then show ?thesis using book_ok_spec_book [OF ok] by (simp add: spec_limit_def Let_def)
qed

lemma remove_from_level_found:
  assumes "x \<in> set l" and "inj_on ord_oid (set l)"
  obtains l' where "remove_from_level (ord_oid x) l = (Some x, l')" "mset l = add_mset x (mset l')"
proof -
  obtain i where i: "position (\<lambda>y. ord_oid y = ord_oid x) l = Some i"
    using assms(1) by (metis (mono_tags, lifting) not_Some_eq position_None_iff)
  from position_SomeD [OF this] have lt: "i < length l" and "ord_oid (l ! i) = ord_oid x" by simp_all
  with assms have "l ! i = x" by (auto dest: inj_onD)
  with i lt mset_remove_nth [OF lt] show ?thesis
    by (intro that [of "remove_nth i l"]) (simp_all add: remove_from_level_def)
qed

lemma cancel_absent:
  "book_ok b \<Longrightarrow> oid \<notin> ord_oid ` set (book_orders b) \<Longrightarrow> cancel oid b = (None, b)"
  using oid_lookup_None [of b oid] by (simp add: cancel_def book_ok_def)

lemma cancel_present:
  assumes ok: "book_ok b" and x: "x \<in> set (book_orders b)"
  shows "\<exists>b'. cancel (ord_oid x) b = (Some x, b') \<and> book_ok b' \<and>
    mset (book_orders b) = add_mset x (mset (book_orders b'))"
proof -
  let ?p = "ord_limit_price x" and ?side = "if ord_is_buy x then ob_bids b else ob_asks b"
  let ?upd = "\<lambda>l'. if ord_is_buy x
    then b\<lparr>ob_oid_to_level := (ob_oid_to_level b)(ord_oid x := None), ob_bids := bt_insert ?p l' (ob_bids b)\<rparr>
    else b\<lparr>ob_oid_to_level := (ob_oid_to_level b)(ord_oid x := None), ob_asks := bt_insert ?p l' (ob_asks b)\<rparr>"
  have side: "side_ok (ord_is_buy x) ?side" and "x \<in> set (side_orders ?side)"
    using x ok side_ok_orders [of True "ob_bids b" x] side_ok_orders [of False "ob_asks b" x]
    by (auto simp: book_ok_def set_book_orders)
  then have at: "x \<in> set (level_at ?side ?p)" by (rule side_ok_at)
  then obtain lvl where lvl: "bt_get ?side ?p = Some lvl" "x \<in> set lvl" "level_at ?side ?p = lvl"
    by (cases "bt_get ?side ?p") (simp_all add: level_at_def)
  have "set lvl \<subseteq> set (book_orders b)"
    using map_of_SomeD [OF lvl(1)] by (auto simp: book_orders_def set_side_orders split: if_splits)
  moreover have "inj_on ord_oid (set (book_orders b))"
    using ok by (simp add: book_ok_def oids_ok_def distinct_map)
  ultimately have "inj_on ord_oid (set lvl)" by (rule inj_on_subset [rotated])
  with lvl(2) obtain l' where l': "remove_from_level (ord_oid x) lvl = (Some x, l')"
    "mset lvl = add_mset x (mset l')" by (rule remove_from_level_found)
  have o2l: "ob_oid_to_level b (ord_oid x) = Some ?p"
    using ok x oid_lookup by (auto simp: book_ok_def)
  have "bt_get (ob_bids b) ?p = None" if "\<not> ord_is_buy x"
    using that ok lvl(1) unfolding book_ok_def uncrossed_def
    by (auto simp: map_of_eq_None_iff dest!: map_of_SomeD) force
  then have c: "cancel (ord_oid x) b = (Some x, ?upd l')"
    using o2l lvl(1) l'(1) by (cases "ord_is_buy x") (auto simp: cancel_def Let_def)
  have "mset (side_orders (bt_insert ?p l' ?side)) + add_mset x (mset l') = mset (side_orders ?side) + mset l'"
    using mset_side_orders_insert [OF side_ok_bt [OF side], of ?p l'] unfolding lvl(3) l'(2) .
  then have "mset (side_orders ?side) = add_mset x (mset (side_orders (bt_insert ?p l' ?side)))" by simp
  then have m: "mset (book_orders b) = add_mset x (mset (book_orders (?upd l')))"
    by (cases "ord_is_buy x") (simp_all add: book_orders_def mset_side_orders_rev)
  have "oids_ok (?upd l')"
  proof (rule oids_ok_leave [of b "[x]"])
    show "oids_ok b" using ok by (simp add: book_ok_def)
    show "ob_oid_to_level (?upd l') = ob_oid_to_level b |` (- ord_oid ` set [x])"
      by (simp add: restrict_Compl_single)
  qed (simp add: m del: if_split)
  moreover have "level_ok (ord_is_buy x) ?p l'"
    using level_ok_at [OF side, of ?p] set_mset_level [OF l'(2)] lvl(3) by (simp add: level_ok_def)
  then have "side_ok True (ob_bids (?upd l'))" "side_ok False (ob_asks (?upd l'))"
    using ok by (auto simp: book_ok_def intro!: side_ok_insert)
  moreover have key: "?p \<in> fst ` set ?side" using lvl(1) map_of_SomeD by force
  have "uncrossed (?upd l')"
  proof (rule uncrossed_mono [of b])
    show "uncrossed b" using ok by (simp add: book_ok_def)
  qed (use key in \<open>cases "ord_is_buy x"; simp add: insert_absorb\<close>)+
  ultimately show ?thesis using c m by (auto simp: book_ok_def)
qed

section \<open>Properties\<close>

lemma sum_fill_sizes:
  "(\<Sum>f \<leftarrow> spec_fills ord ms. unat (fl_size f)) = min (unat (ord_size ord)) (total_size ms)"
proof -
  have "unat (of_nat k :: u64) = k" if "(m, k) \<in> set (spec_match ms (unat (ord_size ord)))" for m k
    using spec_match_mem [OF that] unat_of_nat_le by blast
  then have "(\<Sum>f \<leftarrow> spec_fills ord ms. unat (fl_size f)) =
      (\<Sum>(m, k) \<leftarrow> spec_match ms (unat (ord_size ord)). k)"
    unfolding spec_fills_def map_map
    by (intro arg_cong [of _ _ sum_list] map_cong) (auto simp: maker_fill_def Let_def)
  then show ?thesis by (simp add: sum_spec_match)
qed

lemma spec_fills_cases:
  assumes "f \<in> set (spec_fills ord ms)"
  obtains m k where "m \<in> set ms" "k \<le> unat (ord_size m)" "(m, k) \<in> set (spec_match ms (unat (ord_size ord)))"
    "f = maker_fill (ord_oid ord) (ord_is_buy ord) (ord_address ord) m (of_nat k)"
  using assms spec_match_mem by (force simp: spec_fills_def)

lemma maker_fill_sel [simp]:
  "fl_maker_oid (maker_fill t b a m k) = ord_oid m" "fl_taker_oid (maker_fill t b a m k) = t"
  "fl_size (maker_fill t b a m k) = k" "fl_price (maker_fill t b a m k) = ord_limit_price m"
  "fl_buyer (maker_fill t b a m k) = (if b then a else ord_address m)"
  "fl_seller (maker_fill t b a m k) = (if b then ord_address m else a)"
  by (simp_all add: maker_fill_def default_fill_def order_fill_new_def Let_def)

text \<open>The makers that cross come best price first.\<close>

lemma side_orders_sorted:
  assumes "sorted_wrt R (map fst ls)" and "\<forall>(p, l) \<in> set ls. level_ok d p l"
    and "\<And>p. Q p p" and "\<And>p q. R p q \<Longrightarrow> Q p q"
  shows "sorted_wrt Q (map ord_limit_price (side_orders ls))"
  using assms(1,2)
proof (induction ls)
  case (Cons e ls)
  obtain p l where e: "e = (p, l)" by (cases e)
  have l: "\<forall>x \<in> set l. ord_limit_price x = p" using Cons.prems by (auto simp: e level_ok_def)
  have "sorted_wrt Q (map ord_limit_price l)"
    using l by (induction l) (auto simp: assms(3))
  moreover have "Q p (ord_limit_price y)" if "y \<in> set (side_orders ls)" for y
    using that Cons.prems assms(4) by (force simp: e set_side_orders level_ok_def)
  ultimately show ?case using Cons l by (auto simp: e sorted_wrt_append)
qed simp

lemma crossing_makers_sorted:
  assumes ok: "book_ok b"
  shows "sorted_wrt (\<lambda>p q. if ord_is_buy ord then p \<le> q else q \<le> p)
    (map ord_limit_price (crossing_makers ord b))"
proof -
  have pre: "sorted_wrt Q (map ord_limit_price (crossing v ls))"
    if "sorted_wrt Q (map ord_limit_price (side_orders ls))" for Q v ls
    using that unfolding crossing_beyond [of v ls, symmetric] by (simp add: sorted_wrt_append)
  have "sorted_wrt (\<le>) (map ord_limit_price (side_orders (ob_asks b)))"
    using ok by (intro side_orders_sorted [where R = "(<)" and d = False])
      (auto simp: book_ok_def side_ok_def bt_ok_def)
  moreover have "sorted_wrt (\<ge>) (map ord_limit_price (side_orders (rev (ob_bids b))))"
    using ok bt_ok_sub(2) by (intro side_orders_sorted [where R = "(>)" and d = True])
      (auto simp: book_ok_def side_ok_def)
  ultimately show ?thesis
    by (cases "ord_is_buy ord") (simp_all add: crossing_makers_def pre)
qed

lemma prices_spec_fills:
  "map fl_price (spec_fills ord ms) =
     take (length (spec_fills ord ms)) (map ord_limit_price ms)"
proof -
  have "map fl_price (spec_fills ord ms) =
      map ord_limit_price (map fst (spec_match ms (unat (ord_size ord))))"
    by (auto simp: spec_fills_def)
  then show ?thesis by (simp add: spec_match_makers take_map spec_fills_def)
qed

text \<open>A book for the witnesses: two asks at 4, one ask at 6 and a bid at 2.\<close>

definition sample_order :: "bool \<Rightarrow> u64 \<Rightarrow> u64 \<Rightarrow> u64 \<Rightarrow> address \<Rightarrow> order" where
  "sample_order is_buy price sz oid a =
     to_order \<lparr>ao_address = a, ao_is_buy = is_buy, ao_limit_price = price, ao_size = sz\<rparr> oid"

definition sample_book :: order_book where
  "sample_book = \<lparr>ob_bids = [(2, [sample_order True 2 1 13 5])],
     ob_asks = [(4, [sample_order False 4 2 11 5, sample_order False 4 5 12 6]),
                (6, [sample_order False 6 9 14 6])],
     ob_oid_to_level = [11 \<mapsto> 4, 12 \<mapsto> 4, 13 \<mapsto> 2, 14 \<mapsto> 6]\<rparr>"

lemma book_ok_sample: "book_ok sample_book"
  by (auto simp: book_ok_def sample_book_def side_ok_def level_ok_def sample_order_def oids_ok_def
      book_orders_def uncrossed_def oid_entry_def Map.graph_fun_upd_None insert_commute)

text \<open>
  C1. The matching loop is price-time priority: on a well-formed book \<open>limit\<close> does not panic and
  returns the left-over amount, the fills and the book that the specification gives, in which
  the taker meets the orders of the opposite side best price first and, at one price, oldest first.
\<close>

theorem limit_price_time_priority:
  assumes "book_ok b"
  shows "limit ord b = Some (spec_limit ord b)"
  using assms by (intro limit_eq_spec book_ok_bt)

theorem limit_price_time_priority_witness:
  "limit (sample_order True 5 8 20 7) sample_book = Some (spec_limit (sample_order True 5 8 20 7) sample_book)"
  by (rule limit_price_time_priority [OF book_ok_sample])

text \<open>
  C27. The fills of \<open>limit\<close> account for the taker exactly: the traded sizes and the left-over
  amount add up to the size of the order, every fill is positive and is between the taker and an
  order of the opposite side that was resting in the book, at the maker's price and no worse
  than the taker's limit, and the prices run from best to worst.
\<close>

theorem limit_fills_exact:
  assumes "book_ok b" and "limit ord b = Some (rem, fills, b')"
  shows "unat rem + (\<Sum>f \<leftarrow> fills. unat (fl_size f)) = unat (ord_size ord) \<and>
    (\<forall>f \<in> set fills. 0 < fl_size f \<and> fl_taker_oid f = ord_oid ord \<and>
       (\<exists>m \<in> set (book_orders b). ord_is_buy m \<noteq> ord_is_buy ord \<and> fl_maker_oid f = ord_oid m
          \<and> fl_price f = ord_limit_price m \<and> fl_size f \<le> ord_size m
          \<and> (if ord_is_buy ord
             then fl_buyer f = ord_address ord \<and> fl_seller f = ord_address m \<and> fl_price f \<le> ord_limit_price ord
             else fl_seller f = ord_address ord \<and> fl_buyer f = ord_address m \<and> ord_limit_price ord \<le> fl_price f))) \<and>
    sorted_wrt (\<lambda>p q. if ord_is_buy ord then p \<le> q else q \<le> p) (map fl_price fills)"
proof (intro conjI ballI)
  have lim: "rem = of_nat (unat (ord_size ord) - total_size (crossing_makers ord b))"
    "fills = spec_fills ord (crossing_makers ord b)"
    using assms(2) limit_eq_spec [OF book_ok_bt [OF assms(1)]] by (auto simp: spec_limit_def Let_def)
  show "unat rem + (\<Sum>f \<leftarrow> fills. unat (fl_size f)) = unat (ord_size ord)"
    unfolding lim sum_fill_sizes unat_of_nat_diff by simp
  show "sorted_wrt (\<lambda>p q. if ord_is_buy ord then p \<le> q else q \<le> p) (map fl_price fills)"
    unfolding lim prices_spec_fills using crossing_makers_sorted [OF assms(1)] by (rule sorted_wrt_take)
  fix f assume "f \<in> set fills"
  then obtain m k where f: "m \<in> set (crossing_makers ord b)" "k \<le> unat (ord_size m)"
    "(m, k) \<in> set (spec_match (crossing_makers ord b) (unat (ord_size ord)))"
    "f = maker_fill (ord_oid ord) (ord_is_buy ord) (ord_address ord) m (of_nat k)"
    unfolding lim by (rule spec_fills_cases)
  note m = crossing_makers_mem [OF assms(1) f(1)]
  have k: "unat (of_nat k :: u64) = k"
    by (rule unat_of_nat_le [OF f(2)])
  have "0 < k" using spec_match_pos [OF f(3)] crossing_makers_mem(3) [OF assms(1)] by blast
  with k show "0 < fl_size f" by (simp add: f(4) word_pos_iff)
  show "fl_taker_oid f = ord_oid ord" by (simp add: f(4))
  show "\<exists>m \<in> set (book_orders b). ord_is_buy m \<noteq> ord_is_buy ord \<and> fl_maker_oid f = ord_oid m
          \<and> fl_price f = ord_limit_price m \<and> fl_size f \<le> ord_size m
          \<and> (if ord_is_buy ord
             then fl_buyer f = ord_address ord \<and> fl_seller f = ord_address m \<and> fl_price f \<le> ord_limit_price ord
             else fl_seller f = ord_address ord \<and> fl_buyer f = ord_address m \<and> ord_limit_price ord \<le> fl_price f)"
    using m k f(2) by (intro bexI [OF _ m(1)]) (auto simp: f(4) word_le_nat_alt)
qed

theorem limit_fills_exact_witness:
  "\<exists>rem fills b'. limit (sample_order True 5 8 20 7) sample_book = Some (rem, fills, b') \<and>
     unat rem + (\<Sum>f \<leftarrow> fills. unat (fl_size f)) = 8"
proof -
  obtain rem fills b' where l: "limit (sample_order True 5 8 20 7) sample_book = Some (rem, fills, b')"
    using limit_eq_spec [OF book_ok_bt [OF book_ok_sample]] by (metis prod_cases3)
  have "ord_size (sample_order True 5 8 20 7) = 8" by (simp add: sample_order_def)
  with l limit_fills_exact [OF book_ok_sample l] show ?thesis by auto
qed

text \<open>
  C29. Both operations keep the book well formed: \<open>limit\<close> with an unused order id and \<open>cancel\<close>
  with any id leave a book whose levels are sorted, whose orders sit on their side at their own
  price with a positive size, whose id map names exactly the resting orders, and in which every
  bid price is below every ask price.
\<close>

theorem book_operations_keep_ok:
  assumes "book_ok b"
  shows "(\<forall>rem fills b'. ord_oid ord \<notin> ord_oid ` set (book_orders b) \<longrightarrow>
      limit ord b = Some (rem, fills, b') \<longrightarrow> book_ok b') \<and> (\<forall>oid. book_ok (snd (cancel oid b)))"
proof (intro conjI allI impI)
  fix rem fills b'
  assume "ord_oid ord \<notin> ord_oid ` set (book_orders b)" and "limit ord b = Some (rem, fills, b')"
  with limit_eq_spec [OF book_ok_bt [OF assms]] book_ok_limit [OF assms] show "book_ok b'" by force
next
  fix oid
  show "book_ok (snd (cancel oid b))"
    using cancel_present [OF assms] cancel_absent [OF assms, of oid] assms
    by (cases "oid \<in> ord_oid ` set (book_orders b)") force+
qed

theorem book_operations_keep_ok_witness:
  "book_ok (snd (snd (the (limit (sample_order True 5 8 20 7) sample_book)))) \<and>
   book_ok (snd (cancel 12 sample_book))"
proof -
  obtain rem fills b' where l: "limit (sample_order True 5 8 20 7) sample_book = Some (rem, fills, b')"
    using limit_eq_spec [OF book_ok_bt [OF book_ok_sample]] by (metis prod_cases3)
  have "ord_oid (sample_order True 5 8 20 7) \<notin> ord_oid ` set (book_orders sample_book)"
    by (simp add: sample_order_def sample_book_def book_orders_def)
  with book_operations_keep_ok [OF book_ok_sample, of "sample_order True 5 8 20 7"] l
  show ?thesis by simp
qed

text \<open>
  \<open>cancel\<close> is exact: an id that rests in the book gives back that order and removes it and
  nothing else, also after earlier orders at its price have been matched; an id that does not
  rest in the book gives \<open>None\<close> and leaves the book as it was.
\<close>

theorem cancel_exact:
  assumes "book_ok b"
  shows "case cancel oid b of
      (Some x, b') \<Rightarrow> ord_oid x = oid \<and> mset (book_orders b) = add_mset x (mset (book_orders b'))
        \<and> fst (cancel oid b') = None
    | (None, b') \<Rightarrow> b' = b \<and> oid \<notin> ord_oid ` set (book_orders b)"
proof (cases "oid \<in> ord_oid ` set (book_orders b)")
  case True
  then obtain x where x: "x \<in> set (book_orders b)" "ord_oid x = oid" by blast
  from cancel_present [OF assms x(1)] obtain b' where
    b': "cancel oid b = (Some x, b')" "book_ok b'" "mset (book_orders b) = add_mset x (mset (book_orders b'))"
    by (auto simp: x(2))
  have "mset (map ord_oid (book_orders b)) = mset (oid # map ord_oid (book_orders b'))"
    by (simp add: b'(3) x(2))
  then have "distinct (oid # map ord_oid (book_orders b'))"
    using assms unfolding book_ok_def oids_ok_def by (metis mset_eq_imp_distinct_iff)
  then show ?thesis using b' x(2) cancel_absent [OF b'(2), of oid] by simp
next
  case False
  with cancel_absent [OF assms False] show ?thesis by simp
qed

theorem cancel_exact_witness:
  "(case cancel 12 sample_book of (Some x, b') \<Rightarrow> ord_oid x = 12 | _ \<Rightarrow> False)"
proof -
  have "fst (cancel 12 sample_book) = Some (sample_order False 4 5 12 6)"
    by (simp add: cancel_def sample_book_def remove_from_level_def sample_order_def Let_def split: prod.splits)
  with cancel_exact [OF book_ok_sample, of 12] show ?thesis by (auto split: prod.splits option.splits)
qed

text \<open>
  A taker that trades and is not used up comes to rest with the size it was submitted with,
  not with the amount it has left: the order in the book still offers what its fills have
  already taken (\<open>limit\<close> hands the original \<open>order\<close> to \<open>enqueue_order\<close>).
\<close>

theorem limit_rests_full_size:
  assumes "book_ok b" and "limit ord b = Some (rem, fills, b')" and "0 < rem"
  shows "ord \<in> set (book_orders b') \<and>
    unat (ord_size ord) = unat rem + (\<Sum>f \<leftarrow> fills. unat (fl_size f))"
proof
  have lim: "rem = of_nat (unat (ord_size ord) - total_size (crossing_makers ord b))"
    "fills = spec_fills ord (crossing_makers ord b)" "b' = snd (snd (spec_limit ord b))"
    using assms(2) limit_eq_spec [OF book_ok_bt [OF assms(1)]] by (auto simp: spec_limit_def Let_def)
  show "unat (ord_size ord) = unat rem + (\<Sum>f \<leftarrow> fills. unat (fl_size f))"
    unfolding lim sum_fill_sizes unat_of_nat_diff by simp
  have "0 < unat (ord_size ord) - total_size (crossing_makers ord b)"
    using assms(3) unfolding lim limit_left_over .
  then have "b' = enqueue_order ord (spec_book ord b)" by (simp add: lim(3) spec_limit_def Let_def)
  then have "mset (book_orders b') = add_mset ord (mset (book_orders (spec_book ord b)))"
    using mset_enqueue book_ok_bt [OF book_ok_spec_book [OF assms(1)]] by blast
  then show "ord \<in> set (book_orders b')" by (metis set_mset_mset union_single_eq_member)
qed

theorem limit_rests_full_size_witness:
  "\<exists>fills b'. limit (sample_order True 5 8 20 7) sample_book = Some (1, fills, b') \<and>
     map fl_size fills = [2, 5] \<and> sample_order True 5 8 20 7 \<in> set (book_orders b') \<and>
     ord_size (sample_order True 5 8 20 7) = 8"
proof -
  have "fst (spec_limit (sample_order True 5 8 20 7) sample_book) = 1"
    "map fl_size (fst (snd (spec_limit (sample_order True 5 8 20 7) sample_book))) = [2, 5]"
    by (simp_all add: spec_limit_def sample_order_def sample_book_def crossing_makers_def spec_fills_def)
  then obtain fills b' where l: "limit (sample_order True 5 8 20 7) sample_book = Some (1, fills, b')"
    and f: "map fl_size fills = [2, 5]"
    using limit_eq_spec [OF book_ok_bt [OF book_ok_sample]]
    by (cases "spec_limit (sample_order True 5 8 20 7) sample_book") auto
  from limit_rests_full_size [OF book_ok_sample l] have "sample_order True 5 8 20 7 \<in> set (book_orders b')" by simp
  with l f show ?thesis by (simp add: sample_order_def)
qed

end
