(* ===== verification/Abi.thy ===== *)
theory Abi
  imports Prelude
begin

text \<open>
  The shared ABI types (\<^verbatim>\<open>crates/sdk/abi/src/lib.rs\<close>): the payloads of job requests and results
  as records, and the functions that build them. The ABI encoder (\<open>alloy\<close>) and Keccak are
  parameters; the packed encoding of a job's nonce and consumer, from which its id is hashed, is
  written out (fixed-width big-endian integers, one after the other).
\<close>

section \<open>Payloads\<close>

record job_params =
  jp_nonce :: u64
  jp_max_cycles :: u64
  jp_consumer_address :: address
  jp_onchain_input :: bytes
  jp_program_id :: bytes
  jp_offchain_input_hash :: b256

record offchain_job_request =
  ojr_nonce :: u64
  ojr_max_cycles :: u64
  ojr_consumer :: address
  ojr_program_id :: bytes
  ojr_onchain_input :: bytes
  ojr_offchain_input_hash :: b256

record stateful_app_onchain_input =
  sai_input_state_root :: b256
  sai_onchain_input :: bytes

record stateful_app_result =
  sar_output_state_root :: b256
  sar_result :: bytes

record result_with_metadata =
  rm_job_id :: b256
  rm_onchain_input_hash :: b256
  rm_max_cycles :: u64
  rm_program_id :: bytes
  rm_raw_output :: bytes

record offchain_result_with_metadata =
  orm_job_id :: b256
  orm_onchain_input_hash :: b256
  orm_offchain_input_hash :: b256
  orm_max_cycles :: u64
  orm_program_id :: bytes
  orm_raw_output :: bytes
  orm_versioned_blob_hashes :: "b256 list"

section \<open>Encoders\<close>

definition abi_encode_offchain_job_request :: "(offchain_job_request \<Rightarrow> bytes) \<Rightarrow> job_params \<Rightarrow> bytes" where
  "abi_encode_offchain_job_request abi_encode job =
     abi_encode \<lparr>ojr_nonce = jp_nonce job, ojr_max_cycles = jp_max_cycles job,
       ojr_consumer = jp_consumer_address job, ojr_program_id = jp_program_id job,
       ojr_onchain_input = jp_onchain_input job, ojr_offchain_input_hash = jp_offchain_input_hash job\<rparr>"

definition abi_encode_result_with_metadata :: "(result_with_metadata \<Rightarrow> bytes) \<Rightarrow> b256 \<Rightarrow> b256 \<Rightarrow> u64
    \<Rightarrow> bytes \<Rightarrow> bytes \<Rightarrow> bytes" where
  "abi_encode_result_with_metadata abi_encode job_id onchain_input_hash max_cycles program_id raw_output =
     abi_encode \<lparr>rm_job_id = job_id, rm_onchain_input_hash = onchain_input_hash,
       rm_max_cycles = max_cycles, rm_program_id = program_id, rm_raw_output = raw_output\<rparr>"

definition abi_encode_offchain_result_with_metadata :: "(offchain_result_with_metadata \<Rightarrow> bytes) \<Rightarrow> b256
    \<Rightarrow> b256 \<Rightarrow> b256 \<Rightarrow> u64 \<Rightarrow> bytes \<Rightarrow> bytes \<Rightarrow> b256 list \<Rightarrow> bytes" where
  "abi_encode_offchain_result_with_metadata abi_encode job_id onchain_input_hash offchain_input_hash
     max_cycles program_id raw_output versioned_blob_hashes =
     abi_encode \<lparr>orm_job_id = job_id, orm_onchain_input_hash = onchain_input_hash,
       orm_offchain_input_hash = offchain_input_hash, orm_max_cycles = max_cycles,
       orm_program_id = program_id, orm_raw_output = raw_output,
       orm_versioned_blob_hashes = versioned_blob_hashes\<rparr>"

text \<open>An integer of \<open>n\<close> bytes, most significant byte first.\<close>

definition be_bytes :: "nat \<Rightarrow> 'a::len word \<Rightarrow> bytes" where
  "be_bytes n w = map (\<lambda>i. of_nat (unat w div 256 ^ (n - 1 - i))) [0..<n]"

definition abi_encode_nonce_and_consumer :: "u64 \<Rightarrow> address \<Rightarrow> bytes" where
  "abi_encode_nonce_and_consumer nonce consumer = be_bytes 8 nonce @ be_bytes 20 consumer"

definition get_job_id :: "(bytes \<Rightarrow> b256) \<Rightarrow> u64 \<Rightarrow> address \<Rightarrow> b256" where
  "get_job_id keccak256 nonce consumer = keccak256 (abi_encode_nonce_and_consumer nonce consumer)"

section \<open>Lemmas\<close>

lemma length_be_bytes [simp]: "length (be_bytes n w) = n"
  by (simp add: be_bytes_def)

lemma digits_256_inj:
  "(\<And>i. i < n \<Longrightarrow> a div 256 ^ i mod 256 = b div 256 ^ i mod (256 :: nat)) \<Longrightarrow>
     a < 256 ^ n \<Longrightarrow> b < 256 ^ n \<Longrightarrow> a = b"
proof (induction n arbitrary: a b)
  case 0
  then show ?case by simp
next
  case (Suc n)
  have "a div 256 = b div 256"
  proof (rule Suc.IH)
    fix i assume "i < n"
    then show "a div 256 div 256 ^ i mod 256 = b div 256 div 256 ^ i mod 256"
      using Suc.prems(1) [of "Suc i"] by (simp add: div_mult2_eq)
  qed (use Suc.prems(2,3) in \<open>simp_all add: less_mult_imp_div_less mult.commute\<close>)
  moreover have "a mod 256 = b mod 256" using Suc.prems(1) [of 0] by simp
  ultimately show ?case by (metis div_mult_mod_eq)
qed

lemma be_bytes_inj:
  assumes "be_bytes n v = be_bytes n (w :: 'a::len word)" and "2 ^ LENGTH('a) \<le> (256 :: nat) ^ n"
  shows "v = w"
proof -
  have "unat v div 256 ^ i mod 256 = unat w div 256 ^ i mod 256" if "i < n" for i
  proof -
    have "be_bytes n v ! (n - 1 - i) = be_bytes n w ! (n - 1 - i)" using assms(1) by simp
    then have "(of_nat (unat v div 256 ^ i) :: u8) = of_nat (unat w div 256 ^ i)"
      using that by (simp add: be_bytes_def)
    then have "unat (of_nat (unat v div 256 ^ i) :: u8) = unat (of_nat (unat w div 256 ^ i) :: u8)" by simp
    then show ?thesis by (simp add: unat_of_nat)
  qed
  moreover have lt: "unat u < 256 ^ n" for u :: "'a word"
    using unsigned_less [of u] assms(2) by (rule order.strict_trans2)
  ultimately have "unat v = unat w" using lt [of v] lt [of w] digits_256_inj by blast
  then show ?thesis by (simp add: word_unat_eq_iff)
qed

text \<open>
  Jobs have their own ids: with a hash function that does not collide, two jobs with the same id
  have the same nonce and the same consumer.
\<close>

lemma get_job_id_inj:
  assumes "\<And>xs ys. keccak xs = keccak ys \<Longrightarrow> length xs = 28 \<Longrightarrow> length ys = 28 \<Longrightarrow> xs = ys"
    and "get_job_id keccak n c = get_job_id keccak n' c'"
  shows "n = n' \<and> c = c'"
proof -
  have "abi_encode_nonce_and_consumer n c = abi_encode_nonce_and_consumer n' c'"
    using assms by (simp add: get_job_id_def abi_encode_nonce_and_consumer_def)
  then have "be_bytes 8 n = be_bytes 8 n'" "be_bytes 20 c = be_bytes 20 c'"
    by (simp_all add: abi_encode_nonce_and_consumer_def)
  then show ?thesis using be_bytes_inj [of 8 n n'] be_bytes_inj [of 20 c c'] by simp
qed

text \<open>A hash for the witness: the number that 28 bytes denote, which fits into 256 bits.\<close>

definition number_hash :: "bytes \<Rightarrow> b256" where
  "number_hash xs = of_nat (foldl (\<lambda>n b. n * 256 + unat b) 0 xs)"

lemma foldl_bytes_less: "foldl (\<lambda>n b. n * 256 + unat b) a xs < (a + 1) * 256 ^ length (xs :: bytes)"
proof (induction xs arbitrary: a)
  case (Cons x xs)
  have "unat x < 256" using unsigned_less [of x] by simp
  then have "a * 256 + unat x + 1 \<le> (a + 1) * 256" by simp
  then have "(a * 256 + unat x + 1) * 256 ^ length xs \<le> (a + 1) * 256 * 256 ^ length xs"
    by (rule mult_right_mono) simp
  with Cons.IH [of "a * 256 + unat x"]
  have "foldl (\<lambda>n b. n * 256 + unat b) (a * 256 + unat x) xs < (a + 1) * 256 * 256 ^ length xs"
    by (rule order.strict_trans2)
  then show ?case by (simp only: foldl_Cons list.size power_Suc add_0_right mult.assoc One_nat_def power_add) simp
qed simp

lemma foldl_bytes_inj:
  "length xs = length ys \<Longrightarrow> foldl (\<lambda>n b. n * 256 + unat b) a xs = foldl (\<lambda>n b. n * 256 + unat b) a' ys \<Longrightarrow>
     a = a' \<and> xs = (ys :: bytes)"
proof (induction xs ys arbitrary: a a' rule: list_induct2)
  case (Cons x xs y ys)
  then have e: "a * 256 + unat x = a' * 256 + unat y" "xs = ys" by auto
  have "unat x < 256" "unat y < 256" using unsigned_less [of x] unsigned_less [of y] by simp_all
  then have "(a * 256 + unat x) div 256 = a" "(a' * 256 + unat y) div 256 = a'" by simp_all
  with e(1) have "a = a'" by simp
  with e(1) have "unat x = unat y" by simp
  with e(2) \<open>a = a'\<close> show ?case by (simp add: word_unat_eq_iff)
qed simp

lemma number_hash_inj:
  assumes "number_hash xs = number_hash ys" and "length xs = 28" and "length ys = 28"
  shows "xs = ys"
proof -
  let ?f = "foldl (\<lambda>n b. n * 256 + unat b) (0 :: nat)"
  have "?f zs < 2 ^ 256" if "length zs = 28" for zs :: bytes
  proof -
    have "?f zs < 256 ^ 28" using foldl_bytes_less [of 0 zs] that by simp
    also have "\<dots> < 2 ^ 256" by simp
    finally show ?thesis .
  qed
  then have "?f xs = ?f ys"
    using assms of_nat_eq_iff [of "?f xs" "?f ys", where 'a = 256] by (simp add: number_hash_def)
  with assms(2,3) foldl_bytes_inj [of xs ys 0 0] show ?thesis by simp
qed

lemma get_job_id_inj_example:
  "get_job_id number_hash 1 5 \<noteq> get_job_id number_hash 2 5"
  using get_job_id_inj [of number_hash 1 5 2 5] number_hash_inj by auto

end
