(* ===== verification/ClobCore.thy ===== *)
theory ClobCore
  imports OrderBook Abi "HOL-Library.Product_Lexorder" "HOL-Library.AList"
begin

text \<open>
  The state machine of the CLOB (\<^verbatim>\<open>examples/clob/core/src/lib.rs\<close>) and its internal accounting
  type \<open>Diff\<close> (\<^verbatim>\<open>examples/clob/core/src/api/program.rs\<close>): balances, deposits, withdrawals, order
  placement with settlement of the fills, cancellation, \<open>tick\<close>, and the state transition
  function \<open>zkvm_stf\<close> that the guest program runs. A panic of the matching engine makes
  \<open>add_order\<close>, \<open>tick\<close> and \<open>zkvm_stf\<close> return \<open>None\<close>. The \<open>debug_assert\<close>s are absent from a release
  build and are not modelled. The ABI encoder, the Borsh serialiser with its hash and the
  iteration order of a \<open>HashMap\<close> are parameters of \<open>zkvm_stf\<close>.
\<close>

section \<open>State and diffs\<close>

record clob_state =
  cs_oid :: u64
  cs_base :: "address \<rightharpoonup> asset_balance"
  cs_quote :: "address \<rightharpoonup> asset_balance"
  cs_book :: order_book
  cs_status :: "u64 \<rightharpoonup> fill_status"

definition default_clob_state :: clob_state where
  "default_clob_state = \<lparr>cs_oid = 0, cs_base = Map.empty, cs_quote = Map.empty,
     cs_book = default_book, cs_status = Map.empty\<rparr>"

datatype diff =
    DWithdraw address u64 u64
  | DFill address address u64 u64
  | DCreate address u64 u64
  | DCancel address u64 u64
  | DDeposit address u64 u64
  | Noop

section \<open>The handlers\<close>

definition add_free :: "u64 \<Rightarrow> asset_balance \<Rightarrow> asset_balance" where
  "add_free v b = b\<lparr>ab_free := ab_free b + v\<rparr>"

definition sub_locked :: "u64 \<Rightarrow> asset_balance \<Rightarrow> asset_balance" where
  "sub_locked v b = b\<lparr>ab_locked := ab_locked b - v\<rparr>"

definition lock_amount :: "u64 \<Rightarrow> asset_balance \<Rightarrow> asset_balance" where
  "lock_amount v b = b\<lparr>ab_free := ab_free b - v, ab_locked := ab_locked b + v\<rparr>"

definition unlock_amount :: "u64 \<Rightarrow> asset_balance \<Rightarrow> asset_balance" where
  "unlock_amount v b = b\<lparr>ab_free := ab_free b + v, ab_locked := ab_locked b - v\<rparr>"

definition deposit :: "deposit_request \<Rightarrow> clob_state \<Rightarrow> deposit_response \<times> clob_state \<times> diff" where
  "deposit req s =
     (let a = dep_address req;
          s = s\<lparr>cs_base := and_modify_or_insert a (add_free (dep_base_free req))
                  \<lparr>ab_free = dep_base_free req, ab_locked = 0\<rparr> (cs_base s)\<rparr>;
          s = s\<lparr>cs_quote := and_modify_or_insert a (add_free (dep_quote_free req))
                  \<lparr>ab_free = dep_quote_free req, ab_locked = 0\<rparr> (cs_quote s)\<rparr>
      in (\<lparr>dr_success = True\<rparr>, s, DDeposit a (dep_base_free req) (dep_quote_free req)))"

definition withdraw :: "withdraw_request \<Rightarrow> clob_state \<Rightarrow> withdraw_response \<times> clob_state \<times> diff" where
  "withdraw req s =
     (let a = wd_address req in
      case (cs_base s a, cs_quote s a) of
        (Some base, Some quote) \<Rightarrow>
          if ab_free base < wd_base_free req \<or> ab_free quote < wd_quote_free req
          then (\<lparr>wr_success = False\<rparr>, s, Noop)
          else
            let base = base\<lparr>ab_free := ab_free base - wd_base_free req\<rparr>;
                quote = quote\<lparr>ab_free := ab_free quote - wd_quote_free req\<rparr>;
                s = s\<lparr>cs_base := (cs_base s)(a \<mapsto> base), cs_quote := (cs_quote s)(a \<mapsto> quote)\<rparr>;
                s = (if quote = default_balance \<and> base = default_balance
                     then s\<lparr>cs_base := (cs_base s)(a := None), cs_quote := (cs_quote s)(a := None)\<rparr>
                     else s)
            in (\<lparr>wr_success = True\<rparr>, s, DWithdraw a (wd_base_free req) (wd_quote_free req))
      | _ \<Rightarrow> (\<lparr>wr_success = False\<rparr>, s, Noop))"

definition cancel_failed :: cancel_order_response where
  "cancel_failed = \<lparr>cr_success = False, cr_fill_status = None\<rparr>"

definition cancel_order :: "cancel_order_request \<Rightarrow> clob_state
    \<Rightarrow> cancel_order_response \<times> clob_state \<times> diff" where
  "cancel_order req s =
     (case cancel (co_oid req) (cs_book s) of
        (None, book) \<Rightarrow> (cancel_failed, s\<lparr>cs_book := book\<rparr>, Noop)
      | (Some x, book) \<Rightarrow>
          let s = s\<lparr>cs_book := book\<rparr> in
          case cs_status s (co_oid req) of
            None \<Rightarrow> (cancel_failed, s, Noop)
          | Some st \<Rightarrow>
              let s = s\<lparr>cs_status := (cs_status s)(co_oid req := None)\<rparr>; a = ord_address x in
              if ord_is_buy x then
                (case cs_quote s a of
                   Some quote \<Rightarrow>
                     let remaining_quote = order_quote_size x - filled_quote st
                     in (\<lparr>cr_success = True, cr_fill_status = Some st\<rparr>,
                         s\<lparr>cs_quote := (cs_quote s)(a \<mapsto> unlock_amount remaining_quote quote)\<rparr>,
                         DCancel a 0 (order_quote_size x))
                 | None \<Rightarrow> (cancel_failed, s, Noop))
              else
                (case cs_base s a of
                   Some base \<Rightarrow>
                     let remaining_base = ord_size x - fs_filled_size st
                     in (\<lparr>cr_success = True, cr_fill_status = Some st\<rparr>,
                         s\<lparr>cs_base := (cs_base s)(a \<mapsto> unlock_amount remaining_base base)\<rparr>,
                         DCancel a (ord_size x) 0)
                 | None \<Rightarrow> (cancel_failed, s, Noop)))"

text \<open>The body of the loop over the fills in \<open>add_order\<close>: balances, reported diff, maker status.\<close>

definition settle_balances :: "add_order_request \<Rightarrow> order_fill \<Rightarrow> clob_state \<Rightarrow> clob_state" where
  "settle_balances req fill s =
     (if ao_is_buy req then
        let s = s\<lparr>cs_base := and_modify (fl_seller fill) (sub_locked (fl_size fill)) (cs_base s)\<rparr>;
            s = s\<lparr>cs_quote := and_modify (fl_seller fill) (add_free (fill_quote_size fill)) (cs_quote s)\<rparr>;
            s = s\<lparr>cs_base := and_modify (ao_address req) (add_free (fl_size fill)) (cs_base s)\<rparr>
        in s\<lparr>cs_quote := and_modify (ao_address req) (sub_locked (fill_quote_size fill)) (cs_quote s)\<rparr>
      else
        let s = s\<lparr>cs_base := and_modify (ao_address req) (sub_locked (fl_size fill)) (cs_base s)\<rparr>;
            s = s\<lparr>cs_quote := and_modify (ao_address req) (add_free (fill_quote_size fill)) (cs_quote s)\<rparr>;
            s = s\<lparr>cs_base := and_modify (fl_buyer fill) (add_free (fl_size fill)) (cs_base s)\<rparr>
        in s\<lparr>cs_quote := and_modify (fl_buyer fill) (sub_locked (fill_quote_size fill)) (cs_quote s)\<rparr>)"

definition fill_diff :: "add_order_request \<Rightarrow> order_fill \<Rightarrow> diff" where
  "fill_diff req fill =
     (if ao_is_buy req
      then DFill (ao_address req) (fl_seller fill) (fl_size fill) (fill_quote_size fill)
      else DFill (fl_buyer fill) (ao_address req) (fl_size fill) (fill_quote_size fill))"

definition update_maker_status :: "order_fill \<Rightarrow> (u64 \<rightharpoonup> fill_status) \<Rightarrow> (u64 \<rightharpoonup> fill_status)" where
  "update_maker_status fill m =
     (case m (fl_maker_oid fill) of
        None \<Rightarrow> m
      | Some st \<Rightarrow>
          let st = st\<lparr>fs_filled_size := fs_filled_size st + fl_size fill\<rparr> in
          if fs_filled_size st < fs_size st
          then m(fl_maker_oid fill \<mapsto> st\<lparr>fs_fills := fs_fills st @ [fill]\<rparr>)
          else m(fl_maker_oid fill := None))"

definition settle_fill :: "add_order_request \<Rightarrow> order_fill \<Rightarrow> clob_state \<times> diff list
    \<Rightarrow> clob_state \<times> diff list" where
  "settle_fill req fill = (\<lambda>(s, changes).
     let s = settle_balances req fill s;
         changes = changes @ [fill_diff req fill]
     in (s\<lparr>cs_status := update_maker_status fill (cs_status s)\<rparr>, changes))"

definition lock_funds :: "add_order_request \<Rightarrow> order \<Rightarrow> clob_state \<Rightarrow> clob_state \<times> diff" where
  "lock_funds req ord s =
     (if ao_is_buy req
      then (s\<lparr>cs_quote := and_modify (ao_address req) (lock_amount (order_quote_size ord)) (cs_quote s)\<rparr>,
            DCreate (ao_address req) 0 (order_quote_size ord))
      else (s\<lparr>cs_base := and_modify (ao_address req) (lock_amount (ord_size ord)) (cs_base s)\<rparr>,
            DCreate (ao_address req) (ord_size ord) 0))"

definition add_failed :: add_order_response where
  "add_failed = \<lparr>ar_success = False, ar_status = None\<rparr>"

definition add_order :: "add_order_request \<Rightarrow> clob_state
    \<Rightarrow> (add_order_response \<times> clob_state \<times> diff list) option" where
  "add_order req s =
     (case (cs_base s (ao_address req), cs_quote s (ao_address req)) of
        (Some base, Some quote) \<Rightarrow>
          let ord = to_order req (cs_oid s);
              order_id = ord_oid ord;
              s = s\<lparr>cs_oid := cs_oid s + 1\<rparr>;
              is_invalid_buy = ord_is_buy ord \<and> ab_free quote < order_quote_size ord;
              is_invalid_sell = \<not> ord_is_buy ord \<and> ab_free base < ord_size ord
          in if is_invalid_buy \<or> is_invalid_sell then Some (add_failed, s, [Noop])
             else
               let (s, create) = lock_funds req ord s in
               case limit ord (cs_book s) of
                 None \<Rightarrow> None
               | Some (remaining_amount, fills, book) \<Rightarrow>
                   let s = s\<lparr>cs_book := book\<rparr>;
                       (s, changes) = fold (settle_fill req) fills (s, [create]);
                       fill_status = \<lparr>fs_oid = order_id, fs_size = ao_size req,
                         fs_address = ao_address req, fs_filled_size = ao_size req - remaining_amount,
                         fs_fills = fills\<rparr>;
                       s = (if remaining_amount \<noteq> 0
                            then s\<lparr>cs_status := (cs_status s)(order_id \<mapsto> fill_status)\<rparr> else s)
                   in Some (\<lparr>ar_success = True, ar_status = Some fill_status\<rparr>, s, changes)
      | _ \<Rightarrow> Some (add_failed, s, [Noop]))"

fun tick :: "request \<Rightarrow> clob_state \<Rightarrow> (response \<times> clob_state \<times> diff list) option" where
  "tick (AddOrder req) s =
     (case add_order req s of None \<Rightarrow> None
      | Some (resp, s, diffs) \<Rightarrow> Some (AddOrderResp resp, s, diffs))"
| "tick (CancelOrder req) s =
     (let (resp, s, diff) = cancel_order req s in Some (CancelOrderResp resp, s, [diff]))"
| "tick (Deposit req) s =
     (let (resp, s, diff) = deposit req s in Some (DepositResp resp, s, [diff]))"
| "tick (Withdraw req) s =
     (let (resp, s, diff) = withdraw req s in Some (WithdrawResp resp, s, [diff]))"

section \<open>The result of the guest program\<close>

text \<open>
  The Solidity structs. Their derived order compares the fields in declaration order; \<open>int256\<close>
  fields compare as signed integers.
\<close>

datatype deposit_delta = DepositDelta (dd_account: address) (dd_base: u256) (dd_quote: u256)
datatype withdraw_delta = WithdrawDelta (wdd_account: address) (wdd_base: u256) (wdd_quote: u256)
datatype order_delta = OrderDelta (od_account: address) (od_free_base: u256) (od_locked_base: u256)
  (od_free_quote: u256) (od_locked_quote: u256)

definition deposit_delta_key :: "deposit_delta \<Rightarrow> address \<times> u256 \<times> u256" where
  "deposit_delta_key d = (dd_account d, dd_base d, dd_quote d)"

definition withdraw_delta_key :: "withdraw_delta \<Rightarrow> address \<times> u256 \<times> u256" where
  "withdraw_delta_key d = (wdd_account d, wdd_base d, wdd_quote d)"

definition order_delta_key :: "order_delta \<Rightarrow> address \<times> int \<times> int \<times> int \<times> int" where
  "order_delta_key d = (od_account d, sint (od_free_base d), sint (od_locked_base d),
     sint (od_free_quote d), sint (od_locked_quote d))"

lemma sint_eq: "sint v = sint w \<longleftrightarrow> v = w" for v w :: "'a::len word"
  by (auto intro: signed_word_eqI)

lemma delta_keys_inj:
  "deposit_delta_key d = deposit_delta_key d' \<longleftrightarrow> d = d'"
  "withdraw_delta_key w = withdraw_delta_key w' \<longleftrightarrow> w = w'"
  "order_delta_key e = order_delta_key e' \<longleftrightarrow> e = e'"
  by ((cases d; cases d'; simp add: deposit_delta_key_def),
      (cases w; cases w'; simp add: withdraw_delta_key_def),
      (cases e; cases e'; simp add: order_delta_key_def sint_eq))

instantiation deposit_delta :: linorder
begin
definition less_eq_deposit_delta :: "deposit_delta \<Rightarrow> deposit_delta \<Rightarrow> bool" where
  "d \<le> d' \<longleftrightarrow> deposit_delta_key d \<le> deposit_delta_key d'"
definition less_deposit_delta :: "deposit_delta \<Rightarrow> deposit_delta \<Rightarrow> bool" where
  "d < d' \<longleftrightarrow> deposit_delta_key d < deposit_delta_key d'"
instance
  by standard (auto simp only: less_eq_deposit_delta_def less_deposit_delta_def delta_keys_inj(1) [symmetric])
end

instantiation withdraw_delta :: linorder
begin
definition less_eq_withdraw_delta :: "withdraw_delta \<Rightarrow> withdraw_delta \<Rightarrow> bool" where
  "d \<le> d' \<longleftrightarrow> withdraw_delta_key d \<le> withdraw_delta_key d'"
definition less_withdraw_delta :: "withdraw_delta \<Rightarrow> withdraw_delta \<Rightarrow> bool" where
  "d < d' \<longleftrightarrow> withdraw_delta_key d < withdraw_delta_key d'"
instance
  by standard (auto simp only: less_eq_withdraw_delta_def less_withdraw_delta_def delta_keys_inj(2) [symmetric])
end

instantiation order_delta :: linorder
begin
definition less_eq_order_delta :: "order_delta \<Rightarrow> order_delta \<Rightarrow> bool" where
  "d \<le> d' \<longleftrightarrow> order_delta_key d \<le> order_delta_key d'"
definition less_order_delta :: "order_delta \<Rightarrow> order_delta \<Rightarrow> bool" where
  "d < d' \<longleftrightarrow> order_delta_key d < order_delta_key d'"
instance
  by standard (auto simp only: less_eq_order_delta_def less_order_delta_def delta_keys_inj(3) [symmetric])
end

text \<open>
  The three \<open>HashMap\<close>s of \<open>Diff::apply\<close>, as association lists without repeated keys, and
  \<open>entry(k).or_insert_with(d)\<close> followed by an update of the entry.
\<close>

definition entry_update :: "'k \<Rightarrow> 'v \<Rightarrow> ('v \<Rightarrow> 'v) \<Rightarrow> ('k \<times> 'v) list \<Rightarrow> ('k \<times> 'v) list" where
  "entry_update k d f m = AList.update k (f (case map_of m k of None \<Rightarrow> d | Some v \<Rightarrow> v)) m"

record delta_maps =
  dm_withdraws :: "(address \<times> withdraw_delta) list"
  dm_deposits :: "(address \<times> deposit_delta) list"
  dm_orders :: "(address \<times> order_delta) list"

definition empty_deltas :: delta_maps where
  "empty_deltas = \<lparr>dm_withdraws = [], dm_deposits = [], dm_orders = []\<rparr>"

definition order_entry :: "address \<Rightarrow> (order_delta \<Rightarrow> order_delta) \<Rightarrow> delta_maps \<Rightarrow> delta_maps" where
  "order_entry a f ds = ds\<lparr>dm_orders := entry_update a (OrderDelta a 0 0 0 0) f (dm_orders ds)\<rparr>"

fun apply_diff :: "diff \<Rightarrow> delta_maps \<Rightarrow> delta_maps" where
  "apply_diff (DWithdraw user base quote) ds =
     ds\<lparr>dm_withdraws := entry_update user (WithdrawDelta user 0 0)
       (\<lambda>d. WithdrawDelta (wdd_account d) (wdd_base d + ucast base) (wdd_quote d + ucast quote))
       (dm_withdraws ds)\<rparr>"
| "apply_diff (DDeposit user base quote) ds =
     ds\<lparr>dm_deposits := entry_update user (DepositDelta user 0 0)
       (\<lambda>d. DepositDelta (dd_account d) (dd_base d + ucast base) (dd_quote d + ucast quote))
       (dm_deposits ds)\<rparr>"
| "apply_diff (DFill buyer seller base quote) ds =
     (let ds = order_entry buyer (\<lambda>d. OrderDelta (od_account d) (od_free_base d + ucast base)
            (od_locked_base d) (od_free_quote d) (od_locked_quote d - ucast quote)) ds
      in order_entry seller (\<lambda>d. OrderDelta (od_account d) (od_free_base d)
            (od_locked_base d - ucast base) (od_free_quote d + ucast quote) (od_locked_quote d)) ds)"
| "apply_diff (DCancel user base quote) ds =
     order_entry user (\<lambda>d. OrderDelta (od_account d) (od_free_base d + ucast base)
            (od_locked_base d - ucast base) (od_free_quote d + ucast quote)
            (od_locked_quote d - ucast quote)) ds"
| "apply_diff (DCreate user base quote) ds =
     order_entry user (\<lambda>d. OrderDelta (od_account d) (od_free_base d - ucast base)
            (od_locked_base d + ucast base) (od_free_quote d - ucast quote)
            (od_locked_quote d + ucast quote)) ds"
| "apply_diff Noop ds = ds"

record clob_result_deltas =
  crd_deposit_deltas :: "deposit_delta list"
  crd_order_deltas :: "order_delta list"
  crd_withdraw_deltas :: "withdraw_delta list"

fun stf_loop :: "request list \<Rightarrow> clob_state \<Rightarrow> delta_maps \<Rightarrow> (clob_state \<times> delta_maps) option" where
  "stf_loop [] s ds = Some (s, ds)"
| "stf_loop (req # reqs) s ds =
     (case tick req s of
        None \<Rightarrow> None
      | Some (_, next_state, diffs) \<Rightarrow> stf_loop reqs next_state (fold apply_diff diffs ds))"

text \<open>
  \<open>iter_o\<close>, \<open>iter_w\<close> and \<open>iter_d\<close> are the orders in which \<open>HashMap::into_values\<close> yields.
\<close>

definition zkvm_stf :: "(clob_state \<Rightarrow> b256) \<Rightarrow> (clob_result_deltas \<Rightarrow> bytes)
    \<Rightarrow> (order_delta list \<Rightarrow> order_delta list) \<Rightarrow> (withdraw_delta list \<Rightarrow> withdraw_delta list)
    \<Rightarrow> (deposit_delta list \<Rightarrow> deposit_delta list)
    \<Rightarrow> request list \<Rightarrow> clob_state \<Rightarrow> stateful_app_result option" where
  "zkvm_stf borsh_keccak256 abi_encode iter_o iter_w iter_d requests state =
     (case stf_loop requests state empty_deltas of
        None \<Rightarrow> None
      | Some (state, ds) \<Rightarrow>
          let order_deltas = sort (iter_o (map snd (dm_orders ds)));
              withdraw_deltas = sort (iter_w (map snd (dm_withdraws ds)));
              deposit_deltas = sort (iter_d (map snd (dm_deposits ds)))
          in Some \<lparr>sar_output_state_root = borsh_keccak256 state,
                sar_result = abi_encode \<lparr>crd_deposit_deltas = deposit_deltas,
                  crd_order_deltas = order_deltas, crd_withdraw_deltas = withdraw_deltas\<rparr>\<rparr>)"

section \<open>The invariant of the state machine\<close>

text \<open>
  Both balance maps have the same accounts, the book is well formed, and every id in use is below
  the next one.
\<close>

definition used_ids :: "clob_state \<Rightarrow> u64 set" where
  "used_ids s = ord_oid ` set (book_orders (cs_book s)) \<union> dom (cs_status s)"

definition state_ok :: "clob_state \<Rightarrow> bool" where
  "state_ok s \<longleftrightarrow> book_ok (cs_book s) \<and> dom (cs_base s) = dom (cs_quote s) \<and>
     (\<forall>i \<in> used_ids s. i < cs_oid s)"

lemma state_ok_default: "state_ok default_clob_state"
  by (simp add: state_ok_def default_clob_state_def book_ok_default)
    (simp add: default_book_def book_orders_def used_ids_def)

lemma settle_balances_frame [simp]:
  "cs_oid (settle_balances req f s) = cs_oid s" "cs_book (settle_balances req f s) = cs_book s"
  "cs_status (settle_balances req f s) = cs_status s"
  "dom (cs_base (settle_balances req f s)) = dom (cs_base s)"
  "dom (cs_quote (settle_balances req f s)) = dom (cs_quote s)"
  by (simp_all add: settle_balances_def Let_def)

lemma dom_update_maker_status: "dom (update_maker_status f m) \<subseteq> dom m"
  by (auto simp: update_maker_status_def Let_def split: option.splits if_splits)

lemma settle_fill_fst [simp]:
  "fst (settle_fill req f sc) = (settle_balances req f (fst sc))
     \<lparr>cs_status := update_maker_status f (cs_status (fst sc))\<rparr>"
  by (cases sc) (simp add: settle_fill_def Let_def)

lemma settle_fills_frame:
  "cs_oid (fst (fold (settle_fill req) fills sc)) = cs_oid (fst sc)"
  "cs_book (fst (fold (settle_fill req) fills sc)) = cs_book (fst sc)"
  "dom (cs_base (fst (fold (settle_fill req) fills sc))) = dom (cs_base (fst sc))"
  "dom (cs_quote (fst (fold (settle_fill req) fills sc))) = dom (cs_quote (fst sc))"
  by (induction fills arbitrary: sc) simp_all

lemma settle_fills_status:
  "dom (cs_status (fst (fold (settle_fill req) fills sc))) \<subseteq> dom (cs_status (fst sc))"
proof (induction fills arbitrary: sc)
  case (Cons f fills)
  have "dom (cs_status (fst (fold (settle_fill req) fills (settle_fill req f sc))))
      \<subseteq> dom (cs_status (fst (settle_fill req f sc)))"
    by (rule Cons.IH)
  also have "\<dots> \<subseteq> dom (cs_status (fst sc))" by (simp add: dom_update_maker_status)
  finally show ?case by simp
qed simp

lemma settle_fills_snd:
  "snd (fold (settle_fill req) fills sc) = snd sc @ map (fill_diff req) fills"
  by (induction fills arbitrary: sc) (auto simp: settle_fill_def Let_def split: prod.splits)

lemma lock_funds_frame [simp]:
  "cs_oid (fst (lock_funds req x s)) = cs_oid s" "cs_book (fst (lock_funds req x s)) = cs_book s"
  "cs_status (fst (lock_funds req x s)) = cs_status s"
  "dom (cs_base (fst (lock_funds req x s))) = dom (cs_base s)"
  "dom (cs_quote (fst (lock_funds req x s))) = dom (cs_quote s)"
  by (simp_all add: lock_funds_def)

text \<open>
  The three outcomes of \<open>add_order\<close> on a well-formed book: no account, not enough funds, and
  accepted.
\<close>

definition accepted :: "add_order_request \<Rightarrow> clob_state \<Rightarrow> bool" where
  "accepted req s \<longleftrightarrow> (\<exists>base quote. cs_base s (ao_address req) = Some base \<and>
     cs_quote s (ao_address req) = Some quote \<and>
     (if ao_is_buy req then ao_size req * ao_limit_price req \<le> ab_free quote
      else ao_size req \<le> ab_free base))"

definition next_id_state :: "clob_state \<Rightarrow> clob_state" where
  "next_id_state s = s\<lparr>cs_oid := cs_oid s + 1\<rparr>"

definition settled :: "add_order_request \<Rightarrow> clob_state \<Rightarrow> clob_state \<times> diff list" where
  "settled req s =
     (let x = to_order req (cs_oid s);
          (s', create) = lock_funds req x (next_id_state s);
          (rem, fills, book) = spec_limit x (cs_book s)
      in fold (settle_fill req) fills (s'\<lparr>cs_book := book\<rparr>, [create]))"

definition taker_status :: "add_order_request \<Rightarrow> clob_state \<Rightarrow> fill_status" where
  "taker_status req s =
     (let (rem, fills, book) = spec_limit (to_order req (cs_oid s)) (cs_book s)
      in \<lparr>fs_oid = cs_oid s, fs_size = ao_size req, fs_address = ao_address req,
          fs_filled_size = ao_size req - rem, fs_fills = fills\<rparr>)"

lemma add_order_cases:
  assumes "book_ok (cs_book s)"
  shows "add_order req s =
    (if accepted req s then
       Some (\<lparr>ar_success = True, ar_status = Some (taker_status req s)\<rparr>,
         (if fst (spec_limit (to_order req (cs_oid s)) (cs_book s)) \<noteq> 0
          then (fst (settled req s))\<lparr>cs_status := (cs_status (fst (settled req s)))(cs_oid s \<mapsto> taker_status req s)\<rparr>
          else fst (settled req s)),
         snd (settled req s))
     else Some (add_failed,
       (if ao_address req \<in> dom (cs_base s) \<inter> dom (cs_quote s) then next_id_state s else s), [Noop]))"
proof -
  obtain rem fills book where l: "spec_limit (to_order req (cs_oid s)) (cs_book s) = (rem, fills, book)"
    by (metis prod_cases3)
  obtain s' create where c: "lock_funds req (to_order req (cs_oid s)) (next_id_state s) = (s', create)"
    by force
  have b: "cs_book s' = cs_book s"
    using arg_cong [OF c, of "\<lambda>x. cs_book (fst x)"] by (simp add: next_id_state_def)
  note lim = limit_eq_spec [OF book_ok_bt [OF assms]]
  show ?thesis
    using c b l
    by (auto simp: add_order_def accepted_def settled_def taker_status_def lim Let_def
        order_quote_size_def not_less next_id_state_def split: option.splits prod.splits)
qed

section \<open>Order ids, accounts and the book under \<open>tick\<close>\<close>

lemma next_id_state_sel [simp]:
  "cs_oid (next_id_state s) = cs_oid s + 1" "cs_base (next_id_state s) = cs_base s"
  "cs_quote (next_id_state s) = cs_quote s" "cs_book (next_id_state s) = cs_book s"
  "cs_status (next_id_state s) = cs_status s"
  by (simp_all add: next_id_state_def)

lemma settled_frame:
  "cs_oid (fst (settled req s)) = cs_oid s + 1"
  "cs_book (fst (settled req s)) = snd (snd (spec_limit (to_order req (cs_oid s)) (cs_book s)))"
  "dom (cs_base (fst (settled req s))) = dom (cs_base s)"
  "dom (cs_quote (fst (settled req s))) = dom (cs_quote s)"
  by (simp_all add: settled_def Let_def settle_fills_frame split: prod.splits)
    (metis fst_conv lock_funds_frame next_id_state_sel)+

lemma settled_status: "dom (cs_status (fst (settled req s))) \<subseteq> dom (cs_status s)"
proof -
  obtain rem fills book where l: "spec_limit (to_order req (cs_oid s)) (cs_book s) = (rem, fills, book)"
    by (metis prod_cases3)
  obtain s' create where c: "lock_funds req (to_order req (cs_oid s)) (next_id_state s) = (s', create)"
    by force
  have "cs_status s' = cs_status s" using arg_cong [OF c, of "\<lambda>x. cs_status (fst x)"] by simp
  then show ?thesis
    using settle_fills_status [of req fills "(s'\<lparr>cs_book := book\<rparr>, [create])"]
    by (simp add: settled_def l c Let_def)
qed

lemma state_ok_step:
  assumes "state_ok s" and "book_ok (cs_book s')" and "dom (cs_base s') = dom (cs_quote s')"
    and "used_ids s' \<subseteq> used_ids s" and "cs_oid s \<le> cs_oid s'"
  shows "state_ok s'"
  using assms unfolding state_ok_def by (meson order.strict_trans2 subsetD)

lemma state_ok_add_order:
  assumes ok: "state_ok s" and id: "cs_oid s + 1 \<noteq> 0" and a: "add_order req s = Some (resp, s', ds)"
  shows "state_ok s' \<and> cs_oid s \<le> cs_oid s'"
proof -
  have bok: "book_ok (cs_book s)" using ok by (simp add: state_ok_def)
  have lt: "cs_oid s < cs_oid s + 1" using id by (rule word_less_succ)
  let ?x = "to_order req (cs_oid s)"
  let ?b = "snd (snd (spec_limit ?x (cs_book s)))"
  show ?thesis
  proof (cases "accepted req s")
    case True
    have fresh: "ord_oid ?x \<notin> ord_oid ` set (book_orders (cs_book s))"
      using ok by (auto simp: state_ok_def used_ids_def)
    from a have s': "s' = fst (settled req s) \<or>
        s' = (fst (settled req s))\<lparr>cs_status := (cs_status (fst (settled req s)))(cs_oid s \<mapsto> taker_status req s)\<rparr>"
      by (auto simp: add_order_cases [OF bok] True split: if_splits)
    then have sel: "cs_book s' = ?b" "cs_oid s' = cs_oid s + 1" "dom (cs_base s') = dom (cs_quote s')"
      using ok by (elim disjE; simp add: settled_frame state_ok_def)+
    have "dom (cs_status s') \<subseteq> insert (cs_oid s) (dom (cs_status s))"
      using s' settled_status [of req s] by (elim disjE) (simp_all, blast+)
    moreover have "ord_oid ` set (book_orders ?b) \<subseteq> insert (cs_oid s) (ord_oid ` set (book_orders (cs_book s)))"
      using oids_spec_limit [OF bok, of ?x] by simp
    ultimately have "used_ids s' \<subseteq> insert (cs_oid s) (used_ids s)"
      unfolding used_ids_def sel by blast
    moreover have "\<forall>i \<in> insert (cs_oid s) (used_ids s). i < cs_oid s + 1"
      using ok lt by (auto simp: state_ok_def dest: order.strict_trans)
    ultimately have "\<forall>i \<in> used_ids s'. i < cs_oid s'" unfolding sel by blast
    then show ?thesis using book_ok_limit [OF bok fresh] lt sel by (simp add: state_ok_def)
  next
    case False
    with a consider "s' = s" | "s' = next_id_state s"
      by (auto simp: add_order_cases [OF bok] split: if_splits)
    then show ?thesis
    proof cases
      case 2
      then have "state_ok s'"
        using ok lt by (intro state_ok_step [OF ok]) (simp_all add: state_ok_def used_ids_def)
      with 2 lt show ?thesis by simp
    qed (simp add: ok)
  qed
qed

lemma state_ok_cancel_order:
  assumes ok: "state_ok s" and c: "cancel_order req s = (resp, s', d)"
  shows "state_ok s' \<and> cs_oid s' = cs_oid s"
proof -
  have bok: "book_ok (cs_book s)" using ok by (simp add: state_ok_def)
  have sel: "cs_oid s' = cs_oid s" "cs_book s' = snd (cancel (co_oid req) (cs_book s))"
    and st: "dom (cs_status s') \<subseteq> dom (cs_status s)"
    using c by (auto simp: cancel_order_def Let_def split: prod.splits option.splits if_splits)
  have dom: "dom (cs_base s') = dom (cs_base s)" "dom (cs_quote s') = dom (cs_quote s)"
    using c by (auto simp: cancel_order_def Let_def split: prod.splits option.splits if_splits)
  have b: "book_ok (cs_book s') \<and> set (book_orders (cs_book s')) \<subseteq> set (book_orders (cs_book s))"
  proof (cases "co_oid req \<in> ord_oid ` set (book_orders (cs_book s))")
    case True
    then obtain x where x: "x \<in> set (book_orders (cs_book s))" "ord_oid x = co_oid req" by auto
    from cancel_present [OF bok x(1)] obtain b' where b': "cancel (co_oid req) (cs_book s) = (Some x, b')"
      "book_ok b'" "mset (book_orders (cs_book s)) = add_mset x (mset (book_orders b'))"
      unfolding x(2) by blast
    show ?thesis using b'(1,2) set_mset_level [OF b'(3)] by (simp add: sel(2) subset_insertI)
  next
    case False
    then show ?thesis using cancel_absent [OF bok] bok unfolding sel by simp
  qed
  have "state_ok s'"
  proof (rule state_ok_step [OF ok])
    show "dom (cs_base s') = dom (cs_quote s')" using ok by (simp add: dom state_ok_def)
    show "used_ids s' \<subseteq> used_ids s" using b st unfolding used_ids_def by blast
  qed (use b sel in simp_all)
  with sel show ?thesis by simp
qed

lemma deposit_eq:
  "deposit req s = (\<lparr>dr_success = True\<rparr>,
     s\<lparr>cs_base := and_modify_or_insert (dep_address req) (add_free (dep_base_free req))
          \<lparr>ab_free = dep_base_free req, ab_locked = 0\<rparr> (cs_base s),
       cs_quote := and_modify_or_insert (dep_address req) (add_free (dep_quote_free req))
          \<lparr>ab_free = dep_quote_free req, ab_locked = 0\<rparr> (cs_quote s)\<rparr>,
     DDeposit (dep_address req) (dep_base_free req) (dep_quote_free req))"
  by (simp add: deposit_def Let_def)

lemma state_ok_deposit: "state_ok s \<Longrightarrow> deposit req s = (resp, s', d) \<Longrightarrow> state_ok s' \<and> cs_oid s' = cs_oid s"
  unfolding deposit_eq state_ok_def by (clarsimp simp: used_ids_def simp del: Un_iff)

lemma state_ok_withdraw:
  assumes ok: "state_ok s" and w: "withdraw req s = (resp, s', d)"
  shows "state_ok s' \<and> cs_oid s' = cs_oid s"
proof -
  have "dom (cs_base s) = dom (cs_quote s)" using ok by (simp add: state_ok_def)
  with w have "cs_oid s' = cs_oid s" "cs_book s' = cs_book s" "cs_status s' = cs_status s"
    and d: "dom (cs_base s') = dom (cs_quote s')"
    by (clarsimp simp: withdraw_def Let_def split: if_splits option.splits)+
  with ok show ?thesis by (simp add: state_ok_def used_ids_def)
qed

lemma tick_total:
  assumes "state_ok s"
  obtains resp s' ds where "tick req s = Some (resp, s', ds)"
proof -
  have "book_ok (cs_book s)" using assms by (simp add: state_ok_def)
  then have "tick req s \<noteq> None"
    by (cases req) (simp_all add: add_order_cases split: prod.splits)
  with that show ?thesis by (metis not_Some_eq prod_cases3)
qed

lemma state_ok_tick:
  "state_ok s \<Longrightarrow> cs_oid s + 1 \<noteq> 0 \<Longrightarrow> tick req s = Some (resp, s', ds) \<Longrightarrow>
     state_ok s' \<and> cs_oid s \<le> cs_oid s'"
  by (cases req) (auto split: prod.splits option.splits dest: state_ok_add_order state_ok_cancel_order
      state_ok_deposit state_ok_withdraw)

text \<open>
  C30. A request never makes the engine panic and never breaks its state: from a well-formed state
  (and before the 64-bit order ids run out) \<open>tick\<close> returns, the next state is well formed, and the
  next order id does not go down.
\<close>

theorem tick_keeps_state_ok:
  assumes "state_ok s" and "cs_oid s + 1 \<noteq> 0"
  shows "\<exists>resp s' ds. tick req s = Some (resp, s', ds) \<and> state_ok s' \<and> cs_oid s \<le> cs_oid s'"
  using tick_total [OF assms(1), of req] state_ok_tick [OF assms] by metis

theorem tick_keeps_state_ok_witness:
  "\<exists>resp s' ds. tick (AddOrder \<lparr>ao_address = 1, ao_is_buy = True, ao_limit_price = 2, ao_size = 3\<rparr>)
     default_clob_state = Some (resp, s', ds) \<and> state_ok s' \<and> cs_oid default_clob_state \<le> cs_oid s'"
  by (rule tick_keeps_state_ok [OF state_ok_default]) (simp add: default_clob_state_def)

section \<open>Conservation of funds\<close>

text \<open>All funds of one asset, free and locked, over all accounts (modulo the 64 bits).\<close>

definition held :: "(address \<rightharpoonup> asset_balance) \<Rightarrow> address \<Rightarrow> u64" where
  "held m a = (case m a of None \<Rightarrow> 0 | Some b \<Rightarrow> ab_free b + ab_locked b)"

definition total_held :: "(address \<rightharpoonup> asset_balance) \<Rightarrow> u64" where
  "total_held m = (\<Sum>a \<in> UNIV. held m a)"

lemma held_fun_upd:
  "held (m(k := x)) = (held m)(k := (case x of None \<Rightarrow> 0 | Some b \<Rightarrow> ab_free b + ab_locked b))"
  by (auto simp: held_def fun_eq_iff)

lemma sum_fun_upd: "(\<Sum>a \<in> UNIV. (f(k := v)) a) = (\<Sum>a \<in> UNIV. f a) + v - f k"
  for f :: "'a::finite \<Rightarrow> 'b::ab_group_add"
proof -
  have "(\<Sum>a \<in> UNIV. g a) = g k + (\<Sum>a \<in> UNIV - {k}. g a)" for g :: "'a \<Rightarrow> 'b"
    by (simp add: sum.remove)
  from this [of f] this [of "f(k := v)"] show ?thesis by simp
qed

lemma total_held_fun_upd:
  "total_held (m(k := x)) = total_held m + (case x of None \<Rightarrow> 0 | Some b \<Rightarrow> ab_free b + ab_locked b) - held m k"
  unfolding total_held_def held_fun_upd by (rule sum_fun_upd)

lemma total_held_and_modify:
  assumes "\<And>b. ab_free (f b) + ab_locked (f b) = ab_free b + ab_locked b + v"
  shows "total_held (and_modify k f m) = total_held m + (if k \<in> dom m then v else 0)"
  unfolding and_modify_def total_held_fun_upd
  by (cases "m k") (auto simp: held_def assms algebra_simps domIff)

lemma held_steps [simp]:
  "ab_free (add_free v b) + ab_locked (add_free v b) = ab_free b + ab_locked b + v"
  "ab_free (sub_locked v b) + ab_locked (sub_locked v b) = ab_free b + ab_locked b + - v"
  "ab_free (lock_amount v b) + ab_locked (lock_amount v b) = ab_free b + ab_locked b + 0"
  "ab_free (unlock_amount v b) + ab_locked (unlock_amount v b) = ab_free b + ab_locked b + 0"
  by (simp_all add: add_free_def sub_locked_def lock_amount_def unlock_amount_def algebra_simps)

lemmas total_held_steps =
  total_held_and_modify [OF held_steps(1)] total_held_and_modify [OF held_steps(2)]
  total_held_and_modify [OF held_steps(3)]

text \<open>Every order that rests in the book belongs to an account.\<close>

definition makers_funded :: "clob_state \<Rightarrow> bool" where
  "makers_funded s \<longleftrightarrow> (\<forall>x \<in> set (book_orders (cs_book s)).
     ord_address x \<in> dom (cs_base s) \<and> ord_address x \<in> dom (cs_quote s))"

definition fill_accounts :: "order_fill list \<Rightarrow> clob_state \<Rightarrow> bool" where
  "fill_accounts fills s \<longleftrightarrow> (\<forall>f \<in> set fills.
     {fl_buyer f, fl_seller f} \<subseteq> dom (cs_base s) \<inter> dom (cs_quote s))"

lemma settle_balances_total:
  assumes "ao_address req \<in> dom (cs_base s) \<inter> dom (cs_quote s)" and "fill_accounts [f] s"
  shows "total_held (cs_base (settle_balances req f s)) = total_held (cs_base s)"
    and "total_held (cs_quote (settle_balances req f s)) = total_held (cs_quote s)"
  using assms by (simp_all add: settle_balances_def total_held_steps fill_accounts_def Let_def)

lemma settle_fills_total:
  assumes "ao_address req \<in> dom (cs_base (fst sc)) \<inter> dom (cs_quote (fst sc))"
    and "fill_accounts fills (fst sc)"
  shows "total_held (cs_base (fst (fold (settle_fill req) fills sc))) = total_held (cs_base (fst sc)) \<and>
    total_held (cs_quote (fst (fold (settle_fill req) fills sc))) = total_held (cs_quote (fst sc))"
  using assms
proof (induction fills arbitrary: sc)
  case (Cons f fills)
  have 1: "ao_address req \<in> dom (cs_base (fst (settle_fill req f sc))) \<inter> dom (cs_quote (fst (settle_fill req f sc)))"
    "fill_accounts fills (fst (settle_fill req f sc))" "fill_accounts [f] (fst sc)"
    using Cons.prems by (simp_all add: fill_accounts_def)
  show ?case
    using Cons.IH [OF 1(1,2)] settle_balances_total [OF Cons.prems(1) 1(3)] by simp
qed simp

lemma spec_fills_accounts:
  assumes "book_ok (cs_book s)" and "makers_funded s"
    and "ao_address req \<in> dom (cs_base s) \<inter> dom (cs_quote s)"
  shows "fill_accounts (spec_fills (to_order req i) (crossing_makers (to_order req i) (cs_book s))) s"
proof -
  let ?ms = "crossing_makers (to_order req i) (cs_book s)"
  have "{fl_buyer f, fl_seller f} \<subseteq> dom (cs_base s) \<inter> dom (cs_quote s)"
    if "f \<in> set (spec_fills (to_order req i) ?ms)" for f
  proof -
    from that obtain m k where m: "m \<in> set ?ms" and f: "f = maker_fill i (ao_is_buy req) (ao_address req) m k"
      by (rule spec_fills_cases) simp
    have "ord_address m \<in> dom (cs_base s) \<inter> dom (cs_quote s)"
      using assms(2) crossing_makers_mem(1) [OF assms(1) m] by (simp add: makers_funded_def)
    with assms(3) show ?thesis by (cases "ao_is_buy req") (simp_all add: f)
  qed
  then show ?thesis by (simp add: fill_accounts_def)
qed

lemma fill_accounts_cong:
  "dom (cs_base s) = dom (cs_base s') \<Longrightarrow> dom (cs_quote s) = dom (cs_quote s') \<Longrightarrow>
     fill_accounts fills s = fill_accounts fills s'"
  by (simp add: fill_accounts_def)

lemma accepted_account: "accepted req s \<Longrightarrow> ao_address req \<in> dom (cs_base s) \<inter> dom (cs_quote s)"
  by (auto simp: accepted_def)

lemma settled_eq:
  "settled req s = (let x = to_order req (cs_oid s) in
     fold (settle_fill req) (spec_fills x (crossing_makers x (cs_book s)))
       ((fst (lock_funds req x (next_id_state s)))\<lparr>cs_book := snd (snd (spec_limit x (cs_book s)))\<rparr>,
        [snd (lock_funds req x (next_id_state s))]))"
  by (simp add: settled_def spec_limit_def Let_def split: prod.splits)

lemma lock_funds_total:
  "total_held (cs_base (fst (lock_funds req x s))) = total_held (cs_base s)"
  "total_held (cs_quote (fst (lock_funds req x s))) = total_held (cs_quote s)"
  by (simp_all add: lock_funds_def total_held_steps)

lemma settled_total:
  assumes "book_ok (cs_book s)" and "makers_funded s" and "accepted req s"
  shows "total_held (cs_base (fst (settled req s))) = total_held (cs_base s) \<and>
    total_held (cs_quote (fst (settled req s))) = total_held (cs_quote s)"
proof -
  let ?x = "to_order req (cs_oid s)"
  let ?s = "(fst (lock_funds req ?x (next_id_state s)))\<lparr>cs_book := snd (snd (spec_limit ?x (cs_book s)))\<rparr>"
  let ?fills = "spec_fills ?x (crossing_makers ?x (cs_book s))"
  have a: "ao_address req \<in> dom (cs_base s) \<inter> dom (cs_quote s)" by (rule accepted_account [OF assms(3)])
  have "fill_accounts ?fills ?s"
    using spec_fills_accounts [OF assms(1,2) a, of "cs_oid s"] fill_accounts_cong [of ?s s ?fills] by simp
  with a settle_fills_total [of req "(?s, [snd (lock_funds req ?x (next_id_state s))])" ?fills]
  show ?thesis by (simp add: settled_eq lock_funds_total Let_def)
qed

definition base_flow :: "request \<Rightarrow> response \<Rightarrow> u64" where
  "base_flow req resp = (case req of
     Deposit r \<Rightarrow> dep_base_free r
   | Withdraw r \<Rightarrow> if resp_success resp then - wd_base_free r else 0
   | _ \<Rightarrow> 0)"

definition quote_flow :: "request \<Rightarrow> response \<Rightarrow> u64" where
  "quote_flow req resp = (case req of
     Deposit r \<Rightarrow> dep_quote_free r
   | Withdraw r \<Rightarrow> if resp_success resp then - wd_quote_free r else 0
   | _ \<Rightarrow> 0)"

lemma total_held_deposit:
  "total_held (and_modify_or_insert a (add_free v) \<lparr>ab_free = v, ab_locked = 0\<rparr> m) = total_held m + v"
  unfolding and_modify_or_insert_def total_held_fun_upd
  by (cases "m a") (simp_all add: held_def add_free_def)

lemma total_held_withdraw:
  "m a = Some b \<Longrightarrow> total_held (m(a \<mapsto> b\<lparr>ab_free := ab_free b - v\<rparr>)) = total_held m - v"
  unfolding total_held_fun_upd by (simp add: held_def)

lemma total_held_drop_default: "m a = Some default_balance \<Longrightarrow> total_held (m(a := None)) = total_held m"
  unfolding total_held_fun_upd by (simp add: held_def)

lemma withdraw_total:
  assumes "withdraw req s = (resp, s', d)"
  shows "total_held (cs_base s') = total_held (cs_base s) - (if wr_success resp then wd_base_free req else 0) \<and>
    total_held (cs_quote s') = total_held (cs_quote s) - (if wr_success resp then wd_quote_free req else 0)"
proof -
  let ?a = "wd_address req"
  have drop: "total_held (m(?a := None)) = total_held m - v"
    if "m ?a = Some b" "b\<lparr>ab_free := ab_free b - v\<rparr> = default_balance" for m b v
    using total_held_withdraw [of m ?a b v] that total_held_drop_default [of "m(?a \<mapsto> default_balance)" ?a]
    by simp
  show ?thesis
    using assms drop [of "cs_base s"] drop [of "cs_quote s"]
    by (auto simp: withdraw_def Let_def total_held_withdraw split: if_splits option.splits)
qed

lemma total_held_unlock:
  "m a = Some b \<Longrightarrow> total_held (m(a \<mapsto> unlock_amount v b)) = total_held m"
  unfolding total_held_fun_upd by (simp add: held_def)

lemma cancel_order_total:
  "cancel_order req s = (resp, s', d) \<Longrightarrow>
     total_held (cs_base s') = total_held (cs_base s) \<and> total_held (cs_quote s') = total_held (cs_quote s)"
  by (auto simp: cancel_order_def Let_def total_held_unlock split: prod.splits option.splits if_splits)


text \<open>A state for the witnesses: the book \<open>sample_book\<close> with funded accounts 5, 6 and 7.\<close>

definition sample_state :: clob_state where
  "sample_state = \<lparr>cs_oid = 20,
     cs_base = [5 \<mapsto> \<lparr>ab_free = 1, ab_locked = 2\<rparr>, 6 \<mapsto> \<lparr>ab_free = 0, ab_locked = 14\<rparr>, 7 \<mapsto> default_balance],
     cs_quote = [5 \<mapsto> \<lparr>ab_free = 0, ab_locked = 2\<rparr>, 6 \<mapsto> default_balance, 7 \<mapsto> \<lparr>ab_free = 100, ab_locked = 0\<rparr>],
     cs_book = sample_book,
     cs_status = [12 \<mapsto> \<lparr>fs_oid = 12, fs_size = 5, fs_address = 6, fs_filled_size = 0, fs_fills = []\<rparr>]\<rparr>"

lemma sample_orders:
  "book_orders sample_book = [sample_order True 2 1 13 5, sample_order False 4 2 11 5,
     sample_order False 4 5 12 6, sample_order False 6 9 14 6]"
  by (simp add: book_orders_def sample_book_def)

lemma state_ok_sample: "state_ok sample_state"
  by (simp add: state_ok_def used_ids_def sample_state_def book_ok_sample sample_orders sample_order_def insert_commute)

lemma makers_funded_sample: "makers_funded sample_state"
  by (simp add: makers_funded_def sample_state_def sample_orders sample_order_def)

definition sample_buy :: add_order_request where
  "sample_buy = \<lparr>ao_address = 7, ao_is_buy = True, ao_limit_price = 5, ao_size = 8\<rparr>"


section \<open>Failed requests and round trips\<close>

text \<open>
  A request that reports failure moves no funds: both balance maps are unchanged and the only
  reported diff is \<open>Noop\<close>. A request that reports success reports no \<open>Noop\<close>.
\<close>

theorem failed_request_moves_nothing:
  assumes "state_ok s" and "tick req s = Some (resp, s', ds)"
  shows "if resp_success resp then Noop \<notin> set ds
    else cs_base s' = cs_base s \<and> cs_quote s' = cs_quote s \<and> ds = [Noop]"
proof -
  have bok: "book_ok (cs_book s)" using assms(1) by (simp add: state_ok_def)
  show ?thesis
  proof (cases req)
    case (AddOrder r)
    have "Noop \<notin> set (snd (settled r s))"
      by (simp add: settled_eq settle_fills_snd Let_def fill_diff_def lock_funds_def image_iff)
    with assms(2) AddOrder show ?thesis
      by (auto simp: add_order_cases [OF bok] add_failed_def split: if_splits)
  next
    case (CancelOrder r)
    with assms(2) show ?thesis
      by (auto simp: cancel_order_def cancel_failed_def Let_def split: prod.splits option.splits if_splits)
  next
    case (Deposit r)
    with assms(2) show ?thesis by (auto simp: deposit_eq)
  next
    case (Withdraw r)
    with assms(2) show ?thesis
      by (auto simp: withdraw_def Let_def split: prod.splits option.splits if_splits)
  qed
qed

theorem failed_request_moves_nothing_witness:
  "\<exists>resp s' ds. tick (Withdraw \<lparr>wd_address = 5, wd_base_free = 2, wd_quote_free = 0\<rparr>) sample_state =
     Some (resp, s', ds) \<and> \<not> resp_success resp \<and> cs_base s' = cs_base sample_state \<and> ds = [Noop]"
proof -
  obtain resp s' ds where t: "tick (Withdraw \<lparr>wd_address = 5, wd_base_free = 2, wd_quote_free = 0\<rparr>)
      sample_state = Some (resp, s', ds)"
    using tick_total [OF state_ok_sample] .
  moreover have "\<not> resp_success resp"
    using t by (simp add: withdraw_def sample_state_def Let_def split: prod.splits if_splits) auto
  ultimately show ?thesis using failed_request_moves_nothing [OF state_ok_sample t] by simp
qed

text \<open>
  Depositing and withdrawing the same amounts is the identity on the whole state, both for a
  new account (the account disappears again) and for an existing one with some balance, as long
  as the free balances do not exceed 64 bits.
\<close>

theorem deposit_withdraw_roundtrip:
  assumes "case (cs_base s a, cs_quote s a) of
      (None, None) \<Rightarrow> True
    | (Some b, Some q) \<Rightarrow> (b \<noteq> default_balance \<or> q \<noteq> default_balance) \<and>
        unat (ab_free b) + unat x < 2 ^ 64 \<and> unat (ab_free q) + unat y < 2 ^ 64
    | _ \<Rightarrow> False"
  shows "\<exists>d. withdraw \<lparr>wd_address = a, wd_base_free = x, wd_quote_free = y\<rparr>
      (fst (snd (deposit \<lparr>dep_address = a, dep_base_free = x, dep_quote_free = y\<rparr> s))) =
      (\<lparr>wr_success = True\<rparr>, s, d)"
proof (cases "cs_base s a")
  case None
  with assms have q: "cs_quote s a = None" by (simp split: option.splits)
  from None q have m: "(cs_base s)(a := None) = cs_base s" "(cs_quote s)(a := None) = cs_quote s"
    by auto
  with None q show ?thesis
    by (simp add: deposit_eq withdraw_def Let_def default_balance_def and_modify_or_insert_def)
next
  case (Some b)
  with assms obtain q where q: "cs_quote s a = Some q" by (auto split: option.splits)
  have ge: "v \<le> w + v" if "unat w + unat v < 2 ^ 64" for v w :: u64
    using that by (simp add: word_le_nat_alt unat_add_lem [where 'a = 64, simplified])
  have "\<not> ab_free b + x < x" "\<not> ab_free q + y < y" "b \<noteq> default_balance \<or> q \<noteq> default_balance"
    using assms Some q ge by (auto simp: not_less)
  moreover have "(cs_base s)(a \<mapsto> b) = cs_base s" "(cs_quote s)(a \<mapsto> q) = cs_quote s"
    using Some q by auto
  ultimately show ?thesis
    using Some q by (auto simp: deposit_eq withdraw_def Let_def add_free_def and_modify_or_insert_def)
qed

theorem deposit_withdraw_roundtrip_witness:
  "\<exists>d. withdraw \<lparr>wd_address = 7, wd_base_free = 3, wd_quote_free = 4\<rparr>
      (fst (snd (deposit \<lparr>dep_address = 7, dep_base_free = 3, dep_quote_free = 4\<rparr> sample_state))) =
      (\<lparr>wr_success = True\<rparr>, sample_state, d)"
  by (rule deposit_withdraw_roundtrip) (simp add: sample_state_def default_balance_def)

lemma no_fills_no_makers:
  assumes "book_ok b" and "spec_fills x (crossing_makers x b) = []" and "0 < ord_size x"
  shows "crossing_makers x b = []"
  using assms(2,3) by (cases "crossing_makers x b") (auto simp: spec_fills_def word_pos_iff Let_def)

lemma unlock_lock [simp]: "unlock_amount v (lock_amount v b) = b"
  by (simp add: unlock_amount_def lock_amount_def)

text \<open>
  Placing an order that meets no counter-order and cancelling it refunds it exactly: the
  cancellation succeeds and every balance, the fill statuses and the resting orders are what they
  were before the order; only the order id is used up.
\<close>

theorem add_cancel_roundtrip:
  assumes ok: "state_ok s"
    and add: "add_order req s = Some (\<lparr>ar_success = True, ar_status = Some st\<rparr>, s1, ds)"
    and no: "fs_fills st = []" and pos: "0 < ao_size req"
  shows "\<exists>s2 d. cancel_order \<lparr>co_oid = cs_oid s\<rparr> s1 = (\<lparr>cr_success = True, cr_fill_status = Some st\<rparr>, s2, d) \<and>
    cs_base s2 = cs_base s \<and> cs_quote s2 = cs_quote s \<and> cs_status s2 = cs_status s \<and>
    mset (book_orders (cs_book s2)) = mset (book_orders (cs_book s)) \<and> cs_oid s2 = cs_oid s + 1"
proof -
  let ?x = "to_order req (cs_oid s)" and ?s = "next_id_state s"
  have bok: "book_ok (cs_book s)" using ok by (simp add: state_ok_def)
  have acc: "accepted req s" and st: "st = taker_status req s"
    using add by (auto simp: add_order_cases [OF bok] add_failed_def split: if_splits)
  have nof: "spec_fills ?x (crossing_makers ?x (cs_book s)) = []"
    using no by (simp add: st taker_status_def spec_limit_def Let_def)
  have nom: "crossing_makers ?x (cs_book s) = []" using no_fills_no_makers [OF bok nof] pos by simp
  let ?b1 = "enqueue_order ?x (spec_book ?x (cs_book s))"
  have lim: "spec_limit ?x (cs_book s) = (ao_size req, [], ?b1)"
    using pos nof by (simp add: spec_limit_def nom word_pos_iff)
  have s1: "s1 = (fst (lock_funds req ?x ?s))\<lparr>cs_book := ?b1, cs_status := (cs_status s)(cs_oid s \<mapsto> st)\<rparr>"
    using add pos by (auto simp: add_order_cases [OF bok] acc lim settled_eq nof st Let_def split: if_splits)
  have fresh: "cs_oid s \<notin> used_ids s" using ok by (auto simp: state_ok_def)
  have b1: "book_ok ?b1"
    using book_ok_limit [OF bok, of ?x] fresh by (simp add: lim used_ids_def)
  have m1: "mset (book_orders ?b1) = add_mset ?x (mset (book_orders (cs_book s)))"
  proof -
    have "book_orders (spec_book ?x (cs_book s)) = book_orders (cs_book s)"
      using book_orders_spec_book [of "cs_book s" ?x] by (auto simp: nom)
    then show ?thesis
      using mset_enqueue [of "spec_book ?x (cs_book s)" ?x] book_ok_bt [OF book_ok_spec_book [OF bok]] by simp
  qed
  obtain b2 where b2: "cancel (cs_oid s) ?b1 = (Some ?x, b2)" "mset (book_orders ?b1) = add_mset ?x (mset (book_orders b2))"
    using cancel_present [OF b1, of ?x] set_mset_level [OF m1] by auto
  have stat: "(cs_status s)(cs_oid s := None) = cs_status s"
    using fresh by (auto simp: used_ids_def)
  have zero: "fs_filled_size st = 0" "filled_quote st = 0"
    by (simp_all add: st taker_status_def lim filled_quote_def)
  obtain bb bq where bal: "cs_base s (ao_address req) = Some bb" "cs_quote s (ao_address req) = Some bq"
    using acc by (auto simp: accepted_def)
  have same: "m(k := m k) = m" for m :: "address \<rightharpoonup> asset_balance" and k by simp
  show ?thesis
    using b2 m1 bal stat zero same [of "cs_base s" "ao_address req"] same [of "cs_quote s" "ao_address req"]
    by (simp add: s1 cancel_order_def lock_funds_def and_modify_def Let_def del: fun_upd_triv)
qed

theorem add_cancel_roundtrip_witness:
  "\<exists>s1 s2 d. cancel_order \<lparr>co_oid = 20\<rparr> s1 = s2 \<and> cs_base (fst (snd s2)) = cs_base sample_state \<and>
     add_order \<lparr>ao_address = 7, ao_is_buy = True, ao_limit_price = 3, ao_size = 8\<rparr> sample_state =
       Some d \<and> fst (snd d) = s1 \<and> cr_success (fst s2)"
proof -
  let ?r = "\<lparr>ao_address = 7, ao_is_buy = True, ao_limit_price = 3, ao_size = 8\<rparr> :: add_order_request"
  have bok: "book_ok (cs_book sample_state)" using state_ok_sample by (simp add: state_ok_def)
  have acc: "accepted ?r sample_state"
    by (simp add: accepted_def sample_state_def default_balance_def)
  obtain s1 ds where a: "add_order ?r sample_state =
      Some (\<lparr>ar_success = True, ar_status = Some (taker_status ?r sample_state)\<rparr>, s1, ds)"
    unfolding add_order_cases [OF bok] using acc by simp
  have "fs_fills (taker_status ?r sample_state) = []"
    by (simp add: taker_status_def spec_limit_def sample_state_def sample_book_def crossing_makers_def spec_fills_def)
  from add_cancel_roundtrip [OF state_ok_sample a this] obtain s2 d where
    "cancel_order \<lparr>co_oid = cs_oid sample_state\<rparr> s1 =
       (\<lparr>cr_success = True, cr_fill_status = Some (taker_status ?r sample_state)\<rparr>, s2, d)"
    "cs_base s2 = cs_base sample_state" by auto
  with a show ?thesis by (auto simp: sample_state_def)
qed

section \<open>The diffs explain the balances\<close>

datatype field = FreeBase | LockedBase | FreeQuote | LockedQuote

definition balance :: "clob_state \<Rightarrow> field \<Rightarrow> address \<Rightarrow> u64" where
  "balance s fd a =
     (let base = (case cs_base s a of None \<Rightarrow> default_balance | Some b \<Rightarrow> b);
          quote = (case cs_quote s a of None \<Rightarrow> default_balance | Some b \<Rightarrow> b)
      in case fd of FreeBase \<Rightarrow> ab_free base | LockedBase \<Rightarrow> ab_locked base
         | FreeQuote \<Rightarrow> ab_free quote | LockedQuote \<Rightarrow> ab_locked quote)"

text \<open>What one diff says happened to one balance of one account.\<close>

definition move :: "int \<Rightarrow> int \<Rightarrow> int \<Rightarrow> int \<Rightarrow> field \<Rightarrow> int" where
  "move free_base locked_base free_quote locked_quote fd = (case fd of
     FreeBase \<Rightarrow> free_base | LockedBase \<Rightarrow> locked_base | FreeQuote \<Rightarrow> free_quote | LockedQuote \<Rightarrow> locked_quote)"

fun diff_effect :: "diff \<Rightarrow> field \<Rightarrow> address \<Rightarrow> int" where
  "diff_effect (DWithdraw user b q) fd a = (if a = user then move (- uint b) 0 (- uint q) 0 fd else 0)"
| "diff_effect (DDeposit user b q) fd a = (if a = user then move (uint b) 0 (uint q) 0 fd else 0)"
| "diff_effect (DFill buyer seller b q) fd a =
     (if a = buyer then move (uint b) 0 0 (- uint q) fd else 0) +
     (if a = seller then move 0 (- uint b) (uint q) 0 fd else 0)"
| "diff_effect (DCancel user b q) fd a =
     (if a = user then move (uint b) (- uint b) (uint q) (- uint q) fd else 0)"
| "diff_effect (DCreate user b q) fd a =
     (if a = user then move (- uint b) (uint b) (- uint q) (uint q) fd else 0)"
| "diff_effect Noop fd a = 0"

definition total_effect :: "diff list \<Rightarrow> field \<Rightarrow> address \<Rightarrow> int" where
  "total_effect ds fd a = (\<Sum>d \<leftarrow> ds. diff_effect d fd a)"

lemma total_effect_simps [simp]:
  "total_effect [] fd a = 0" "total_effect (d # ds) fd a = diff_effect d fd a + total_effect ds fd a"
  "total_effect (ds @ es) fd a = total_effect ds fd a + total_effect es fd a"
  by (simp_all add: total_effect_def)

lemma balance_upd [simp]:
  "balance (s\<lparr>cs_status := m\<rparr>) = balance s" "balance (s\<lparr>cs_book := b\<rparr>) = balance s"
  "balance (s\<lparr>cs_oid := i\<rparr>) = balance s" "balance (next_id_state s) = balance s"
  by (simp_all add: balance_def fun_eq_iff next_id_state_def)

lemmas effect_defs = balance_def move_def default_balance_def Let_def

lemma settle_balances_effect:
  assumes "ao_address req \<in> dom (cs_base s) \<inter> dom (cs_quote s)" and "fill_accounts [f] s"
  shows "balance (settle_balances req f s) fd a = balance s fd a + of_int (diff_effect (fill_diff req f) fd a)"
proof -
  from assms obtain bb bq sb sq tb tq where
    "cs_base s (ao_address req) = Some bb" "cs_quote s (ao_address req) = Some bq"
    "cs_base s (fl_seller f) = Some sb" "cs_quote s (fl_seller f) = Some sq"
    "cs_base s (fl_buyer f) = Some tb" "cs_quote s (fl_buyer f) = Some tq"
    by (auto simp: fill_accounts_def)
  then show ?thesis
    by (cases fd) (auto simp: settle_balances_def fill_diff_def effect_defs add_free_def sub_locked_def)
qed

lemma settle_fills_effect:
  assumes "ao_address req \<in> dom (cs_base (fst sc)) \<inter> dom (cs_quote (fst sc))"
    and "fill_accounts fills (fst sc)"
  shows "balance (fst (fold (settle_fill req) fills sc)) fd a =
    balance (fst sc) fd a + of_int (total_effect (map (fill_diff req) fills) fd a)"
  using assms
proof (induction fills arbitrary: sc)
  case (Cons f fills)
  have 1: "ao_address req \<in> dom (cs_base (fst (settle_fill req f sc))) \<inter> dom (cs_quote (fst (settle_fill req f sc)))"
    "fill_accounts fills (fst (settle_fill req f sc))" "fill_accounts [f] (fst sc)"
    using Cons.prems by (simp_all add: fill_accounts_def)
  show ?case
    using Cons.IH [OF 1(1,2)] settle_balances_effect [OF Cons.prems(1) 1(3), of fd a]
    by (simp add: algebra_simps)
qed simp

lemma lock_funds_effect:
  assumes "ao_address req \<in> dom (cs_base s) \<inter> dom (cs_quote s)"
  shows "balance (fst (lock_funds req x s)) fd a =
    balance s fd a + of_int (diff_effect (snd (lock_funds req x s)) fd a)"
  using assms by (cases fd) (auto simp: lock_funds_def effect_defs lock_amount_def split: option.splits)

lemma settled_effect:
  assumes "book_ok (cs_book s)" and "makers_funded s" and "accepted req s"
  shows "balance (fst (settled req s)) fd a = balance s fd a + of_int (total_effect (snd (settled req s)) fd a)"
proof -
  let ?x = "to_order req (cs_oid s)"
  let ?s = "(fst (lock_funds req ?x (next_id_state s)))\<lparr>cs_book := snd (snd (spec_limit ?x (cs_book s)))\<rparr>"
  let ?fills = "spec_fills ?x (crossing_makers ?x (cs_book s))"
  have a: "ao_address req \<in> dom (cs_base s) \<inter> dom (cs_quote s)" by (rule accepted_account [OF assms(3)])
  have "fill_accounts ?fills ?s"
    using spec_fills_accounts [OF assms(1,2) a, of "cs_oid s"] fill_accounts_cong [of ?s s ?fills] by simp
  with a settle_fills_effect [of req "(?s, [snd (lock_funds req ?x (next_id_state s))])" ?fills fd a]
    lock_funds_effect [of req "next_id_state s" ?x fd a]
  show ?thesis by (simp add: settled_eq settle_fills_snd Let_def algebra_simps)
qed

text \<open>A cancellation of an order that has not been filled at all.\<close>

definition clean_cancel :: "request \<Rightarrow> clob_state \<Rightarrow> bool" where
  "clean_cancel req s \<longleftrightarrow> (case req of
     CancelOrder r \<Rightarrow> (case cs_status s (co_oid r) of None \<Rightarrow> True
       | Some st \<Rightarrow> fs_filled_size st = 0 \<and> filled_quote st = 0)
   | _ \<Rightarrow> True)"

lemma tick_effect:
  assumes "state_ok s" and "makers_funded s" and "clean_cancel req s"
    and "tick req s = Some (resp, s', ds)"
  shows "balance s' fd a = balance s fd a + of_int (total_effect ds fd a)"
proof -
  have bok: "book_ok (cs_book s)" using assms(1) by (simp add: state_ok_def)
  show ?thesis
  proof (cases req)
    case (AddOrder r)
    with assms(4) show ?thesis
      using settled_effect [OF bok assms(2), of r fd a]
      by (auto simp: add_order_cases [OF bok] split: if_splits)
  next
    case (CancelOrder r)
    with assms(3,4) show ?thesis
      by (cases fd) (auto simp: cancel_order_def clean_cancel_def effect_defs unlock_amount_def
        split: prod.splits option.splits if_splits)
  next
    case (Deposit r)
    with assms(4) show ?thesis
      by (cases fd; cases "a = dep_address r"; cases "cs_base s a"; cases "cs_quote s a")
        (auto simp: deposit_eq effect_defs add_free_def)
  next
    case (Withdraw r)
    with assms(4) show ?thesis
      by (cases fd) (auto simp: withdraw_def effect_defs asset_balance.splits split: prod.splits option.splits if_splits)
  qed
qed

text \<open>The value that the three delta maps give for one balance, as a 256-bit number.\<close>

definition delta_value :: "delta_maps \<Rightarrow> field \<Rightarrow> address \<Rightarrow> u256" where
  "delta_value ds fd a =
     (case map_of (dm_orders ds) a of None \<Rightarrow> 0 | Some d \<Rightarrow>
        (case fd of FreeBase \<Rightarrow> od_free_base d | LockedBase \<Rightarrow> od_locked_base d
         | FreeQuote \<Rightarrow> od_free_quote d | LockedQuote \<Rightarrow> od_locked_quote d)) +
     (case map_of (dm_deposits ds) a of None \<Rightarrow> 0 | Some d \<Rightarrow>
        (case fd of FreeBase \<Rightarrow> dd_base d | FreeQuote \<Rightarrow> dd_quote d | _ \<Rightarrow> 0)) -
     (case map_of (dm_withdraws ds) a of None \<Rightarrow> 0 | Some d \<Rightarrow>
        (case fd of FreeBase \<Rightarrow> wdd_base d | FreeQuote \<Rightarrow> wdd_quote d | _ \<Rightarrow> 0))"

lemma map_of_entry_update [simp]:
  "map_of (entry_update k d f m) a =
     (if a = k then Some (f (case map_of m k of None \<Rightarrow> d | Some v \<Rightarrow> v)) else map_of m a)"
  by (simp add: entry_update_def update_conv)

lemma apply_diff_value:
  "delta_value (apply_diff d ds) fd a = delta_value ds fd a + of_int (diff_effect d fd a)"
  by (cases d; cases fd)
    (auto simp: delta_value_def order_entry_def move_def Let_def algebra_simps split: option.splits)

lemma fold_apply_diff_value:
  "delta_value (fold apply_diff dfs ds) fd a = delta_value ds fd a + of_int (total_effect dfs fd a)"
  by (induction dfs arbitrary: ds) (simp_all add: apply_diff_value algebra_simps)

text \<open>A run in which every order has an account when it trades and no partly filled order is cancelled.\<close>

fun clean_run :: "request list \<Rightarrow> clob_state \<Rightarrow> bool" where
  "clean_run [] s \<longleftrightarrow> True"
| "clean_run (req # reqs) s \<longleftrightarrow> state_ok s \<and> makers_funded s \<and> clean_cancel req s \<and>
     (case tick req s of None \<Rightarrow> False | Some (_, s', _) \<Rightarrow> clean_run reqs s')"

lemma stf_loop_explains:
  assumes "clean_run reqs s" and "stf_loop reqs s ds = Some (s', ds')"
  shows "\<exists>n. balance s' fd a = balance s fd a + of_int n \<and> delta_value ds' fd a = delta_value ds fd a + of_int n"
  using assms
proof (induction reqs arbitrary: s ds)
  case Nil
  then show ?case by (intro exI [of _ 0]) simp
next
  case (Cons req reqs)
  then obtain resp s1 d1 where t: "tick req s = Some (resp, s1, d1)"
    by (auto split: option.splits)
  with Cons.prems have "clean_run reqs s1" "stf_loop reqs s1 (fold apply_diff d1 ds) = Some (s', ds')" by simp_all
  from Cons.IH [OF this] obtain n where
    "balance s' fd a = balance s1 fd a + of_int n"
    "delta_value ds' fd a = delta_value (fold apply_diff d1 ds) fd a + of_int n" by blast
  moreover have "balance s1 fd a = balance s fd a + of_int (total_effect d1 fd a)"
    using Cons.prems(1) t by (intro tick_effect) auto
  ultimately show ?case
    by (intro exI [of _ "total_effect d1 fd a + n"]) (simp add: fold_apply_diff_value algebra_simps)
qed

lemma delta_value_empty [simp]: "delta_value empty_deltas fd a = 0"
  by (simp add: delta_value_def empty_deltas_def)

lemma stf_loop_balance:
  assumes "clean_run reqs s" and "stf_loop reqs s empty_deltas = Some (s', ds)"
  shows "balance s' fd a = balance s fd a + ucast (delta_value ds fd a)"
proof -
  obtain n where n: "balance s' fd a = balance s fd a + of_int n"
    "delta_value ds fd a = delta_value empty_deltas fd a + of_int n"
    using stf_loop_explains [OF assms] by blast
  have "ucast (of_int n :: u256) = (of_int n :: u64)"
    by (rule bit_word_eqI) (simp add: bit_simps)
  with n show ?thesis by simp
qed

text \<open>
  C13. The deltas handed to the contract explain the state: over a run of requests in which no
  partly filled order is cancelled and every order that trades has an account, each of the four
  balances of each account has moved by exactly the order delta plus the deposit delta minus the
  withdraw delta of that account (modulo 64 bits).
\<close>

theorem stf_deltas_explain_balances:
  assumes "clean_run reqs s" and "stf_loop reqs s empty_deltas = Some (s', ds)"
  shows "balance s' fd a = balance s fd a + ucast (delta_value ds fd a)"
  using assms by (rule stf_loop_balance)

theorem stf_deltas_explain_balances_witness:
  "\<exists>s' ds. stf_loop [AddOrder sample_buy] sample_state empty_deltas = Some (s', ds) \<and>
     balance s' FreeQuote 7 = balance sample_state FreeQuote 7 + ucast (delta_value ds FreeQuote 7)"
proof -
  obtain resp s1 d1 where t: "tick (AddOrder sample_buy) sample_state = Some (resp, s1, d1)"
    using tick_total [OF state_ok_sample] .
  then have "clean_run [AddOrder sample_buy] sample_state"
    by (simp add: state_ok_sample makers_funded_sample clean_cancel_def)
  moreover have l: "stf_loop [AddOrder sample_buy] sample_state empty_deltas = Some (s1, fold apply_diff d1 empty_deltas)"
    using t by simp
  ultimately show ?thesis using stf_deltas_explain_balances by blast
qed

section \<open>The output of the guest program\<close>

text \<open>Keys of the delta maps are distinct, and each entry is filed under its own account.\<close>

definition filed :: "('v \<Rightarrow> address) \<Rightarrow> (address \<times> 'v) list \<Rightarrow> bool" where
  "filed account m \<longleftrightarrow> distinct (map fst m) \<and> (\<forall>(k, v) \<in> set m. account v = k)"

definition deltas_filed :: "delta_maps \<Rightarrow> bool" where
  "deltas_filed ds \<longleftrightarrow> filed wdd_account (dm_withdraws ds) \<and> filed dd_account (dm_deposits ds) \<and>
     filed od_account (dm_orders ds)"

lemma filed_entry_update:
  assumes "filed account m" and "account d = k" and "\<And>v. account (f v) = account v"
  shows "filed account (entry_update k d f m)"
proof -
  have v: "account (f (case map_of m k of None \<Rightarrow> d | Some v \<Rightarrow> v)) = k"
    using assms by (cases "map_of m k") (auto simp: filed_def dest: map_of_SomeD)
  have "set (AList.update k v m) \<subseteq> insert (k, v) (set m)" for v
    by (induction m) auto
  with v have "\<forall>(j, w) \<in> set (entry_update k d f m). account w = j"
    using assms(1) unfolding filed_def entry_update_def by blast
  with assms(1) show ?thesis
    unfolding filed_def entry_update_def by (simp add: distinct_update)
qed

lemma filed_order_entry:
  "deltas_filed ds \<Longrightarrow> (\<And>v. od_account (f v) = od_account v) \<Longrightarrow> deltas_filed (order_entry a f ds)"
  by (simp add: deltas_filed_def order_entry_def filed_entry_update)

lemma filed_apply_diff: "deltas_filed ds \<Longrightarrow> deltas_filed (apply_diff d ds)"
proof (cases d)
  case (DWithdraw a b q)
  then show "deltas_filed ds \<Longrightarrow> ?thesis" by (simp add: deltas_filed_def filed_entry_update)
next
  case (DDeposit a b q)
  then show "deltas_filed ds \<Longrightarrow> ?thesis" by (simp add: deltas_filed_def filed_entry_update)
qed (simp_all add: filed_order_entry Let_def)

lemma filed_fold: "deltas_filed ds \<Longrightarrow> deltas_filed (fold apply_diff dfs ds)"
  by (induction dfs arbitrary: ds) (simp_all add: filed_apply_diff)

lemma filed_stf_loop: "stf_loop reqs s ds = Some (s', ds') \<Longrightarrow> deltas_filed ds \<Longrightarrow> deltas_filed ds'"
  by (induction reqs arbitrary: s ds) (auto split: option.splits dest: filed_fold)

lemma sort_perm: "mset xs = mset ys \<Longrightarrow> sort xs = sort (ys :: 'a::linorder list)"
  by (metis sorted_list_of_multiset_mset)

text \<open>Sorted values of a filed map are in strictly ascending order of account.\<close>

lemma sorted_filed:
  assumes "filed account m" and "\<And>x y. x \<le> y \<Longrightarrow> account x \<le> account y"
  shows "sorted_wrt (<) (map account (sort (map snd m)))"
proof -
  let ?xs = "sort (map snd m)"
  have "map account (map snd m) = map fst m" using assms(1) by (auto simp: filed_def)
  then have "mset (map account ?xs) = mset (map fst m)" by (metis mset_map mset_sort)
  then have "distinct (map account ?xs)"
    using assms(1) mset_eq_imp_distinct_iff unfolding filed_def by blast
  moreover have "sorted_wrt (\<le>) (map account ?xs)"
    by (rule sorted_wrt_map_mono [OF sorted_sort]) (rule assms(2))
  ultimately show ?thesis by (simp add: strict_sorted_iff)
qed

lemma account_mono:
  "d \<le> d' \<Longrightarrow> dd_account d \<le> dd_account d'" "w \<le> w' \<Longrightarrow> wdd_account w \<le> wdd_account w'"
  "e \<le> e' \<Longrightarrow> od_account e \<le> od_account e'"
  by (auto simp: less_eq_deposit_delta_def deposit_delta_key_def less_eq_withdraw_delta_def
      withdraw_delta_key_def less_eq_order_delta_def order_delta_key_def)

text \<open>
  The output of the guest program is canonical: whatever order the hash maps yield their values
  in, the result is the same, and each of the three delta lists has at most one entry per account,
  in strictly ascending order of account.
\<close>

theorem zkvm_stf_canonical:
  assumes "\<And>xs. mset (iter_o xs) = mset xs" and "\<And>xs. mset (iter_w xs) = mset xs"
    and "\<And>xs. mset (iter_d xs) = mset xs"
    and "zkvm_stf keccak enc iter_o iter_w iter_d reqs s = Some r"
  shows "zkvm_stf keccak enc (\<lambda>xs. xs) (\<lambda>xs. xs) (\<lambda>xs. xs) reqs s = Some r \<and>
    (\<exists>d. sar_result r = enc d \<and>
       sorted_wrt (<) (map od_account (crd_order_deltas d)) \<and>
       sorted_wrt (<) (map dd_account (crd_deposit_deltas d)) \<and>
       sorted_wrt (<) (map wdd_account (crd_withdraw_deltas d)))"
proof -
  obtain s' ds where l: "stf_loop reqs s empty_deltas = Some (s', ds)"
    using assms(4) by (auto simp: zkvm_stf_def split: option.splits)
  have f: "deltas_filed ds"
    using filed_stf_loop [OF l] by (simp add: deltas_filed_def empty_deltas_def filed_def)
  have p: "sort (iter_o (map snd (dm_orders ds))) = sort (map snd (dm_orders ds))"
    "sort (iter_w (map snd (dm_withdraws ds))) = sort (map snd (dm_withdraws ds))"
    "sort (iter_d (map snd (dm_deposits ds))) = sort (map snd (dm_deposits ds))"
    by (rule sort_perm, rule assms)+
  from assms(4) f show ?thesis
    by (auto simp: zkvm_stf_def l Let_def p deltas_filed_def intro!: sorted_filed account_mono)
qed

theorem zkvm_stf_canonical_witness:
  "\<exists>r (d :: clob_result_deltas). zkvm_stf (\<lambda>_. 0) (\<lambda>d. replicate (length (crd_order_deltas d)) 0) rev rev rev
       [AddOrder sample_buy] sample_state = Some r \<and>
     sar_result r = replicate (length (crd_order_deltas d)) 0 \<and>
     sorted_wrt (<) (map od_account (crd_order_deltas d))"
proof -
  obtain resp s1 d1 where "tick (AddOrder sample_buy) sample_state = Some (resp, s1, d1)"
    using tick_total [OF state_ok_sample] .
  then obtain r where r: "zkvm_stf (\<lambda>_. 0) (\<lambda>d. replicate (length (crd_order_deltas d)) 0) rev rev rev
       [AddOrder sample_buy] sample_state = Some r"
    by (simp add: zkvm_stf_def Let_def)
  from zkvm_stf_canonical [OF mset_rev mset_rev mset_rev r] r show ?thesis by blast
qed

text \<open>Runs compose: a batch that continues another one continues its state.\<close>

lemma stf_loop_append:
  "stf_loop (xs @ ys) s ds =
     (case stf_loop xs s ds of None \<Rightarrow> None | Some (s1, ds1) \<Rightarrow> stf_loop ys s1 ds1)"
  by (induction xs arbitrary: s ds) (auto split: option.splits)

fun run_ticks :: "request list \<Rightarrow> clob_state \<Rightarrow> clob_state option" where
  "run_ticks [] s = Some s"
| "run_ticks (req # reqs) s =
     (case tick req s of None \<Rightarrow> None | Some (_, s', _) \<Rightarrow> run_ticks reqs s')"

lemma stf_loop_state: "map_option fst (stf_loop reqs s ds) = run_ticks reqs s"
  by (induction reqs arbitrary: s ds) (auto split: option.splits)

lemma run_ticks_append:
  "run_ticks (xs @ ys) s = (case run_ticks xs s of None \<Rightarrow> None | Some s' \<Rightarrow> run_ticks ys s')"
  by (induction xs arbitrary: s) (auto split: option.splits)

lemma zkvm_stf_root:
  "map_option sar_output_state_root (zkvm_stf keccak enc iter_o iter_w iter_d reqs s) = map_option keccak (run_ticks reqs s)"
  unfolding stf_loop_state [of reqs s empty_deltas, symmetric]
  by (cases "stf_loop reqs s empty_deltas") (auto simp: zkvm_stf_def Let_def)

text \<open>A request uses up at most one order id.\<close>

lemma tick_oid:
  assumes "tick req s = Some (resp, s', ds)" and "state_ok s"
  shows "unat (cs_oid s') \<le> Suc (unat (cs_oid s))"
proof -
  have bok: "book_ok (cs_book s)" using assms(2) by (simp add: state_ok_def)
  have suc: "unat (w + 1) \<le> Suc (unat w)" for w :: u64
    using unatSuc [of w] by (cases "1 + w = 0") (simp_all add: add.commute)
  show ?thesis
  proof (cases req)
    case (AddOrder r)
    with assms(1) suc show ?thesis
      by (auto simp: add_order_cases [OF bok] settled_frame split: if_splits)
  next
    case (CancelOrder r)
    with assms(1) state_ok_cancel_order [OF assms(2)] show ?thesis by (auto split: prod.splits)
  next
    case (Deposit r)
    with assms(1) show ?thesis by (auto simp: deposit_eq)
  next
    case (Withdraw r)
    with assms(1) state_ok_withdraw [OF assms(2)] show ?thesis by (auto split: prod.splits)
  qed
qed

end
