(* ===== verification/ClobNode.thy ===== *)
theory ClobNode
  imports ClobCore
begin

text \<open>
  The CLOB node (\<^verbatim>\<open>examples/clob/node/src\<close>): its database tables, the execution engine with the
  two commits it makes for every request and its restart after a crash (\<^verbatim>\<open>engine.rs\<close>), the batcher
  with its retries (\<^verbatim>\<open>batcher.rs\<close>), the split of the combined input by the guest program
  (\<^verbatim>\<open>examples/clob/programs/program/src/main.rs\<close>), the deposit event listener (\<^verbatim>\<open>event.rs\<close>) and
  the HTTP handlers (\<^verbatim>\<open>app.rs\<close>). A table of the key-value store is a map; a transaction
  (\<open>db.update\<close>) is one function on the database, so it happens completely or not at all. Borsh,
  Keccak and the ABI encoding are parameters.
\<close>

section \<open>The database\<close>

record clob_db =
  db_global_index :: "u32 \<rightharpoonup> u64"
  db_request :: "u64 \<rightharpoonup> request"
  db_response :: "u64 \<rightharpoonup> response"
  db_clob_state :: "u64 \<rightharpoonup> clob_state"
  db_diff :: "u64 \<rightharpoonup> diff list"
  db_block_height :: "u32 \<rightharpoonup> u64"

definition empty_db :: clob_db where
  "empty_db = \<lparr>db_global_index = Map.empty, db_request = Map.empty, db_response = Map.empty,
     db_clob_state = Map.empty, db_diff = Map.empty, db_block_height = Map.empty\<rparr>"

definition SEEN_GLOBAL_INDEX_KEY :: u32 where "SEEN_GLOBAL_INDEX_KEY = 0"
definition PROCESSED_GLOBAL_INDEX_KEY :: u32 where "PROCESSED_GLOBAL_INDEX_KEY = 1"
definition NEXT_BATCH_GLOBAL_INDEX_KEY :: u32 where "NEXT_BATCH_GLOBAL_INDEX_KEY = 2"
definition LAST_SEEN_HEIGHT_KEY :: u32 where "LAST_SEEN_HEIGHT_KEY = 0"
definition GENESIS_GLOBAL_INDEX :: u64 where "GENESIS_GLOBAL_INDEX = 0"
definition INIT_INDEX :: u64 where "INIT_INDEX = 1"

lemmas key_defs = SEEN_GLOBAL_INDEX_KEY_def PROCESSED_GLOBAL_INDEX_KEY_def
  NEXT_BATCH_GLOBAL_INDEX_KEY_def LAST_SEEN_HEIGHT_KEY_def GENESIS_GLOBAL_INDEX_def INIT_INDEX_def

section \<open>The engine\<close>

text \<open>\<open>read_start_up_values\<close>: \<open>None\<close> is the error \<open>missing clob state\<close>.\<close>

definition processed_index :: "clob_db \<Rightarrow> u64" where
  "processed_index db = (case db_global_index db PROCESSED_GLOBAL_INDEX_KEY of
     None \<Rightarrow> GENESIS_GLOBAL_INDEX | Some i \<Rightarrow> i)"

definition read_start_up_values :: "clob_db \<Rightarrow> (u64 \<times> clob_state \<times> clob_db) option" where
  "read_start_up_values db =
     (let global_index = processed_index db in
      if global_index = GENESIS_GLOBAL_INDEX then
        let genesis_state = default_clob_state
        in Some (global_index, genesis_state,
             db\<lparr>db_clob_state := (db_clob_state db)(global_index \<mapsto> genesis_state)\<rparr>)
      else
        (case db_clob_state db global_index of
           None \<Rightarrow> None
         | Some clob_state \<Rightarrow> Some (global_index, clob_state, db)))"

text \<open>The two transactions of one turn of the loop in \<open>run_engine\<close>.\<close>

definition write_request :: "u64 \<Rightarrow> request \<Rightarrow> clob_db \<Rightarrow> clob_db" where
  "write_request global_index req db =
     (let db = db\<lparr>db_global_index := (db_global_index db)(SEEN_GLOBAL_INDEX_KEY \<mapsto> global_index)\<rparr>
      in db\<lparr>db_request := (db_request db)(global_index \<mapsto> req)\<rparr>)"

definition write_results :: "u64 \<Rightarrow> response \<Rightarrow> clob_state \<Rightarrow> diff list \<Rightarrow> clob_db \<Rightarrow> clob_db" where
  "write_results global_index response post_state diffs db =
     (let db = db\<lparr>db_global_index := (db_global_index db)(PROCESSED_GLOBAL_INDEX_KEY \<mapsto> global_index)\<rparr>;
          db = db\<lparr>db_response := (db_response db)(global_index \<mapsto> response)\<rparr>;
          db = db\<lparr>db_clob_state := (db_clob_state db)(global_index \<mapsto> post_state)\<rparr>
      in db\<lparr>db_diff := (db_diff db)(global_index \<mapsto> diffs)\<rparr>)"

text \<open>
  The engine process: not running, waiting for a request (the last used index and the current
  state), or between its two transactions (the index and request it has written, and the state
  before it). It may crash at any point; what it sends is the API response.
\<close>

datatype engine = Down | Idle u64 clob_state | Seen u64 clob_state request

datatype engine_event = Start | Recv request | Process | Crash

fun engine_step :: "engine \<times> clob_db \<Rightarrow> engine_event \<Rightarrow> ((engine \<times> clob_db) \<times> api_response list) option" where
  "engine_step (Down, db) Start =
     (case read_start_up_values db of
        None \<Rightarrow> None
      | Some (global_index, state, db) \<Rightarrow> Some ((Idle global_index state, db), []))"
| "engine_step (Idle global_index state, db) (Recv req) =
     (let global_index = global_index + 1
      in Some ((Seen global_index state req, write_request global_index req db), []))"
| "engine_step (Seen global_index state req, db) Process =
     (case tick req state of
        None \<Rightarrow> None
      | Some (response, post_state, diffs) \<Rightarrow>
          Some ((Idle global_index post_state, write_results global_index response post_state diffs db),
            [\<lparr>api_response = response, api_global_index = global_index\<rparr>]))"
| "engine_step (e, db) Crash = Some ((Down, db), [])"
| "engine_step _ _ = None"

text \<open>The events that can happen in a state; the others of \<open>engine_step\<close>'s cases are not events of it.\<close>

fun enabled :: "engine \<Rightarrow> engine_event \<Rightarrow> bool" where
  "enabled Down Start = True"
| "enabled (Idle _ _) (Recv _) = True"
| "enabled (Seen _ _ _) Process = True"
| "enabled _ Crash = True"
| "enabled _ _ = False"

section \<open>The batcher\<close>

text \<open>
  One pass of the loop in \<open>ensure_initialized\<close>: \<open>None\<close> while no request has been processed (the
  loop sleeps and tries again).
\<close>

definition ensure_initialized :: "clob_db \<Rightarrow> clob_db option" where
  "ensure_initialized db =
     (case db_global_index db PROCESSED_GLOBAL_INDEX_KEY of
        None \<Rightarrow> None
      | Some _ \<Rightarrow> Some (if db_global_index db NEXT_BATCH_GLOBAL_INDEX_KEY = None
          then db\<lparr>db_global_index := (db_global_index db)(NEXT_BATCH_GLOBAL_INDEX_KEY \<mapsto> INIT_INDEX)\<rparr>
          else db))"

record batch =
  bat_start :: u64
  bat_end :: u64
  bat_state :: clob_state
  bat_requests :: "request list"

datatype batch_result = Skip | BatchError | Batch batch

definition read_all :: "('k \<rightharpoonup> 'v) \<Rightarrow> 'k list \<Rightarrow> 'v list option" where
  "read_all m ks = those (map m ks)"

text \<open>
  What one turn of the loop in \<open>run_batcher\<close> reads: the requests \<open>start_index..=end_index\<close> and
  the state before them. \<open>BatchError\<close> is an \<open>Err\<close> or a panic of an \<open>unwrap\<close>.
\<close>

definition read_batch :: "clob_db \<Rightarrow> batch_result" where
  "read_batch db =
     (case (db_global_index db NEXT_BATCH_GLOBAL_INDEX_KEY, db_global_index db PROCESSED_GLOBAL_INDEX_KEY) of
        (Some start_index, Some end_index) \<Rightarrow>
          if start_index > end_index then Skip
          else
            (case db_clob_state db (start_index - 1) of
               None \<Rightarrow> BatchError
             | Some start_state \<Rightarrow>
                 (case read_all (db_request db) (map of_nat [unat start_index ..< Suc (unat end_index)]) of
                    None \<Rightarrow> BatchError
                  | Some requests \<Rightarrow> Batch \<lparr>bat_start = start_index, bat_end = end_index,
                      bat_state = start_state, bat_requests = requests\<rparr>))
      | _ \<Rightarrow> BatchError)"

definition combined_offchain_input :: "bytes \<Rightarrow> bytes \<Rightarrow> bytes" where
  "combined_offchain_input requests_borsh state_borsh =
     u32_to_le_bytes (of_nat (length requests_borsh)) @ requests_borsh @ state_borsh"

definition MAX_CYCLES :: u64 where "MAX_CYCLES = 32 * 1000 * 1000"

record submit_job_request =
  sj_request :: bytes
  sj_signature :: bytes
  sj_offchain_input :: bytes
  sj_relay_strategy :: nat

text \<open>The code outside the repository that the batcher relies on.\<close>

record batch_env =
  be_requests_borsh :: "request list \<Rightarrow> bytes"
  be_state_borsh :: "clob_state \<Rightarrow> bytes"
  be_keccak256 :: "bytes \<Rightarrow> b256"
  be_encode_onchain :: "stateful_app_onchain_input \<Rightarrow> bytes"
  be_encode_job :: "offchain_job_request \<Rightarrow> bytes"
  be_sign :: "bytes \<Rightarrow> bytes"
  be_program_id :: bytes
  be_consumer :: address

text \<open>\<open>RelayStrategy::Ordered\<close> is 1 in the wire format.\<close>

definition batch_job :: "batch_env \<Rightarrow> u64 \<Rightarrow> batch \<Rightarrow> job_params \<times> submit_job_request" where
  "batch_job env job_nonce b =
     (let state_borsh = be_state_borsh env (bat_state b);
          combined = combined_offchain_input (be_requests_borsh env (bat_requests b)) state_borsh;
          onchain_input = \<lparr>sai_input_state_root = be_keccak256 env state_borsh, sai_onchain_input = []\<rparr>;
          params = \<lparr>jp_nonce = job_nonce, jp_max_cycles = MAX_CYCLES, jp_consumer_address = be_consumer env,
            jp_onchain_input = be_encode_onchain env onchain_input, jp_program_id = be_program_id env,
            jp_offchain_input_hash = be_keccak256 env combined\<rparr>;
          req = abi_encode_offchain_job_request (be_encode_job env) params
      in (params, \<lparr>sj_request = req, sj_signature = be_sign env req, sj_offchain_input = combined,
           sj_relay_strategy = 1\<rparr>))"

text \<open>
  \<open>submit_job_with_backoff\<close>: the outcome of each attempt is an argument; the result says whether
  the job was submitted, and lists the seconds slept after each failure.
\<close>

fun submit_attempts :: "nat \<Rightarrow> (nat \<Rightarrow> bool) \<Rightarrow> u64 \<Rightarrow> bool \<times> u64 list" where
  "submit_attempts 0 outcome backoff = (False, [])"
| "submit_attempts (Suc n) outcome backoff =
     (if outcome 0 then (True, [])
      else let (done, sleeps) = submit_attempts n (\<lambda>i. outcome (Suc i)) (backoff * 8)
           in (done, backoff # sleeps))"

definition submit_job_with_backoff :: "(nat \<Rightarrow> bool) \<Rightarrow> bool \<times> u64 list" where
  "submit_job_with_backoff outcome = submit_attempts 3 outcome 1"

text \<open>
  One turn of the loop: the job that is submitted, if any, and the next database and nonce;
  \<open>None\<close> in the last place is the \<open>Err\<close> that ends the batcher.
\<close>

definition batcher_turn :: "batch_env \<Rightarrow> (nat \<Rightarrow> bool) \<Rightarrow> clob_db \<Rightarrow> u64
    \<Rightarrow> submit_job_request option \<times> (clob_db \<times> u64) option" where
  "batcher_turn env outcome db job_nonce =
     (case read_batch db of
        BatchError \<Rightarrow> (None, None)
      | Skip \<Rightarrow> (None, Some (db, job_nonce))
      | Batch b \<Rightarrow>
          let job_request = snd (batch_job env job_nonce b) in
          if fst (submit_job_with_backoff outcome)
          then (let next_batch_idx = bat_end b + 1
                in (Some job_request,
                    Some (db\<lparr>db_global_index := (db_global_index db)
                               (NEXT_BATCH_GLOBAL_INDEX_KEY \<mapsto> next_batch_idx)\<rparr>, job_nonce + 1)))
          else (Some job_request, None))"

section \<open>The guest program\<close>

text \<open>\<open>None\<close> is the panic of a slice out of range.\<close>

definition guest_split :: "bytes \<Rightarrow> (bytes \<times> bytes) option" where
  "guest_split offchain_input =
     (if length offchain_input < 4 then None
      else case u32_from_le_bytes (take 4 offchain_input) of
        None \<Rightarrow> None
      | Some w \<Rightarrow>
          let requests_len = unat w in
          if length offchain_input < 4 + requests_len then None
          else Some (take requests_len (drop 4 offchain_input), drop (4 + requests_len) offchain_input))"

definition guest_main :: "(bytes \<Rightarrow> request list option) \<Rightarrow> (bytes \<Rightarrow> clob_state option)
    \<Rightarrow> (request list \<Rightarrow> clob_state \<Rightarrow> stateful_app_result option)
    \<Rightarrow> bytes \<Rightarrow> bytes \<Rightarrow> stateful_app_result option" where
  "guest_main parse_requests parse_state stf onchain_input offchain_input =
     (case guest_split offchain_input of
        None \<Rightarrow> None
      | Some (requests_borsh, state_borsh) \<Rightarrow>
          (case (parse_requests requests_borsh, parse_state state_borsh) of
             (Some requests, Some state) \<Rightarrow> stf requests state
           | _ \<Rightarrow> None))"

lemma guest_split_combined:
  assumes "length rb < 2 ^ 32"
  shows "guest_split (combined_offchain_input rb sb) = Some (rb, sb)"
proof -
  have "unat (of_nat (length rb) :: u32) = length rb" using assms by (simp add: unat_of_nat)
  then show ?thesis
    by (simp add: guest_split_def combined_offchain_input_def u32_le_roundtrip Let_def)
qed

section \<open>The node\<close>

text \<open>
  The tasks of the node share the database. A configuration is reached by the number \<open>n\<close> of
  requests received so far, with the responses sent and the batches submitted: the engine takes a
  step or crashes, the batcher initialises its index or submits a batch, and the deposit listener
  stores a block height.
\<close>

inductive node_reach :: "nat \<Rightarrow> engine \<times> clob_db \<Rightarrow> api_response list \<Rightarrow> batch list \<Rightarrow> bool" where
  init: "node_reach 0 (Down, empty_db) [] []"
| engine: "node_reach n c outs bs \<Longrightarrow> engine_step c ev = Some (c', os) \<Longrightarrow>
    node_reach (n + (case ev of Recv _ \<Rightarrow> 1 | _ \<Rightarrow> 0)) c' (outs @ os) bs"
| batcher_init: "node_reach n (e, db) outs bs \<Longrightarrow> ensure_initialized db = Some db' \<Longrightarrow>
    node_reach n (e, db') outs bs"
| batcher: "node_reach n (e, db) outs bs \<Longrightarrow> read_batch db = Batch b \<Longrightarrow>
    batcher_turn env outcome db job_nonce = (Some job, Some (db', job_nonce')) \<Longrightarrow>
    node_reach n (e, db') outs (bs @ [b])"
| height: "node_reach n (e, db) outs bs \<Longrightarrow>
    node_reach n (e, db\<lparr>db_block_height := (db_block_height db)(LAST_SEEN_HEIGHT_KEY \<mapsto> h)\<rparr>) outs bs"

section \<open>What the tables hold\<close>

text \<open>
  The entry of one processed index: the stored state is what \<open>tick\<close> makes of the stored request
  and the state stored one index before, and response and diffs are those of the same tick.
\<close>

definition entry_ok :: "clob_db \<Rightarrow> nat \<Rightarrow> bool" where
  "entry_ok db i \<longleftrightarrow> (\<exists>pre req resp post ds.
     db_clob_state db (of_nat i) = Some pre \<and> db_request db (of_nat (Suc i)) = Some req \<and>
     tick req pre = Some (resp, post, ds) \<and> db_clob_state db (of_nat (Suc i)) = Some post \<and>
     db_response db (of_nat (Suc i)) = Some resp \<and> db_diff db (of_nat (Suc i)) = Some ds)"

definition state_at :: "clob_db \<Rightarrow> nat \<Rightarrow> clob_state \<Rightarrow> bool" where
  "state_at db i s \<longleftrightarrow> db_clob_state db (of_nat i) = Some s \<and> state_ok s \<and> unat (cs_oid s) \<le> i"

text \<open>\<open>p\<close> is the number of processed requests.\<close>

definition tables_ok :: "clob_db \<Rightarrow> nat \<Rightarrow> bool" where
  "tables_ok db p \<longleftrightarrow> processed_index db = of_nat p \<and>
     (0 < p \<longrightarrow> db_clob_state db 0 = Some default_clob_state) \<and>
     (\<forall>i < p. entry_ok db i)"

text \<open>Every response that was sent is recorded under its index, and the indices increase.\<close>

definition outs_ok :: "clob_db \<Rightarrow> nat \<Rightarrow> api_response list \<Rightarrow> bool" where
  "outs_ok db p outs \<longleftrightarrow> sorted_wrt (\<lambda>x y. unat (api_global_index x) < unat (api_global_index y)) outs \<and>
     (\<forall>out \<in> set outs. unat (api_global_index out) \<le> p \<and> api_global_index out \<noteq> 0 \<and>
        db_response db (api_global_index out) = Some (api_response out))"

definition seen_ok :: "clob_db \<Rightarrow> nat \<Rightarrow> nat \<Rightarrow> bool" where
  "seen_ok db p n \<longleftrightarrow> (case db_global_index db SEEN_GLOBAL_INDEX_KEY of
     None \<Rightarrow> p = 0 | Some i \<Rightarrow> i = of_nat p \<or> i = of_nat (Suc p) \<and> p < n)"

definition engine_inv :: "nat \<Rightarrow> engine \<times> clob_db \<Rightarrow> api_response list \<Rightarrow> bool" where
  "engine_inv n c outs \<longleftrightarrow> (\<exists>p. p \<le> n \<and> tables_ok (snd c) p \<and> outs_ok (snd c) p outs \<and> seen_ok (snd c) p n \<and>
     (0 < p \<longrightarrow> (\<exists>s. state_at (snd c) p s)) \<and>
     (case fst c of Down \<Rightarrow> True
      | Idle g s \<Rightarrow> g = of_nat p \<and> state_at (snd c) p s \<and> (p = 0 \<longrightarrow> s = default_clob_state)
      | Seen g s req \<Rightarrow> p < n \<and> g = of_nat (Suc p) \<and> state_at (snd c) p s \<and>
          (p = 0 \<longrightarrow> s = default_clob_state) \<and> db_request (snd c) g = Some req \<and>
          db_global_index (snd c) SEEN_GLOBAL_INDEX_KEY = Some g))"

lemma of_nat_u64: "i < 2 ^ 64 \<Longrightarrow> j < 2 ^ 64 \<Longrightarrow> (of_nat i :: u64) = of_nat j \<longleftrightarrow> i = j"
  using of_nat_eq_iff [where 'a = 64] by simp

lemma processed_index_upd [simp]:
  "processed_index (db\<lparr>db_request := m1\<rparr>) = processed_index db"
  "processed_index (db\<lparr>db_response := m2\<rparr>) = processed_index db"
  "processed_index (db\<lparr>db_clob_state := m3\<rparr>) = processed_index db"
  "processed_index (db\<lparr>db_diff := m4\<rparr>) = processed_index db"
  "processed_index (db\<lparr>db_global_index := (db_global_index db)(SEEN_GLOBAL_INDEX_KEY \<mapsto> i)\<rparr>) = processed_index db"
  "processed_index (db\<lparr>db_global_index := (db_global_index db)(PROCESSED_GLOBAL_INDEX_KEY \<mapsto> i)\<rparr>) = i"
  by (simp_all add: processed_index_def key_defs)

lemma write_request_sel [simp]:
  "db_clob_state (write_request g r db) = db_clob_state db" "db_response (write_request g r db) = db_response db"
  "db_diff (write_request g r db) = db_diff db" "db_request (write_request g r db) = (db_request db)(g \<mapsto> r)"
  "db_global_index (write_request g r db) SEEN_GLOBAL_INDEX_KEY = Some g"
  "db_block_height (write_request g r db) = db_block_height db"
  by (simp_all add: write_request_def)

lemma write_results_sel [simp]:
  "db_clob_state (write_results g r s ds db) = (db_clob_state db)(g \<mapsto> s)"
  "db_response (write_results g r s ds db) = (db_response db)(g \<mapsto> r)"
  "db_diff (write_results g r s ds db) = (db_diff db)(g \<mapsto> ds)"
  "db_request (write_results g r s ds db) = db_request db"
  "db_global_index (write_results g r s ds db) SEEN_GLOBAL_INDEX_KEY = db_global_index db SEEN_GLOBAL_INDEX_KEY"
  "db_block_height (write_results g r s ds db) = db_block_height db"
  by (simp_all add: write_results_def Let_def key_defs)

lemma processed_write [simp]:
  "processed_index (write_request g r db) = processed_index db"
  "processed_index (write_results g resp s ds db) = g"
  by (simp_all add: write_request_def write_results_def processed_index_def key_defs Let_def)

lemma entry_ok_write_request:
  "entry_ok db i \<Longrightarrow> Suc i < j \<Longrightarrow> j < 2 ^ 64 \<Longrightarrow> entry_ok (write_request (of_nat j) r db) i"
  unfolding entry_ok_def using of_nat_u64 [of "Suc i" j] by (auto simp del: of_nat_Suc)

lemma entry_ok_write_results:
  "entry_ok db i \<Longrightarrow> Suc i < j \<Longrightarrow> j < 2 ^ 64 \<Longrightarrow> entry_ok (write_results (of_nat j) r s ds db) i"
  unfolding entry_ok_def using of_nat_u64 [of "Suc i" j] of_nat_u64 [of i j]
  by (auto simp del: of_nat_Suc)

lemma tables_ok_write_request:
  "tables_ok db p \<Longrightarrow> Suc p < 2 ^ 64 \<Longrightarrow> tables_ok (write_request (of_nat (Suc p)) r db) p"
  by (auto simp: tables_ok_def entry_ok_write_request simp del: of_nat_Suc)

lemma tables_ok_write_results:
  assumes ok: "tables_ok db p" and lt: "Suc p < 2 ^ 64" and s: "db_clob_state db (of_nat p) = Some s"
    and r: "db_request db (of_nat (Suc p)) = Some req" and t: "tick req s = Some (resp, post, ds)"
    and z: "p = 0 \<Longrightarrow> s = default_clob_state"
  shows "tables_ok (write_results (of_nat (Suc p)) resp post ds db) (Suc p)"
proof -
  let ?db = "write_results (of_nat (Suc p)) resp post ds db"
  have "entry_ok ?db p"
    unfolding entry_ok_def using s r t of_nat_u64 [of p "Suc p"] lt by (auto simp del: of_nat_Suc)
  moreover have "entry_ok ?db i" if "i < p" for i
    using ok that lt by (intro entry_ok_write_results) (auto simp: tables_ok_def)
  moreover have "db_clob_state ?db 0 = Some default_clob_state"
  proof -
    have "(of_nat (Suc p) :: u64) \<noteq> 0" using of_nat_u64 [of "Suc p" 0] lt by (auto simp del: of_nat_Suc)
    with ok s z show ?thesis by (cases "p = 0") (auto simp: tables_ok_def simp del: of_nat_Suc)
  qed
  ultimately show ?thesis by (auto simp: tables_ok_def less_Suc_eq simp del: of_nat_Suc)
qed

lemma engine_inv_init: "engine_inv 0 (Down, empty_db) []"
  unfolding engine_inv_def
  by (intro exI [of _ 0]) (simp add: tables_ok_def outs_ok_def seen_ok_def processed_index_def empty_db_def key_defs)

lemma state_at_default: "db_clob_state db 0 = Some default_clob_state \<Longrightarrow> state_at db 0 default_clob_state"
  by (simp add: state_at_def state_ok_default) (simp add: default_clob_state_def)

lemma engine_inv_start:
  assumes "engine_inv n (Down, db) outs" and "n < 2 ^ 64"
  shows "\<exists>e db'. engine_step (Down, db) Start = Some ((e, db'), []) \<and> engine_inv n (e, db') outs"
proof -
  from assms(1) obtain p where p: "p \<le> n" "tables_ok db p" "outs_ok db p outs" "seen_ok db p n"
    "0 < p \<Longrightarrow> \<exists>s. state_at db p s" by (auto simp: engine_inv_def)
  have pi: "processed_index db = of_nat p" using p(2) by (simp add: tables_ok_def)
  show ?thesis
  proof (cases "p = 0")
    case True
    let ?db = "db\<lparr>db_clob_state := (db_clob_state db)(0 \<mapsto> default_clob_state)\<rparr>"
    have "engine_inv n (Idle 0 default_clob_state, ?db) outs"
      unfolding engine_inv_def using p True
      by (intro exI [of _ 0]) (simp add: tables_ok_def outs_ok_def seen_ok_def state_at_default)
    with True pi show ?thesis by (simp add: read_start_up_values_def GENESIS_GLOBAL_INDEX_def)
  next
    case False
    then obtain s where s: "state_at db p s" using p(5) by blast
    have "(of_nat p :: u64) \<noteq> 0" using of_nat_u64 [of p 0] p(1) assms(2) False by simp
    with pi s have "read_start_up_values db = Some (of_nat p, s, db)"
      by (simp add: read_start_up_values_def GENESIS_GLOBAL_INDEX_def state_at_def Let_def)
    moreover have "engine_inv n (Idle (of_nat p) s, db) outs"
      unfolding engine_inv_def using p s False by (intro exI [of _ p]) simp
    ultimately show ?thesis by simp
  qed
qed

lemma engine_inv_recv:
  assumes "engine_inv n (Idle g s, db) outs" and "Suc n < 2 ^ 64"
  shows "engine_inv (Suc n) (Seen (g + 1) s req, write_request (g + 1) req db) outs"
proof -
  from assms(1) obtain p where p: "p \<le> n" "tables_ok db p" "outs_ok db p outs"
    "state_at db p s" "g = of_nat p" "p = 0 \<Longrightarrow> s = default_clob_state" by (auto simp: engine_inv_def)
  have g: "g + 1 = of_nat (Suc p)" using p(5) by simp
  have "tables_ok (write_request (of_nat (Suc p)) req db) p"
    using p(1,2) assms(2) by (intro tables_ok_write_request) simp_all
  moreover have "seen_ok (write_request (of_nat (Suc p)) req db) p (Suc n)"
    using p(1) by (simp add: seen_ok_def del: of_nat_Suc)
  ultimately show ?thesis
    unfolding engine_inv_def g using p
    by (intro exI [of _ p]) (auto simp: outs_ok_def state_at_def simp del: of_nat_Suc)
qed

lemma engine_inv_process:
  assumes inv: "engine_inv n (Seen g s req, db) outs" and "n < 2 ^ 64" and t: "tick req s = Some (resp, post, ds)"
  shows "engine_inv n (Idle g post, write_results g resp post ds db)
    (outs @ [\<lparr>api_response = resp, api_global_index = g\<rparr>])"
proof -
  from inv obtain p where p: "p < n" "tables_ok db p" "outs_ok db p outs" "seen_ok db p n"
    "state_at db p s" "g = of_nat (Suc p)" "p = 0 \<Longrightarrow> s = default_clob_state" "db_request db g = Some req"
    "db_global_index db SEEN_GLOBAL_INDEX_KEY = Some g"
    by (auto simp: engine_inv_def)
  have lt: "Suc p < 2 ^ 64" "p < 2 ^ 64" using p(1) assms(2) by simp_all
  let ?db = "write_results g resp post ds db"
  have ug: "unat g = Suc p" using lt unfolding p(6) by (simp add: unat_of_nat del: of_nat_Suc)
  have "cs_oid s + 1 \<noteq> 0"
  proof
    assume z: "cs_oid s + 1 = 0"
    have "unat (cs_oid s) \<le> p" using p(5) by (simp add: state_at_def)
    then have "unat (cs_oid s) + 1 < 2 ^ 64" using lt by simp
    then have "unat (cs_oid s + 1) = unat (cs_oid s) + 1" by (simp add: unat_word_ariths)
    with z show False by simp
  qed
  then have "state_at ?db (Suc p) post"
    using p(5,6) state_ok_tick [of s req resp post ds] tick_oid [OF t] t
    by (auto simp: state_at_def simp del: of_nat_Suc)
  moreover have "tables_ok ?db (Suc p)"
    unfolding p(6)
  proof (rule tables_ok_write_results [OF p(2) lt(1) _ _ t])
    show "db_clob_state db (of_nat p) = Some s" using p(5) by (simp add: state_at_def)
    show "db_request db (of_nat (Suc p)) = Some req" using p(8) unfolding p(6) .
  qed (rule p(7))
  moreover have "outs_ok ?db (Suc p) (outs @ [\<lparr>api_response = resp, api_global_index = g\<rparr>])"
  proof -
    have "api_global_index x \<noteq> g" "unat (api_global_index x) < unat g" if "x \<in> set outs" for x
      using that p(3) ug by (auto simp: outs_ok_def)
    moreover have "g \<noteq> 0" using ug by auto
    ultimately show ?thesis using p(3) ug by (auto simp: outs_ok_def sorted_wrt_append)
  qed
  moreover have "seen_ok ?db (Suc p) n"
    using p(6,9) by (simp add: seen_ok_def del: of_nat_Suc)
  ultimately show ?thesis
    unfolding engine_inv_def using p(1,6) by (intro exI [of _ "Suc p"]) (auto simp del: of_nat_Suc)
qed

lemma engine_inv_step:
  assumes inv: "engine_inv n c outs" and step: "engine_step c ev = Some (c', os)"
    and n: "n' = n + (case ev of Recv _ \<Rightarrow> 1 | _ \<Rightarrow> 0)" "n' < 2 ^ 64"
  shows "engine_inv n' c' (outs @ os)"
  using step
proof (cases rule: engine_step.cases [of "(c, ev)"])
  case (1 db)
  then show ?thesis using engine_inv_start [of n db outs] inv step n by auto
next
  case (2 g s db req)
  then show ?thesis using engine_inv_recv [of n g s db outs req] inv step n by (auto simp: Let_def)
next
  case (3 g s req db)
  then obtain resp post ds where t: "tick req s = Some (resp, post, ds)" using step by (auto split: option.splits)
  with 3 show ?thesis using engine_inv_process [OF _ _ t, of n g db outs] inv step n by auto
next
  case (4 e db)
  from inv obtain p where "p \<le> n" "tables_ok (snd c) p" "outs_ok (snd c) p outs" "seen_ok (snd c) p n"
    "0 < p \<longrightarrow> (\<exists>s. state_at (snd c) p s)" by (auto simp: engine_inv_def)
  moreover have "c' = (Down, snd c)" "os = []" "n' = n" using 4 step n by auto
  ultimately show ?thesis unfolding engine_inv_def by (intro exI [of _ p]) simp
qed simp_all

lemma engine_inv_enabled:
  assumes "engine_inv n c outs" and "n < 2 ^ 64" and "enabled (fst c) ev"
  shows "engine_step c ev \<noteq> None"
proof -
  obtain e db where c: "c = (e, db)" by force
  show ?thesis
  proof (cases e)
    case Down
    with assms engine_inv_start [of n db outs] show ?thesis by (cases ev) (auto simp: c)
  next
    case (Idle g s)
    with assms show ?thesis by (cases ev) (auto simp: c Let_def)
  next
    case (Seen g s req)
    then have "state_ok s" using assms(1) by (auto simp: engine_inv_def c state_at_def)
    from tick_total [OF this, of req] obtain r p d where "tick req s = Some (r, p, d)" .
    with Seen assms show ?thesis by (cases ev) (auto simp: c)
  qed
qed

section \<open>Batches\<close>

text \<open>
  What the batcher relies on: a store whose state after each request is the \<open>tick\<close> of the state
  before it. A client that reads a range of requests reads exactly the run that leads from the
  state before the range to the state after it.
\<close>

locale batch_store =
  fixes good :: "'db \<Rightarrow> bool"
    and processed :: "'db \<Rightarrow> nat"
    and state_of :: "'db \<Rightarrow> nat \<Rightarrow> clob_state option"
    and request_of :: "'db \<Rightarrow> nat \<Rightarrow> request option"
  assumes history: "good db \<Longrightarrow> i < processed db \<Longrightarrow> \<exists>pre req post. state_of db i = Some pre \<and>
    request_of db (Suc i) = Some req \<and> state_of db (Suc i) = Some post \<and> run_ticks [req] pre = Some post"
begin

lemma range_run:
  assumes "good db" and "a \<le> e" and "e \<le> processed db" and "state_of db a = Some s"
  shows "\<exists>rs post. those (map (request_of db) [Suc a ..< Suc e]) = Some rs \<and>
    run_ticks rs s = Some post \<and> state_of db e = Some post"
  using assms(2,3)
proof (induction e rule: dec_induct)
  case base
  with assms(4) show ?case by simp
next
  case (step e)
  then obtain rs post where i: "those (map (request_of db) [Suc a ..< Suc e]) = Some rs"
    "run_ticks rs s = Some post" "state_of db e = Some post" by auto
  from history [OF assms(1), of e] step i obtain req post' where
    "request_of db (Suc e) = Some req" "state_of db (Suc e) = Some post'" "run_ticks [req] post = Some post'"
    by auto
  moreover have "those (xs @ [Some x]) = map_option (\<lambda>ys. ys @ [x]) (those xs)" for xs :: "request option list" and x
    by (induction xs) (auto split: option.splits simp: option.map_comp comp_def)
  moreover have "[Suc a ..< Suc (Suc e)] = [Suc a ..< Suc e] @ [Suc e]" using step(1) by simp
  ultimately show ?case using i
    by (intro exI [of _ "rs @ [req]"] exI [of _ post']) (simp add: run_ticks_append del: upt_Suc)
qed

end

interpretation clob: batch_store "\<lambda>db. \<exists>p < 2 ^ 64. tables_ok db p" "\<lambda>db. unat (processed_index db)"
  "\<lambda>db i. db_clob_state db (of_nat i)" "\<lambda>db i. db_request db (of_nat i)"
proof unfold_locales
  fix db i assume "\<exists>p < 2 ^ 64. tables_ok db p" and i: "i < unat (processed_index db)"
  then obtain p where p: "p < 2 ^ 64" "tables_ok db p" by blast
  then have "unat (processed_index db) = p" by (simp add: tables_ok_def unat_of_nat)
  with i p have "entry_ok db i" by (simp add: tables_ok_def)
  then show "\<exists>pre req post. db_clob_state db (of_nat i) = Some pre \<and> db_request db (of_nat (Suc i)) = Some req \<and>
      db_clob_state db (of_nat (Suc i)) = Some post \<and> run_ticks [req] pre = Some post"
    by (auto simp: entry_ok_def)
qed

text \<open>
  Batches that follow each other without a gap: from index \<open>from\<close> up to but not including \<open>to\<close>,
  each one starting from the stored state before it and ending in the stored state after it.
\<close>

definition batch_ok :: "clob_db \<Rightarrow> nat \<Rightarrow> nat \<Rightarrow> batch \<Rightarrow> bool" where
  "batch_ok db a e b \<longleftrightarrow> bat_start b = of_nat (Suc a) \<and> bat_end b = of_nat e \<and> a < e \<and>
     db_clob_state db (of_nat a) = Some (bat_state b) \<and> length (bat_requests b) = e - a \<and>
     (\<exists>post. run_ticks (bat_requests b) (bat_state b) = Some post \<and> db_clob_state db (of_nat e) = Some post)"

fun chain :: "clob_db \<Rightarrow> nat \<Rightarrow> batch list \<Rightarrow> nat \<Rightarrow> bool" where
  "chain db a [] e \<longleftrightarrow> a = e"
| "chain db a (b # bs) e \<longleftrightarrow> (\<exists>m. batch_ok db a m b \<and> chain db m bs e)"

lemma chain_le: "chain db a bs e \<Longrightarrow> a \<le> e"
  by (induction bs arbitrary: a) (auto simp: batch_ok_def intro: order.trans less_imp_le)

lemma chain_cong:
  assumes "chain db a bs e" and "\<And>i. i \<le> e \<Longrightarrow> db_clob_state db' (of_nat i) = db_clob_state db (of_nat i)"
  shows "chain db' a bs e"
  using assms
proof (induction bs arbitrary: a)
  case (Cons b bs)
  then obtain m where m: "batch_ok db a m b" "chain db m bs e" by auto
  then have "a \<le> e" "m \<le> e" using chain_le [OF m(2)] by (auto simp: batch_ok_def)
  with m(1) Cons.prems(2) have "batch_ok db' a m b" by (simp add: batch_ok_def)
  with Cons.IH [OF m(2)] Cons.prems(2) show ?case by auto
qed simp

lemma chain_snoc: "chain db a bs m \<Longrightarrow> batch_ok db m e b \<Longrightarrow> chain db a (bs @ [b]) e"
  by (induction bs arbitrary: a) auto

lemma chain_run:
  "chain db a bs e \<Longrightarrow> db_clob_state db (of_nat a) = Some s \<Longrightarrow>
     \<exists>post. run_ticks (concat (map bat_requests bs)) s = Some post \<and> db_clob_state db (of_nat e) = Some post"
  by (induction bs arbitrary: a s) (fastforce simp: batch_ok_def run_ticks_append)+

lemma chain_next:
  "chain db a bs e \<Longrightarrow> Suc i < length bs \<Longrightarrow>
     run_ticks (bat_requests (bs ! i)) (bat_state (bs ! i)) = Some (bat_state (bs ! Suc i))"
proof (induction bs arbitrary: a i)
  case (Cons b bs)
  then obtain m where m: "batch_ok db a m b" "chain db m bs e" by auto
  show ?case
  proof (cases i)
    case 0
    with Cons.prems(2) obtain b' bs' where bs: "bs = b' # bs'" by (cases bs) auto
    with m show ?thesis by (auto simp: 0 batch_ok_def)
  next
    case (Suc j)
    with Cons m(2) show ?thesis by simp
  qed
qed simp

text \<open>The batcher's part of the invariant; \<open>to\<close> is the last index that has been submitted.\<close>

definition batches_ok :: "clob_db \<Rightarrow> batch list \<Rightarrow> bool" where
  "batches_ok db bs \<longleftrightarrow> db_global_index db PROCESSED_GLOBAL_INDEX_KEY \<noteq> Some 0 \<and>
     (case db_global_index db NEXT_BATCH_GLOBAL_INDEX_KEY of
        None \<Rightarrow> bs = []
      | Some v \<Rightarrow> 0 < unat (processed_index db) \<and>
          (\<exists>e \<le> unat (processed_index db). v = of_nat (Suc e) \<and> chain db 0 bs e))"

lemma engine_inv_index:
  assumes "engine_inv n (e, db) outs"
  shows "\<exists>p \<le> n. tables_ok db p \<and> (\<forall>g s req. e = Seen g s req \<longrightarrow> p < n \<and> g = of_nat (Suc p))"
proof -
  obtain p where "p \<le> n" "tables_ok db p" "case e of Down \<Rightarrow> True | Idle g s \<Rightarrow> True
      | Seen g s req \<Rightarrow> p < n \<and> g = of_nat (Suc p)"
    using assms unfolding engine_inv_def by (cases e) auto
  then show ?thesis by (intro exI [of _ p]) auto
qed

lemma batches_ok_engine:
  assumes inv: "engine_inv n (e, db) outs" and ok: "batches_ok db bs" and "n < 2 ^ 64"
    and step: "engine_step (e, db) ev = Some ((e', db'), os)"
  shows "batches_ok db' bs"
proof -
  obtain p where p: "p \<le> n" "tables_ok db p"
    "\<And>g s req. e = Seen g s req \<Longrightarrow> p < n \<and> g = of_nat (Suc p)"
    using engine_inv_index [OF inv] by blast
  have up: "unat (processed_index db) = p"
    using p assms(3) by (simp add: tables_ok_def unat_of_nat)
  have keep: "batches_ok db' bs"
    if "db_global_index db' NEXT_BATCH_GLOBAL_INDEX_KEY = db_global_index db NEXT_BATCH_GLOBAL_INDEX_KEY"
      "db_global_index db' PROCESSED_GLOBAL_INDEX_KEY \<noteq> Some 0" "p \<le> unat (processed_index db')"
      "\<And>i. 0 < p \<Longrightarrow> i \<le> p \<Longrightarrow> db_clob_state db' (of_nat i) = db_clob_state db (of_nat i)"
  proof (cases "db_global_index db NEXT_BATCH_GLOBAL_INDEX_KEY")
    case None
    with ok that show ?thesis by (simp add: batches_ok_def)
  next
    case (Some v)
    with ok up obtain k where k: "0 < p" "k \<le> p" "v = of_nat (Suc k)" "chain db 0 bs k"
      by (auto simp: batches_ok_def)
    have "chain db' 0 bs k" using that(4) k by (intro chain_cong [OF k(4)]) auto
    with k that Some show ?thesis
      unfolding batches_ok_def by (simp del: of_nat_Suc) (intro exI [of _ k], simp)
  qed
  have nz: "db_global_index db PROCESSED_GLOBAL_INDEX_KEY \<noteq> Some 0" using ok by (simp add: batches_ok_def)
  show ?thesis
    using step
  proof (cases rule: engine_step.cases [of "((e, db), ev)"])
    case (1 d)
    with step show ?thesis
      using up nz by (intro keep) (auto simp: read_start_up_values_def Let_def GENESIS_GLOBAL_INDEX_def split: if_splits option.splits)
  next
    case (2 g s d req)
    with step show ?thesis
      using up nz by (intro keep) (auto simp: Let_def write_request_def key_defs processed_index_def)
  next
    case (3 g s req d)
    then have g: "p < n" "g = of_nat (Suc p)" using p(3) by auto
    have ug: "unat g = Suc p" using g assms(3) by (simp add: unat_of_nat del: of_nat_Suc)
    have "of_nat i \<noteq> g" if "i \<le> p" for i
      using that g assms(3) of_nat_u64 [of i "Suc p"] by (simp del: of_nat_Suc)
    with 3 step show ?thesis
      using up ug by (intro keep) (auto simp: write_results_def Let_def key_defs processed_index_def split: option.splits)
  next
    case (4 e0 d)
    with step show ?thesis using ok by auto
  qed (use step in auto)
qed

definition node_inv :: "nat \<Rightarrow> engine \<times> clob_db \<Rightarrow> api_response list \<Rightarrow> batch list \<Rightarrow> bool" where
  "node_inv n c outs bs \<longleftrightarrow> engine_inv n c outs \<and> batches_ok (snd c) bs"

text \<open>The other tasks write only keys that the engine's invariant does not mention.\<close>

lemma entry_ok_cong:
  "db_clob_state db' = db_clob_state db \<Longrightarrow> db_request db' = db_request db \<Longrightarrow>
     db_response db' = db_response db \<Longrightarrow> db_diff db' = db_diff db \<Longrightarrow> entry_ok db' i = entry_ok db i"
  by (simp add: entry_ok_def)

lemma engine_inv_other:
  assumes inv: "engine_inv n (e, db) outs"
    and eq: "db_clob_state db' = db_clob_state db" "db_request db' = db_request db"
      "db_response db' = db_response db" "db_diff db' = db_diff db"
      "db_global_index db' SEEN_GLOBAL_INDEX_KEY = db_global_index db SEEN_GLOBAL_INDEX_KEY"
      "db_global_index db' PROCESSED_GLOBAL_INDEX_KEY = db_global_index db PROCESSED_GLOBAL_INDEX_KEY"
  shows "engine_inv n (e, db') outs"
proof -
  have "processed_index db' = processed_index db" by (simp add: processed_index_def eq)
  then have "tables_ok db' p = tables_ok db p" "outs_ok db' p outs = outs_ok db p outs"
    "seen_ok db' p n = seen_ok db p n" "state_at db' p s = state_at db p s" for p s
    using entry_ok_cong [OF eq(1-4)] by (simp_all add: tables_ok_def outs_ok_def seen_ok_def state_at_def eq)
  with inv eq show ?thesis by (simp add: engine_inv_def cong: engine.case_cong)
qed

lemma chain_other: "db_clob_state db' = db_clob_state db \<Longrightarrow> chain db a bs e \<Longrightarrow> chain db' a bs e"
  by (erule chain_cong) simp

lemma batches_ok_other:
  assumes "batches_ok db bs" and "db_clob_state db' = db_clob_state db" "db_global_index db' = db_global_index db"
  shows "batches_ok db' bs"
  using assms chain_other [OF assms(2)]
  by (auto simp: batches_ok_def processed_index_def split: option.splits)

lemma unat_processed:
  assumes "engine_inv n (e, db) outs" and "n < 2 ^ 64"
  shows "unat (processed_index db) \<le> n" and "\<exists>p < 2 ^ 64. tables_ok db p"
  using engine_inv_index [OF assms(1)] assms(2)
  by (auto simp: tables_ok_def unat_of_nat intro: le_less_trans)

lemma those_length: "those xs = Some ys \<Longrightarrow> length ys = length xs"
  by (induction xs arbitrary: ys) (auto split: option.splits)

text \<open>Once the batcher has its index it never fails to read; what it reads continues the chain.\<close>

lemma read_batch_ok:
  assumes inv: "engine_inv n (e, db) outs" and n: "Suc n < 2 ^ 64" and ok: "batches_ok db bs"
    and nxt: "db_global_index db NEXT_BATCH_GLOBAL_INDEX_KEY = Some v"
  shows "read_batch db \<noteq> BatchError" and
    "read_batch db = Batch b \<Longrightarrow> \<exists>a. v = of_nat (Suc a) \<and> chain db 0 bs a \<and>
       batch_ok db a (unat (processed_index db)) b \<and> bat_end b = processed_index db"
proof -
  let ?p = "unat (processed_index db)"
  have n': "n < 2 ^ 64" using n by simp
  note pn = unat_processed [OF inv n']
  obtain k where k: "0 < ?p" "k \<le> ?p" "v = of_nat (Suc k)" "chain db 0 bs k"
    using ok nxt by (auto simp: batches_ok_def)
  have uv: "unat v = Suc k" using k(2,3) pn(1) n by (simp add: unat_of_nat del: of_nat_Suc)
  have pk: "db_global_index db PROCESSED_GLOBAL_INDEX_KEY = Some (processed_index db)"
    using k(1) by (auto simp: processed_index_def key_defs split: option.splits)
  have vm: "v - 1 = of_nat k" using k(3) by simp
  have lt: "processed_index db < v \<longleftrightarrow> \<not> k < ?p" using uv by (auto simp: word_less_nat_alt)
  have st: "\<exists>rs post s. db_clob_state db (of_nat k) = Some s \<and>
      read_all (db_request db) (map of_nat [Suc k ..< Suc ?p]) = Some rs \<and>
      run_ticks rs s = Some post \<and> db_clob_state db (of_nat ?p) = Some post" if kp: "k < ?p"
  proof -
    obtain s where s: "db_clob_state db (of_nat k) = Some s"
      using clob.history [OF pn(2) kp] by blast
    have "those (map (\<lambda>i. db_request db (of_nat i)) [Suc k ..< Suc ?p]) =
        read_all (db_request db) (map of_nat [Suc k ..< Suc ?p])"
      by (simp add: read_all_def comp_def)
    with clob.range_run [OF pn(2) _ order.refl s] kp s show ?thesis by auto
  qed
  show "read_batch db \<noteq> BatchError"
    using st lt uv by (cases "k < ?p") (auto simp: read_batch_def nxt pk vm)
  assume "read_batch db = Batch b"
  then have "k < ?p" using lt by (auto simp: read_batch_def nxt pk split: if_splits)
  with st obtain rs post s where r: "db_clob_state db (of_nat k) = Some s"
    "read_all (db_request db) (map of_nat [Suc k ..< Suc ?p]) = Some rs"
    "run_ticks rs s = Some post" "db_clob_state db (of_nat ?p) = Some post" by blast
  have "length rs = ?p - k" using those_length [of "map (db_request db) (map of_nat [Suc k ..< Suc ?p])" rs] r(2)
    using \<open>k < ?p\<close> by (simp add: read_all_def del: upt_Suc)
  moreover have be: "b = \<lparr>bat_start = v, bat_end = processed_index db, bat_state = s, bat_requests = rs\<rparr>"
    using \<open>read_batch db = Batch b\<close> \<open>k < ?p\<close> lt r(1,2) uv by (simp add: read_batch_def nxt pk vm)
  ultimately have "batch_ok db k ?p b"
    using r k(3) \<open>k < ?p\<close> by (simp add: batch_ok_def)
  then show "\<exists>a. v = of_nat (Suc a) \<and> chain db 0 bs a \<and> batch_ok db a ?p b \<and> bat_end b = processed_index db"
    using k(3,4) be by auto
qed

lemma node_inv_batcher:
  assumes inv: "node_inv n (e, db) outs bs" and n: "Suc n < 2 ^ 64" and rb: "read_batch db = Batch b"
    and t: "batcher_turn env outcome db job_nonce = (job, Some (db', job_nonce'))"
  shows "node_inv n (e, db') outs (bs @ [b])"
proof -
  have ei: "engine_inv n (e, db) outs" and bo: "batches_ok db bs" using inv by (simp_all add: node_inv_def)
  have db': "db' = db\<lparr>db_global_index := (db_global_index db)(NEXT_BATCH_GLOBAL_INDEX_KEY \<mapsto> bat_end b + 1)\<rparr>"
    using t rb by (auto simp: batcher_turn_def Let_def split: if_splits)
  from rb obtain v where v: "db_global_index db NEXT_BATCH_GLOBAL_INDEX_KEY = Some v"
    by (auto simp: read_batch_def split: option.splits)
  let ?p = "unat (processed_index db)"
  from read_batch_ok(2) [OF ei n bo v rb] obtain a where
    a: "chain db 0 bs a" "batch_ok db a ?p b" "bat_end b = processed_index db" by blast
  have st: "db_clob_state db' = db_clob_state db" and pi: "processed_index db' = processed_index db"
    by (simp_all add: db' processed_index_def key_defs)
  have "chain db' 0 (bs @ [b]) ?p" using chain_other [OF st chain_snoc [OF a(1,2)]] .
  moreover have "0 < ?p" using a(2) by (simp add: batch_ok_def)
  moreover have "db_global_index db' NEXT_BATCH_GLOBAL_INDEX_KEY = Some (of_nat (Suc ?p))"
    by (simp add: db' a(3))
  moreover have "db_global_index db' PROCESSED_GLOBAL_INDEX_KEY \<noteq> Some 0"
    using bo by (simp add: db' batches_ok_def key_defs)
  ultimately have "batches_ok db' (bs @ [b])" using pi by (auto simp: batches_ok_def)
  moreover have "engine_inv n (e, db') outs" by (rule engine_inv_other [OF ei]) (simp_all add: db' key_defs)
  ultimately show ?thesis by (simp add: node_inv_def)
qed

lemma node_inv_batcher_init:
  assumes inv: "node_inv n (e, db) outs bs" and i: "ensure_initialized db = Some db'"
  shows "node_inv n (e, db') outs bs"
proof (cases "db_global_index db NEXT_BATCH_GLOBAL_INDEX_KEY")
  case (Some v)
  with i have "db' = db" by (simp add: ensure_initialized_def split: option.splits)
  with inv show ?thesis by simp
next
  case None
  with i have db': "db' = db\<lparr>db_global_index := (db_global_index db)(NEXT_BATCH_GLOBAL_INDEX_KEY \<mapsto> INIT_INDEX)\<rparr>"
    and pr: "db_global_index db PROCESSED_GLOBAL_INDEX_KEY \<noteq> None"
    by (auto simp: ensure_initialized_def split: option.splits)
  have ei: "engine_inv n (e, db) outs" and bo: "batches_ok db bs" using inv by (simp_all add: node_inv_def)
  have "bs = []" using bo None by (simp add: batches_ok_def)
  moreover have "0 < unat (processed_index db)"
    using pr bo by (auto simp: processed_index_def batches_ok_def unat_gt_0 split: option.splits)
  ultimately have "batches_ok db' bs"
    using bo by (auto simp: db' batches_ok_def processed_index_def key_defs)
  moreover have "engine_inv n (e, db') outs" by (rule engine_inv_other [OF ei]) (simp_all add: db' key_defs)
  ultimately show ?thesis by (simp add: node_inv_def)
qed

lemma node_reach_inv: "node_reach n c outs bs \<Longrightarrow> Suc n < 2 ^ 64 \<Longrightarrow> node_inv n c outs bs"
proof (induction rule: node_reach.induct)
  case init
  show ?case by (simp add: node_inv_def engine_inv_init) (simp add: batches_ok_def empty_db_def)
next
  case (engine n c outs bs ev c' os)
  then have i: "node_inv n c outs bs" and n: "n < 2 ^ 64" by simp_all
  obtain e db e' db' where c: "c = (e, db)" "c' = (e', db')" by force
  from engine_inv_step [OF _ engine(2) refl] batches_ok_engine [of n e db outs bs ev e' db' os] i n engine(2) engine.prems
  show ?case by (simp add: node_inv_def c)
next
  case (batcher_init n e db outs bs db')
  then show ?case using node_inv_batcher_init by blast
next
  case (batcher n e db outs bs b env outcome job_nonce job db' job_nonce')
  then show ?case using node_inv_batcher by blast
next
  case (height n e db outs bs h)
  then have "engine_inv n (e, db) outs" "batches_ok db bs" by (simp_all add: node_inv_def)
  then show ?case
    using engine_inv_other [of n e db outs "db\<lparr>db_block_height := (db_block_height db)(LAST_SEEN_HEIGHT_KEY \<mapsto> h)\<rparr>"]
      batches_ok_other [of db bs "db\<lparr>db_block_height := (db_block_height db)(LAST_SEEN_HEIGHT_KEY \<mapsto> h)\<rparr>"]
    by (simp add: node_inv_def)
qed

section \<open>Properties\<close>

lemma node_engine_inv: "node_reach n c outs bs \<Longrightarrow> Suc n < 2 ^ 64 \<Longrightarrow> engine_inv n c outs"
  using node_reach_inv by (auto simp: node_inv_def)


lemma sample_start:
  "engine_step (Down, empty_db) Start =
     Some ((Idle 0 default_clob_state, empty_db\<lparr>db_clob_state := [0 \<mapsto> default_clob_state]\<rparr>), [])"
  by (simp add: read_start_up_values_def processed_index_def empty_db_def key_defs)

lemma sample_reach: "node_reach 0 (Idle 0 default_clob_state, empty_db\<lparr>db_clob_state := [0 \<mapsto> default_clob_state]\<rparr>) [] []"
  using node_reach.engine [OF node_reach.init sample_start] by simp

text \<open>A run that processes one deposit.\<close>

definition sample_deposit :: request where
  "sample_deposit = Deposit \<lparr>dep_address = 1, dep_base_free = 2, dep_quote_free = 3\<rparr>"

lemma sample_processed:
  "\<exists>s db resp. node_reach 1 (Idle 1 s, db) [\<lparr>api_response = resp, api_global_index = 1\<rparr>] [] \<and>
     db_global_index db PROCESSED_GLOBAL_INDEX_KEY = Some 1 \<and>
     db_global_index db NEXT_BATCH_GLOBAL_INDEX_KEY = None \<and>
     db_clob_state db 0 = Some default_clob_state \<and> db_request db 1 = Some sample_deposit"
proof -
  let ?db = "empty_db\<lparr>db_clob_state := [0 \<mapsto> default_clob_state]\<rparr>"
  obtain resp s ds where t: "tick sample_deposit default_clob_state = Some (resp, s, ds)"
    using tick_total [OF state_ok_default] .
  have "engine_step (Idle 0 default_clob_state, ?db) (Recv sample_deposit) =
      Some ((Seen 1 default_clob_state sample_deposit, write_request 1 sample_deposit ?db), [])"
    by (simp add: Let_def)
  from node_reach.engine [OF sample_reach this]
  have 1: "node_reach 1 (Seen 1 default_clob_state sample_deposit, write_request 1 sample_deposit ?db) [] []"
    by simp
  let ?db' = "write_results 1 resp s ds (write_request 1 sample_deposit ?db)"
  have "engine_step (Seen 1 default_clob_state sample_deposit, write_request 1 sample_deposit ?db) Process =
      Some ((Idle 1 s, ?db'), [\<lparr>api_response = resp, api_global_index = 1\<rparr>])"
    by (simp add: t)
  from node_reach.engine [OF 1 this]
  have "node_reach 1 (Idle 1 s, ?db') [\<lparr>api_response = resp, api_global_index = 1\<rparr>] []" by simp
  moreover have "db_global_index ?db' PROCESSED_GLOBAL_INDEX_KEY = Some 1"
    "db_global_index ?db' NEXT_BATCH_GLOBAL_INDEX_KEY = None"
    by (simp_all add: write_results_def write_request_def Let_def empty_db_def key_defs)
  moreover have "db_clob_state ?db' 0 = Some default_clob_state" "db_request ?db' 1 = Some sample_deposit"
    by simp_all
  ultimately show ?thesis by blast
qed


text \<open>
  C4. Crash safety of the engine: in every reachable configuration the database holds a gapless
  history. For every processed index, the stored state, response and diffs are exactly those of
  running \<open>tick\<close> on the stored request and the previous stored state; the index last seen is the
  processed index or the one after it; and every response that was sent to a client carries its
  own index, in increasing order, and is the one that the database records at that index.
\<close>

theorem engine_history_consistent:
  assumes "node_reach n (e, db) outs bs" and "Suc n < 2 ^ 64"
  shows "\<exists>p \<le> n. processed_index db = of_nat p \<and> (\<forall>i < p. entry_ok db i) \<and>
    (\<forall>g. db_global_index db SEEN_GLOBAL_INDEX_KEY = Some g \<longrightarrow> g = of_nat p \<or> g = of_nat (Suc p)) \<and>
    sorted_wrt (\<lambda>x y. unat (api_global_index x) < unat (api_global_index y)) outs \<and>
    (\<forall>out \<in> set outs. unat (api_global_index out) \<le> p \<and>
       db_response db (api_global_index out) = Some (api_response out))"
proof -
  obtain p where "p \<le> n" "tables_ok db p" "outs_ok db p outs" "seen_ok db p n"
    using node_engine_inv [OF assms] by (auto simp: engine_inv_def)
  then show ?thesis
    by (intro exI [of _ p]) (auto simp: tables_ok_def outs_ok_def seen_ok_def split: option.splits)
qed

theorem engine_history_consistent_witness:
  "\<exists>s db out. node_reach 1 (Idle 1 s, db) [out] [] \<and> db_response db (api_global_index out) = Some (api_response out)"
proof -
  obtain s db resp where "node_reach 1 (Idle 1 s, db) [\<lparr>api_response = resp, api_global_index = 1\<rparr>] []"
    using sample_processed by blast
  from this engine_history_consistent [OF this] show ?thesis by fastforce
qed

text \<open>
  C5. Batches chain: the batches that the node submits, taken one after the other, are exactly one
  run of \<open>tick\<close> from the default state, with no request lost, repeated or reordered between two
  batches; and the state root that the state transition function of the guest computes for a
  batch is the input state root of the next batch, across any crash and restart of the engine in
  between.
\<close>

theorem batches_chain_roots:
  assumes "node_reach n (e, db) outs bs" and "Suc n < 2 ^ 64"
  shows "(\<exists>post. run_ticks (concat (map bat_requests bs)) default_clob_state = Some post) \<and>
    (\<forall>b bs'. bs = b # bs' \<longrightarrow> bat_state b = default_clob_state) \<and>
    (\<forall>i. Suc i < length bs \<longrightarrow>
       map_option sar_output_state_root
         (zkvm_stf keccak enc iter_o iter_w iter_d (bat_requests (bs ! i)) (bat_state (bs ! i))) =
       Some (keccak (bat_state (bs ! Suc i))))"
proof -
  have ni: "node_inv n (e, db) outs bs" by (rule node_reach_inv [OF assms])
  show ?thesis
  proof (cases "bs = []")
    case False
    with ni obtain k where k: "chain db 0 bs k" "0 < unat (processed_index db)"
      by (auto simp: node_inv_def batches_ok_def split: option.splits)
    obtain p where p: "tables_ok db p" "p \<le> n"
      using ni engine_inv_index [of n e db outs] by (auto simp: node_inv_def)
    then have z: "db_clob_state db (of_nat 0) = Some default_clob_state"
      using k(2) by (auto simp: tables_ok_def)
    have "bat_state b = default_clob_state" if "bs = b # bs'" for b bs'
      using that k(1) z by (auto simp: batch_ok_def)
    with chain_run [OF k(1) z] chain_next [OF k(1)] show ?thesis
      unfolding zkvm_stf_root by auto
  qed simp
qed

definition sample_env :: batch_env where
  "sample_env = \<lparr>be_requests_borsh = (\<lambda>rs. map (\<lambda>_. 0) rs), be_state_borsh = (\<lambda>_. []),
     be_keccak256 = (\<lambda>_. 0), be_encode_onchain = (\<lambda>_. []), be_encode_job = (\<lambda>_. []),
     be_sign = (\<lambda>_. []), be_program_id = [], be_consumer = 0\<rparr>"

lemma sample_batch:
  "\<exists>e db b outs. node_reach 1 (e, db) outs [b] \<and> bat_requests b = [sample_deposit] \<and>
     bat_state b = default_clob_state"
proof -
  obtain s db resp where r: "node_reach 1 (Idle 1 s, db) [\<lparr>api_response = resp, api_global_index = 1\<rparr>] []"
    and d: "db_global_index db PROCESSED_GLOBAL_INDEX_KEY = Some 1"
      "db_global_index db NEXT_BATCH_GLOBAL_INDEX_KEY = None"
      "db_clob_state db 0 = Some default_clob_state" "db_request db 1 = Some sample_deposit"
    using sample_processed by blast
  let ?db = "db\<lparr>db_global_index := (db_global_index db)(NEXT_BATCH_GLOBAL_INDEX_KEY \<mapsto> INIT_INDEX)\<rparr>"
  let ?b = "\<lparr>bat_start = 1, bat_end = 1, bat_state = default_clob_state, bat_requests = [sample_deposit]\<rparr>"
  have "ensure_initialized db = Some ?db" by (simp add: ensure_initialized_def d)
  from node_reach.batcher_init [OF r this]
  have r1: "node_reach 1 (Idle 1 s, ?db) [\<lparr>api_response = resp, api_global_index = 1\<rparr>] []" .
  have "db_global_index ?db PROCESSED_GLOBAL_INDEX_KEY = Some 1" using d(1) by (simp add: key_defs)
  then have b: "read_batch ?db = Batch ?b"
    by (simp add: read_batch_def d read_all_def INIT_INDEX_def)
  then have "batcher_turn sample_env (\<lambda>_. True) ?db 1 = (Some (snd (batch_job sample_env 1 ?b)),
      Some (?db\<lparr>db_global_index := (db_global_index ?db)(NEXT_BATCH_GLOBAL_INDEX_KEY \<mapsto> 2)\<rparr>, 2))"
    by (simp add: batcher_turn_def submit_job_with_backoff_def numeral_3_eq_3 Let_def)
  from node_reach.batcher [OF r1 b this] show ?thesis by fastforce
qed

theorem batches_chain_roots_witness:
  "\<exists>e db b outs. node_reach 1 (e, db) outs [b] \<and> bat_requests b = [sample_deposit] \<and>
     run_ticks (bat_requests b) default_clob_state \<noteq> None"
proof -
  obtain e db b outs where "node_reach 1 (e, db) outs [b]" "bat_requests b = [sample_deposit]"
    using sample_batch by blast
  with batches_chain_roots [of 1 e db outs "[b]"] show ?thesis by fastforce
qed

text \<open>
  What the batcher submits is what the guest runs: if Borsh decodes what it encoded and the
  encoded requests are shorter than \<open>2 ^ 32\<close> bytes, the guest program splits the submitted input
  at the right place and its result is that of the state transition function on the requests and
  the state of the batch.
\<close>

lemma guest_runs_submitted:
  assumes "parse_requests (be_requests_borsh env (bat_requests b)) = Some (bat_requests b)"
    and "parse_state (be_state_borsh env (bat_state b)) = Some (bat_state b)"
    and "length (be_requests_borsh env (bat_requests b)) < 2 ^ 32"
  shows "guest_main parse_requests parse_state stf onchain
      (sj_offchain_input (snd (batch_job env nonce b))) = stf (bat_requests b) (bat_state b)"
  using assms by (simp add: guest_main_def batch_job_def Let_def guest_split_combined)

section \<open>Retries of the batcher\<close>

lemma submit_attempts_success:
  "fst (submit_attempts n outcome backoff) \<longleftrightarrow> (\<exists>i < n. outcome i)"
proof (induction n outcome backoff rule: submit_attempts.induct)
  case (2 n outcome backoff)
  have "(\<exists>i < Suc n. outcome i) \<longleftrightarrow> outcome 0 \<or> (\<exists>i < n. outcome (Suc i))"
    by (metis Suc_less_eq not0_implies_Suc zero_less_Suc)
  with 2 show ?case by (auto simp: split: prod.splits)
qed simp

text \<open>
  The batcher makes at most three attempts: \<open>submit_job_with_backoff\<close> succeeds exactly when one
  of the first three submissions does, and it sleeps 1, 8 and 64 seconds after the first, second
  and third failure.
\<close>

theorem submit_backoff_exact:
  "fst (submit_job_with_backoff outcome) = (outcome 0 \<or> outcome 1 \<or> outcome 2) \<and>
   snd (submit_job_with_backoff outcome) =
     take (if outcome 0 then 0 else if outcome 1 then 1 else if outcome 2 then 2 else 3) [1, 8, 64]"
  by (auto simp: submit_job_with_backoff_def numeral_3_eq_3 numeral_2_eq_2)

section \<open>The deposit event listener\<close>

record deposit_event =
  de_user :: address
  de_base_amount :: u256
  de_quote_amount :: u256

text \<open>\<open>U256::try_into::<u64>\<close>.\<close>

definition u64_of_u256 :: "u256 \<Rightarrow> u64 option" where
  "u64_of_u256 w = (if unat w < 2 ^ 64 then Some (ucast w) else None)"

text \<open>The first block to read: the configured one or the stored one, whichever is later.\<close>

definition listener_start :: "u64 option \<Rightarrow> clob_db \<Rightarrow> u64" where
  "listener_start from_block db =
     (let last_seen_block = (case from_block of None \<Rightarrow> 0 | Some n \<Rightarrow> n) in
      case db_block_height db LAST_SEEN_HEIGHT_KEY of
        None \<Rightarrow> last_seen_block
      | Some last_saved_height \<Rightarrow>
          if last_saved_height > last_seen_block then last_saved_height else last_seen_block)"

text \<open>The sleeps while the web socket cannot be opened: the delay after the given number of failures.\<close>

fun provider_retry :: "nat \<Rightarrow> nat" where
  "provider_retry 0 = 1"
| "provider_retry (Suc n) = (let r = provider_retry n in if r * 3 < 5 * 60 * 1000 then r + 1 else r)"

definition provider_sleep_millis :: "nat \<Rightarrow> nat" where
  "provider_sleep_millis n = provider_retry n * 3"

text \<open>
  The loop over the events of one block: the requests sent to the engine, and whether it came to
  the end (\<open>False\<close> is the \<open>?\<close> on an amount that does not fit, which ends the listener).
\<close>

fun process_events :: "deposit_event list \<Rightarrow> request list \<times> bool" where
  "process_events [] = ([], True)"
| "process_events (ev # events) =
     (case u64_of_u256 (de_base_amount ev) of
        None \<Rightarrow> ([], False)
      | Some b \<Rightarrow>
          (case u64_of_u256 (de_quote_amount ev) of
             None \<Rightarrow> ([], False)
           | Some q \<Rightarrow>
               let (reqs, ok) = process_events events
               in (Deposit \<lparr>dep_address = de_user ev, dep_base_free = b, dep_quote_free = q\<rparr> # reqs, ok)))"

text \<open>One block: the height is stored after all of its events have been processed.\<close>

definition listener_block :: "(u64 \<Rightarrow> deposit_event list) \<Rightarrow> u64 \<Rightarrow> clob_db
    \<Rightarrow> request list \<times> (u64 \<times> clob_db) option" where
  "listener_block chain_events last_seen_block db =
     (let (reqs, ok) = process_events (chain_events last_seen_block) in
      if ok
      then (let last_seen_block = last_seen_block + 1
            in (reqs, Some (last_seen_block,
                 db\<lparr>db_block_height := (db_block_height db)(LAST_SEEN_HEIGHT_KEY \<mapsto> last_seen_block)\<rparr>)))
      else (reqs, None))"

text \<open>The listener over \<open>n\<close> blocks: the requests sent and the outcome.\<close>

fun listener_blocks :: "(u64 \<Rightarrow> deposit_event list) \<Rightarrow> nat \<Rightarrow> u64 \<Rightarrow> clob_db
    \<Rightarrow> request list \<times> (u64 \<times> clob_db) option" where
  "listener_blocks ev 0 h db = ([], Some (h, db))"
| "listener_blocks ev (Suc n) h db =
     (case listener_block ev h db of
        (reqs, None) \<Rightarrow> (reqs, None)
      | (reqs, Some (h', db')) \<Rightarrow>
          (let (reqs', r) = listener_blocks ev n h' db' in (reqs @ reqs', r)))"

text \<open>What a block means when every amount fits.\<close>

definition fits :: "deposit_event \<Rightarrow> bool" where
  "fits ev \<longleftrightarrow> unat (de_base_amount ev) < 2 ^ 64 \<and> unat (de_quote_amount ev) < 2 ^ 64"

definition event_request :: "deposit_event \<Rightarrow> request" where
  "event_request ev = Deposit \<lparr>dep_address = de_user ev, dep_base_free = ucast (de_base_amount ev),
     dep_quote_free = ucast (de_quote_amount ev)\<rparr>"

lemma process_events_eq:
  "process_events events = (map event_request (takeWhile fits events), list_all fits events)"
  by (induction events) (auto simp: fits_def u64_of_u256_def event_request_def split: prod.splits)

lemma listener_blocks_eq:
  "(\<And>i. i < n \<Longrightarrow> list_all fits (ev (h + of_nat i))) \<Longrightarrow>
     \<exists>db'. listener_blocks ev n h db =
       (concat (map (\<lambda>i. map event_request (ev (h + of_nat i))) [0 ..< n]), Some (h + of_nat n, db')) \<and>
     (0 < n \<longrightarrow> db_block_height db' LAST_SEEN_HEIGHT_KEY = Some (h + of_nat n))"
proof (induction n arbitrary: h db)
  case (Suc n)
  have all: "takeWhile fits (ev h) = ev h" "list_all fits (ev h)"
    using Suc.prems [of 0] by (simp_all add: list_all_iff)
  let ?db = "db\<lparr>db_block_height := (db_block_height db)(LAST_SEEN_HEIGHT_KEY \<mapsto> h + 1)\<rparr>"
  have b: "listener_block ev h db = (map event_request (ev h), Some (h + 1, ?db))"
    by (simp add: listener_block_def process_events_eq all Let_def)
  have "list_all fits (ev (h + 1 + of_nat i))" if "i < n" for i
    using Suc.prems [of "Suc i"] that by (simp add: algebra_simps)
  from Suc.IH [OF this, of ?db] obtain db' where r: "listener_blocks ev n (h + 1) ?db =
      (concat (map (\<lambda>i. map event_request (ev (h + 1 + of_nat i))) [0 ..< n]), Some (h + 1 + of_nat n, db'))"
    "0 < n \<longrightarrow> db_block_height db' LAST_SEEN_HEIGHT_KEY = Some (h + 1 + of_nat n)" by auto
  have u: "[0 ..< Suc n] = 0 # map Suc [0 ..< n]" by (simp add: map_Suc_upt upt_conv_Cons del: upt_Suc)
  show ?case
  proof (cases "n = 0")
    case True
    with b show ?thesis by simp
  next
    case False
    with b r show ?thesis
      by (simp add: u comp_def algebra_simps del: upt_Suc)
  qed
qed simp

text \<open>
  Without a crash the deposit listener credits every deposit once and in order: over \<open>n\<close> blocks
  whose amounts fit into 64 bits it sends exactly the deposits of these blocks, in block and log
  order, and then stores the number of the next block.
\<close>

theorem listener_credits_each_deposit:
  assumes "\<And>i. i < n \<Longrightarrow> list_all fits (ev (h + of_nat i))" and "0 < n"
  shows "\<exists>db'. listener_blocks ev n h db =
      (concat (map (\<lambda>i. map event_request (ev (h + of_nat i))) [0 ..< n]), Some (h + of_nat n, db')) \<and>
    db_block_height db' LAST_SEEN_HEIGHT_KEY = Some (h + of_nat n)"
  using listener_blocks_eq [of n ev h db] assms by auto

definition small_event :: deposit_event where
  "small_event = \<lparr>de_user = 1, de_base_amount = 2, de_quote_amount = 3\<rparr>"

definition big_event :: deposit_event where
  "big_event = \<lparr>de_user = 4, de_base_amount = 2 ^ 64, de_quote_amount = 0\<rparr>"

lemma sample_events:
  "fits small_event" "\<not> fits big_event" "event_request small_event = sample_deposit"
  by (simp_all add: fits_def small_event_def big_event_def event_request_def sample_deposit_def)

theorem listener_credits_each_deposit_witness:
  "fst (listener_blocks (\<lambda>b. if b = 5 then [small_event] else []) 1 5 empty_db) = [sample_deposit]"
proof -
  let ?ev = "\<lambda>b :: u64. if b = 5 then [small_event] else []"
  have "\<exists>db'. listener_blocks ?ev 1 5 empty_db =
      (concat (map (\<lambda>i. map event_request (?ev (5 + of_nat i))) [0 ..< 1]), Some (5 + of_nat 1, db')) \<and>
    db_block_height db' LAST_SEEN_HEIGHT_KEY = Some (5 + of_nat 1)"
    by (rule listener_credits_each_deposit [where ev = ?ev and n = 1 and h = 5]) (simp_all add: sample_events)
  then obtain db' where "listener_blocks ?ev 1 5 empty_db =
      (concat (map (\<lambda>i. map event_request (?ev (5 + of_nat i))) [0 ..< 1]), Some (5 + of_nat 1, db'))"
    by (elim exE conjE) (rule that)
  then have "fst (listener_blocks ?ev 1 5 empty_db) =
      concat (map (\<lambda>i. map event_request (?ev (5 + of_nat i))) [0 ..< 1])"
    by (simp only: fst_conv)
  also have "\<dots> = [sample_deposit]" by (simp add: sample_events)
  finally show ?thesis .
qed

text \<open>
  Starting the listener again and again on a block with an amount that does not fit: each start
  reads the block from its beginning.
\<close>

fun listener_restarts :: "(u64 \<Rightarrow> deposit_event list) \<Rightarrow> u64 option \<Rightarrow> nat \<Rightarrow> clob_db \<Rightarrow> request list" where
  "listener_restarts ev from_block 0 db = []"
| "listener_restarts ev from_block (Suc k) db =
     (let (reqs, r) = listener_blocks ev 1 (listener_start from_block db) db;
          db = (case r of None \<Rightarrow> db | Some (_, db') \<Rightarrow> db')
      in reqs @ listener_restarts ev from_block k db)"

text \<open>
  A deposit whose amount exceeds 64 bits stops the listener for good, and every restart of the
  node credits the deposits before it in the same block once more: the block height is stored
  only after the whole block, so \<open>k\<close> restarts send them \<open>k\<close> times.
\<close>

theorem oversized_deposit_repeats_block:
  assumes "\<not> list_all fits (ev (listener_start from_block db))"
  shows "listener_restarts ev from_block k db =
    concat (replicate k (map event_request (takeWhile fits (ev (listener_start from_block db)))))"
proof -
  have "listener_blocks ev 1 (listener_start from_block db) db =
      (map event_request (takeWhile fits (ev (listener_start from_block db))), None)"
    using assms by (simp add: listener_block_def process_events_eq)
  then show ?thesis by (induction k) simp_all
qed

theorem oversized_deposit_repeats_block_witness:
  "listener_restarts (\<lambda>b. [small_event, big_event]) None 3 empty_db =
   [sample_deposit, sample_deposit, sample_deposit]"
proof -
  have "listener_restarts (\<lambda>b. [small_event, big_event]) None 3 empty_db =
      concat (replicate 3 (map event_request (takeWhile fits [small_event, big_event])))"
    by (rule oversized_deposit_repeats_block) (simp add: sample_events)
  also have "\<dots> = [sample_deposit, sample_deposit, sample_deposit]"
    by (simp add: sample_events numeral_3_eq_3)
  finally show ?thesis .
qed

lemma provider_retry_bound: "provider_retry n \<le> 100000"
  by (induction n) (auto simp: Let_def)

lemma provider_retry_eq: "provider_retry n = min (Suc n) 100000"
  by (induction n) (auto simp: Let_def min_def)

section \<open>The HTTP handlers and the node's result\<close>

datatype app_response = Success api_response | Failure string

text \<open>The outcomes of sending a request to the engine and awaiting its one-shot answer.\<close>

datatype channel_result = SendFailed | RecvFailed | Answered api_response

definition handle_request :: "channel_result \<Rightarrow> app_response" where
  "handle_request r = (case r of
     SendFailed \<Rightarrow> Failure ''engine receive unexpectedly dropped''
   | RecvFailed \<Rightarrow> Failure ''engine oneshot sender unexpectedly dropped''
   | Answered resp \<Rightarrow> Success resp)"

text \<open>The four \<open>POST\<close> routes wrap their body as a request; \<open>engine\<close> is the round trip to the engine.\<close>

definition app_deposit :: "(request \<Rightarrow> channel_result) \<Rightarrow> deposit_request \<Rightarrow> app_response" where
  "app_deposit engine req = handle_request (engine (Deposit req))"

definition app_withdraw :: "(request \<Rightarrow> channel_result) \<Rightarrow> withdraw_request \<Rightarrow> app_response" where
  "app_withdraw engine req = handle_request (engine (Withdraw req))"

definition app_add_order :: "(request \<Rightarrow> channel_result) \<Rightarrow> add_order_request \<Rightarrow> app_response" where
  "app_add_order engine req = handle_request (engine (AddOrder req))"

definition app_cancel :: "(request \<Rightarrow> channel_result) \<Rightarrow> cancel_order_request \<Rightarrow> app_response" where
  "app_cancel engine req = handle_request (engine (CancelOrder req))"

text \<open>\<open>GET /clob-state\<close>: the hex string of the encoded state, or the index that has no state.\<close>

definition app_clob_state :: "(clob_state \<Rightarrow> bytes) \<Rightarrow> (bytes \<Rightarrow> string) \<Rightarrow> clob_db \<Rightarrow> u64 + string" where
  "app_clob_state borsh hex_encode db =
     (let i = processed_index db in
      case db_clob_state db i of
        None \<Rightarrow> Inl i
      | Some clob_state \<Rightarrow> Inr (hex_encode (borsh clob_state)))"

definition http_status :: "app_response \<Rightarrow> nat" where
  "http_status r = (case r of Success _ \<Rightarrow> 200 | Failure _ \<Rightarrow> 500)"

text \<open>\<open>flatten\<close> on the result of a joined task.\<close>

datatype ('e, 'a) join_result = Joined "'e + 'a" | JoinError string

definition flatten :: "(string \<Rightarrow> 'e) \<Rightarrow> ('e, 'a) join_result \<Rightarrow> 'e + 'a" where
  "flatten report r = (case r of
     Joined (Inr result) \<Rightarrow> Inr result
   | Joined (Inl err) \<Rightarrow> Inl err
   | JoinError err \<Rightarrow> Inl (report err))"

text \<open>
  The state endpoint shows the latest processed state: while the engine is running, \<open>GET
  /clob-state\<close> never fails, and when the engine is waiting for a request it returns the engine's
  own current state.
\<close>

lemma clob_state_view_current:
  assumes "node_reach n (e, db) outs bs" and "Suc n < 2 ^ 64"
  shows "case e of
      Down \<Rightarrow> True
    | Idle g s \<Rightarrow> app_clob_state borsh hex db = Inr (hex (borsh s))
    | Seen g s req \<Rightarrow> app_clob_state borsh hex db = Inr (hex (borsh s))"
proof -
  obtain p where "tables_ok db p" "case e of Down \<Rightarrow> True | Idle g s \<Rightarrow> state_at db p s | Seen g s req \<Rightarrow> state_at db p s"
    using node_engine_inv [OF assms] unfolding engine_inv_def by (cases e) auto
  then show ?thesis
    by (cases e) (simp_all add: app_clob_state_def tables_ok_def state_at_def)
qed

lemma clob_state_view_current_example:
  "app_clob_state (\<lambda>s. [ucast (cs_oid s)]) (\<lambda>bs. ''00'')
     (empty_db\<lparr>db_clob_state := [0 \<mapsto> default_clob_state]\<rparr>) = Inr ''00''"
  using clob_state_view_current [OF sample_reach] by simp

end
