(* ===== verification/CoprocDb.thy ===== *)
theory CoprocDb
  imports Abi
begin

text \<open>
  The database of the coprocessor node: the persisted types and tables
  (\<^verbatim>\<open>crates/db/src/tables.rs\<close>), the read functions (\<^verbatim>\<open>crates/db/src/lib.rs\<close>) and the writer
  thread through which all writes go (\<^verbatim>\<open>crates/coproc/src/writer.rs\<close>). A table is an ordered map
  from its key type; the key of the ELF and program tables is a SHA-256 digest, which is a
  parameter. The storage engine is a library: whether one of its transactions fails is an input of
  the writer.
\<close>

section \<open>Types of the node protocol\<close>

text \<open>The enumerations of the protocol and their wire values (an \<open>i32\<close>).\<close>

datatype job_status_type = JUnspecified | JPending | JDone | JFailed | JRelayed

fun job_status_code :: "job_status_type \<Rightarrow> 32 word" where
  "job_status_code JUnspecified = 0"
| "job_status_code JPending = 1"
| "job_status_code JDone = 2"
| "job_status_code JFailed = 3"
| "job_status_code JRelayed = 4"

fun job_status_name :: "job_status_type \<Rightarrow> string" where
  "job_status_name JUnspecified = ''JOB_STATUS_TYPE_UNSPECIFIED''"
| "job_status_name JPending = ''JOB_STATUS_TYPE_PENDING''"
| "job_status_name JDone = ''JOB_STATUS_TYPE_DONE''"
| "job_status_name JFailed = ''JOB_STATUS_TYPE_FAILED''"
| "job_status_name JRelayed = ''JOB_STATUS_TYPE_RELAYED''"

definition job_status_from_name :: "string \<Rightarrow> job_status_type option" where
  "job_status_from_name value =
     (if value = ''JOB_STATUS_TYPE_UNSPECIFIED'' then Some JUnspecified
      else if value = ''JOB_STATUS_TYPE_PENDING'' then Some JPending
      else if value = ''JOB_STATUS_TYPE_DONE'' then Some JDone
      else if value = ''JOB_STATUS_TYPE_FAILED'' then Some JFailed
      else if value = ''JOB_STATUS_TYPE_RELAYED'' then Some JRelayed
      else None)"

record job_status =
  js_status :: "32 word"
  js_failure_reason :: "string option"
  js_retries :: u32

datatype vm_type = Sp1

fun vm_type_code :: "vm_type \<Rightarrow> 32 word" where
  "vm_type_code Sp1 = 0"

definition vm_type_try_from :: "32 word \<Rightarrow> vm_type option" where
  "vm_type_try_from i = (if i = 0 then Some Sp1 else None)"

datatype relay_strategy = Unordered | Ordered

fun relay_strategy_code :: "relay_strategy \<Rightarrow> 32 word" where
  "relay_strategy_code Unordered = 0"
| "relay_strategy_code Ordered = 1"

fun relay_strategy_name :: "relay_strategy \<Rightarrow> string" where
  "relay_strategy_name Unordered = ''Unordered''"
| "relay_strategy_name Ordered = ''Ordered''"

definition relay_strategy_from_name :: "string \<Rightarrow> relay_strategy option" where
  "relay_strategy_from_name value =
     (if value = ''Unordered'' then Some Unordered
      else if value = ''Ordered'' then Some Ordered
      else None)"

fun vm_type_name :: "vm_type \<Rightarrow> string" where
  "vm_type_name Sp1 = ''Sp1''"

definition vm_type_from_name :: "string \<Rightarrow> vm_type option" where
  "vm_type_from_name value = (if value = ''Sp1'' then Some Sp1 else None)"

text \<open>The blob sidecar of a transaction (a type of the \<open>alloy\<close> library).\<close>

record blob_sidecar =
  sc_blobs :: "bytes list"
  sc_commitments :: "bytes list"
  sc_proofs :: "bytes list"

section \<open>Jobs\<close>

datatype request_type = Onchain | Offchain bytes

record job =
  jb_id :: b256
  jb_nonce :: u64
  jb_max_cycles :: u64
  jb_consumer_address :: bytes
  jb_program_id :: bytes
  jb_onchain_input :: bytes
  jb_offchain_input :: bytes
  jb_request_type :: request_type
  jb_result_with_metadata :: bytes
  jb_zkvm_operator_signature :: bytes
  jb_status :: job_status
  jb_relay_tx_hash :: bytes
  jb_blobs_sidecar :: "blob_sidecar option"
  jb_relay_strategy :: relay_strategy

definition is_ordered :: "job \<Rightarrow> bool" where
  "is_ordered j \<longleftrightarrow> jb_relay_strategy j = Ordered"

definition is_relayed :: "job \<Rightarrow> bool" where
  "is_relayed j \<longleftrightarrow> js_status (jb_status j) = job_status_code JRelayed"

definition is_failed :: "job \<Rightarrow> bool" where
  "is_failed j \<longleftrightarrow> js_status (jb_status j) = job_status_code JFailed"

definition is_done :: "job \<Rightarrow> bool" where
  "is_done j \<longleftrightarrow> js_status (jb_status j) = job_status_code JDone"

definition is_pending :: "job \<Rightarrow> bool" where
  "is_pending j \<longleftrightarrow> js_status (jb_status j) = job_status_code JPending"

lemmas job_predicates = is_ordered_def is_relayed_def is_failed_def is_done_def is_pending_def

text \<open>The status the code gives to a fresh, an executed and a failed job.\<close>

abbreviation status_of :: "job_status_type \<Rightarrow> string option \<Rightarrow> job_status" where
  "status_of t r \<equiv> \<lparr>js_status = job_status_code t, js_failure_reason = r, js_retries = 0\<rparr>"

section \<open>Fixed-width keys\<close>

text \<open>
  A byte vector converted into an array of \<open>n\<close> bytes (\<open>try_into\<close>), read as a big-endian word, or
  the length error.
\<close>

definition be_word :: "bytes \<Rightarrow> 'a::len word" where
  "be_word bs = of_nat (foldl (\<lambda>n b. n * 256 + unat b) 0 bs)"

definition try_into_address :: "bytes \<Rightarrow> address option" where
  "try_into_address bs = (if length bs = 20 then Some (be_word bs) else None)"

text \<open>The keys \<open>B256Key\<close> and \<open>Sha256Key\<close> (32 bytes), and \<open>AddrKey\<close> (20 bytes).\<close>

definition b256_key_encode :: "b256 \<Rightarrow> bytes" where
  "b256_key_encode k = be_bytes 32 k"

definition b256_key_decode :: "bytes \<Rightarrow> b256 option" where
  "b256_key_decode bs = (if length bs = 32 then Some (be_word bs) else None)"

definition sha256_key_new :: "(bytes \<Rightarrow> b256) \<Rightarrow> bytes \<Rightarrow> b256" where
  "sha256_key_new sha256 program_id = sha256 program_id"

definition sha256_key_encode :: "b256 \<Rightarrow> bytes" where
  "sha256_key_encode k = be_bytes 32 k"

definition sha256_key_decode :: "bytes \<Rightarrow> b256 option" where
  "sha256_key_decode bs = (if length bs = 32 then Some (be_word bs) else None)"

definition addr_key_encode :: "address \<Rightarrow> bytes" where
  "addr_key_encode k = be_bytes 20 k"

definition addr_key_decode :: "bytes \<Rightarrow> address option" where
  "addr_key_decode bs = try_into_address bs"

text \<open>\<open>JobParams::try_from(&job)\<close>: fails on a consumer address that is not 20 bytes long.\<close>

definition job_params_try_from :: "(bytes \<Rightarrow> b256) \<Rightarrow> job \<Rightarrow> job_params option" where
  "job_params_try_from keccak256 j =
     (case try_into_address (jb_consumer_address j) of
        None \<Rightarrow> None
      | Some consumer_address \<Rightarrow>
          Some \<lparr>jp_nonce = jb_nonce j, jp_max_cycles = jb_max_cycles j,
                jp_consumer_address = consumer_address, jp_onchain_input = jb_onchain_input j,
                jp_program_id = jb_program_id j,
                jp_offchain_input_hash = keccak256 (jb_offchain_input j)\<rparr>)"

text \<open>The names of the enumeration values are read back.\<close>

lemma enum_names_roundtrip [simp]:
  "job_status_from_name (job_status_name t) = Some t"
  "relay_strategy_from_name (relay_strategy_name r) = Some r"
  "vm_type_from_name (vm_type_name v) = Some v"
  apply (cases t; simp add: job_status_from_name_def)
  apply (cases r; simp add: relay_strategy_from_name_def)
  apply (cases v; simp add: vm_type_from_name_def)
  done

section \<open>Tables\<close>

record elf_with_meta =
  em_vm_type :: u8
  em_elf :: bytes

record program_with_meta =
  pm_vm_type :: u8
  pm_program_bytes :: bytes

record db =
  db_elfs :: "(b256, elf_with_meta) btree"
  db_jobs :: "(b256, job) btree"
  db_relay_failures :: "(b256, job) btree"
  db_last_height :: "(u32, u64) btree"
  db_programs :: "(b256, program_with_meta) btree"

definition empty_db :: db where
  "empty_db = \<lparr>db_elfs = [], db_jobs = [], db_relay_failures = [], db_last_height = [], db_programs = []\<rparr>"

definition LAST_HEIGHT_KEY :: u32 where
  "LAST_HEIGHT_KEY = 0"

definition get_elf :: "(bytes \<Rightarrow> b256) \<Rightarrow> db \<Rightarrow> bytes \<Rightarrow> elf_with_meta option" where
  "get_elf sha256 d program_id = bt_get (db_elfs d) (sha256_key_new sha256 program_id)"

definition get_program :: "(bytes \<Rightarrow> b256) \<Rightarrow> db \<Rightarrow> bytes \<Rightarrow> program_with_meta option" where
  "get_program sha256 d program_id = bt_get (db_programs d) (sha256_key_new sha256 program_id)"

definition get_job :: "db \<Rightarrow> b256 \<Rightarrow> job option" where
  "get_job d job_id = bt_get (db_jobs d) job_id"

definition get_last_block_height :: "db \<Rightarrow> u64 option" where
  "get_last_block_height d = bt_get (db_last_height d) LAST_HEIGHT_KEY"

text \<open>The cursor walks the table in key order.\<close>

definition get_all_failed_jobs :: "db \<Rightarrow> job list" where
  "get_all_failed_jobs d = map snd (db_relay_failures d)"

section \<open>The writer\<close>

datatype db_write =
    WFailureJobs job
  | WJobTable job
  | WFailureJobsDelete b256
  | WLastBlockHeight u64
  | WElf vm_type bytes bytes
  | WProgram vm_type bytes bytes
  | WKill

text \<open>The effect of one write on the tables, as its committed transaction leaves them.\<close>

fun apply_write :: "(bytes \<Rightarrow> b256) \<Rightarrow> db_write \<Rightarrow> db \<Rightarrow> db" where
  "apply_write sha256 (WJobTable j) d = d\<lparr>db_jobs := bt_insert (jb_id j) j (db_jobs d)\<rparr>"
| "apply_write sha256 (WFailureJobs j) d =
     d\<lparr>db_relay_failures := bt_insert (jb_id j) j (db_relay_failures d)\<rparr>"
| "apply_write sha256 (WFailureJobsDelete i) d =
     d\<lparr>db_relay_failures := bt_remove i (db_relay_failures d)\<rparr>"
| "apply_write sha256 (WLastBlockHeight h) d =
     d\<lparr>db_last_height := bt_insert LAST_HEIGHT_KEY h (db_last_height d)\<rparr>"
| "apply_write sha256 (WElf v program_id elf) d =
     d\<lparr>db_elfs := bt_insert (sha256_key_new sha256 program_id)
         \<lparr>em_vm_type = ucast (vm_type_code v), em_elf = elf\<rparr> (db_elfs d)\<rparr>"
| "apply_write sha256 (WProgram v program_id program_bytes) d =
     d\<lparr>db_programs := bt_insert (sha256_key_new sha256 program_id)
         \<lparr>pm_vm_type = ucast (vm_type_code v), pm_program_bytes = program_bytes\<rparr> (db_programs d)\<rparr>"
| "apply_write sha256 WKill d = d"

text \<open>
  A message is a write and, when its sender waits for the commit, the address of its reply channel.
  The storage engine lets a transaction begin and commit, or fails at either point. The thread ends
  on a failure, on \<open>Kill\<close>, and with an error when every sender is gone.
\<close>

datatype tx_outcome = TxOk | TxBeginFails | TxCommitFails

datatype writer_exit = WriterKilled | WriterDbError | WriterRxClosed

type_synonym 'r writer_msg = "db_write \<times> 'r option"

fun start_writer :: "(bytes \<Rightarrow> b256) \<Rightarrow> db \<Rightarrow> ('r writer_msg \<times> tx_outcome) list \<Rightarrow> db \<times> 'r list \<times> writer_exit" where
  "start_writer sha256 d [] = (d, [], WriterRxClosed)"
| "start_writer sha256 d (((target, resp), outcome) # msgs) =
     (if outcome = TxBeginFails then (d, [], WriterDbError)
      else if target = WKill then (d, [], WriterKilled)
      else if outcome = TxCommitFails then (d, [], WriterDbError)
      else let (d', acks, e) = start_writer sha256 (apply_write sha256 target d) msgs
           in (d', (case resp of None \<Rightarrow> acks | Some r \<Rightarrow> r # acks), e))"

section \<open>Lemmas\<close>

text \<open>Reading big-endian bytes inverts writing them.\<close>

lemma foldl_be_bytes:
  assumes "unat w < 256 ^ n"
  shows "foldl (\<lambda>m b. m * 256 + unat b) a (be_bytes n w) = a * 256 ^ n + unat (w :: 'a::len word)"
proof -
  have digit: "unat (of_nat (m mod 256) :: u8) = m mod 256" for m
    by (simp add: unat_of_nat)
  have step: "foldl (\<lambda>m b. m * 256 + unat (b :: u8)) a (map (\<lambda>i. of_nat (v div 256 ^ (n - 1 - i))) [0..<i])
      = a * 256 ^ i + (v div 256 ^ (n - i)) mod 256 ^ i" if "i \<le> n" for i and v :: nat
    using that
  proof (induction i)
    case 0
    then show ?case by simp
  next
    case (Suc i)
    let ?q = "v div 256 ^ (n - Suc i)"
    have "v div 256 ^ (n - i) = ?q div 256"
      using Suc.prems by (metis Suc_diff_Suc Suc_le_lessD div_mult2_eq power_Suc2)
    moreover have "unat (of_nat ?q :: u8) = ?q mod 256" by (simp add: unat_of_nat)
    moreover have "?q mod (256 * 256 ^ i) = 256 * (?q div 256 mod 256 ^ i) + ?q mod 256"
      by (simp add: mod_mult2_eq)
    ultimately show ?case using Suc by (simp add: algebra_simps)
  qed
  from step [of n "unat w"] assms show ?thesis by (simp add: be_bytes_def)
qed

lemma be_word_be_bytes:
  assumes "2 ^ LENGTH('a) \<le> (256 :: nat) ^ n"
  shows "be_word (be_bytes n (w :: 'a::len word)) = w"
proof -
  have "unat w < 256 ^ n" using unsigned_less [of w] assms by (rule order.strict_trans2)
  then show ?thesis using foldl_be_bytes [of w n 0] by (simp add: be_word_def)
qed

lemma foldl_be_less: "foldl (\<lambda>n b. n * 256 + unat b) 0 bs < 256 ^ length (bs :: bytes)"
  using foldl_bytes_less [of 0 bs] by simp

lemma be_bytes_be_word:
  assumes "length bs = n" and "(256 :: nat) ^ n = 2 ^ LENGTH('a)"
  shows "be_bytes n (be_word bs :: 'a::len word) = bs"
proof -
  let ?f = "foldl (\<lambda>n b. n * 256 + unat b) (0 :: nat)"
  let ?w = "be_word bs :: 'a word"
  have "unat ?w = ?f bs"
    using foldl_be_less [of bs] assms unfolding be_word_def by (simp add: unat_of_nat)
  moreover have "unat ?w < 256 ^ n" using unsigned_less [of ?w] assms(2) by simp
  ultimately have "?f (be_bytes n ?w) = ?f bs" using foldl_be_bytes [of ?w n 0] by simp
  then show ?thesis using foldl_bytes_inj [of "be_bytes n ?w" bs 0 0] assms(1) by simp
qed

lemma try_into_address_be_bytes [simp]: "try_into_address (be_bytes 20 a) = Some a"
  using be_word_be_bytes [of 20 a] by (simp add: try_into_address_def)

lemma try_into_address_Some: "try_into_address bs = Some a \<Longrightarrow> be_bytes 20 a = bs"
  using be_bytes_be_word [of bs 20, where 'a = 160] by (auto simp: try_into_address_def split: if_splits)

lemma vm_type_try_from_code [simp]: "vm_type_try_from (vm_type_code v) = Some v"
  by (cases v) (simp add: vm_type_try_from_def)

text \<open>A key is read back from the bytes it is stored as, and only from those: decoding fails on
  every other length.\<close>

theorem keys_roundtrip:
  "(b256_key_decode bs = Some k \<longleftrightarrow> bs = b256_key_encode k)
   \<and> (sha256_key_decode bs = Some k \<longleftrightarrow> bs = sha256_key_encode k)
   \<and> (addr_key_decode bs = Some a \<longleftrightarrow> bs = addr_key_encode a)"
proof -
  have "(if length bs = 32 then Some (be_word bs) else None) = Some k \<longleftrightarrow> bs = be_bytes 32 k"
    using be_word_be_bytes [of 32 k] be_bytes_be_word [of bs 32, where 'a = 256] by auto
  moreover have "addr_key_decode bs = Some a \<longleftrightarrow> bs = addr_key_encode a"
    using try_into_address_Some [of bs a] by (auto simp: addr_key_decode_def addr_key_encode_def)
  ultimately show ?thesis
    by (simp add: b256_key_decode_def b256_key_encode_def sha256_key_decode_def sha256_key_encode_def)
qed

text \<open>Every table stays an ordered map, and the job table is keyed by the job's id.\<close>

definition db_ok :: "db \<Rightarrow> bool" where
  "db_ok d \<longleftrightarrow> bt_ok (db_elfs d) \<and> bt_ok (db_jobs d) \<and> bt_ok (db_relay_failures d)
     \<and> bt_ok (db_last_height d) \<and> bt_ok (db_programs d)
     \<and> (\<forall>i j. bt_get (db_jobs d) i = Some j \<longrightarrow> jb_id j = i)
     \<and> (\<forall>i j. bt_get (db_relay_failures d) i = Some j \<longrightarrow> jb_id j = i)"

lemma db_ok_empty [simp]: "db_ok empty_db"
  by (simp add: db_ok_def empty_db_def)

lemma db_ok_apply_write: "db_ok d \<Longrightarrow> db_ok (apply_write sha256 w d)"
  by (cases w) (auto simp: db_ok_def split: if_splits)

lemma get_job_apply_write:
  "get_job (apply_write sha256 w d) i =
     (case w of WJobTable j \<Rightarrow> if jb_id j = i then Some j else get_job d i | _ \<Rightarrow> get_job d i)"
  by (cases w) (auto simp: get_job_def)

lemma start_writer_committed:
  "start_writer sha256 d msgs = (d', acks, e) \<Longrightarrow>
     \<exists>n \<le> length msgs. d' = fold (apply_write sha256) (map (fst \<circ> fst) (take n msgs)) d
       \<and> acks = List.map_filter (snd \<circ> fst) (take n msgs)
       \<and> (\<forall>((w, r), o') \<in> set (take n msgs). w \<noteq> WKill \<and> o' = TxOk)
       \<and> (n = length msgs \<longleftrightarrow> e = WriterRxClosed)"
proof (induction sha256 d msgs arbitrary: d' acks e rule: start_writer.induct)
  case (1 sha256 d)
  then show ?case by (simp add: List.map_filter_def)
next
  case (2 sha256 d target resp outcome msgs)
  show ?case
  proof (cases "outcome = TxOk \<and> target \<noteq> WKill")
    case False
    then have "d' = d \<and> acks = [] \<and> e \<noteq> WriterRxClosed"
      using "2.prems" by (cases outcome) (auto split: if_splits)
    then show ?thesis by (intro exI [of _ 0]) (simp add: List.map_filter_def)
  next
    case True
    obtain acks' where r: "start_writer sha256 (apply_write sha256 target d) msgs = (d', acks', e)"
      and a: "acks = (case resp of None \<Rightarrow> acks' | Some r \<Rightarrow> r # acks')"
      using "2.prems" True by (auto split: prod.splits option.splits)
    have c: "outcome \<noteq> TxBeginFails" "target \<noteq> WKill" "outcome \<noteq> TxCommitFails" using True by auto
    obtain n where n: "n \<le> length msgs"
      "d' = fold (apply_write sha256) (map (fst \<circ> fst) (take n msgs)) (apply_write sha256 target d)"
      "acks' = List.map_filter (snd \<circ> fst) (take n msgs)"
      "\<forall>((w, r), o') \<in> set (take n msgs). w \<noteq> WKill \<and> o' = TxOk"
      "n = length msgs \<longleftrightarrow> e = WriterRxClosed"
      using "2.IH" [OF c r] by blast
    then show ?thesis using True a
      by (intro exI [of _ "Suc n"]) (auto simp: List.map_filter_def comp_def split: option.splits)
  qed
qed

text \<open>
  The tables after the writer thread ends are those of a prefix of the received writes, applied
  in order; exactly the senders of that prefix that wait are answered, so an acknowledged write is
  committed. The prefix is everything unless a transaction failed or the thread was killed.
\<close>

theorem writer_acks_committed:
  "let (d', acks, e) = start_writer sha256 d msgs in
     \<exists>n \<le> length msgs. d' = fold (apply_write sha256) (map (fst \<circ> fst) (take n msgs)) d
       \<and> acks = List.map_filter (snd \<circ> fst) (take n msgs)
       \<and> list_all (\<lambda>((w, r), o'). w \<noteq> WKill \<and> o' = TxOk) (take n msgs)
       \<and> (n = length msgs \<longleftrightarrow> e = WriterRxClosed)"
proof -
  obtain d' acks e where r: "start_writer sha256 d msgs = (d', acks, e)" by (cases "start_writer sha256 d msgs")
  show ?thesis using start_writer_committed [OF r] unfolding list_all_iff r by simp
qed

text \<open>A job for the concrete runs: nonce \<open>n\<close> of the consumer with 20 zero bytes.\<close>

definition sample_job :: "u64 \<Rightarrow> relay_strategy \<Rightarrow> job_status_type \<Rightarrow> job" where
  "sample_job n strategy status =
     \<lparr>jb_id = ucast n, jb_nonce = n, jb_max_cycles = 10, jb_consumer_address = replicate 20 0,
      jb_program_id = [7], jb_onchain_input = [1], jb_offchain_input = [], jb_request_type = Offchain [9],
      jb_result_with_metadata = [], jb_zkvm_operator_signature = [], jb_status = status_of status None,
      jb_relay_tx_hash = [], jb_blobs_sidecar = None, jb_relay_strategy = strategy\<rparr>"

end
