(* ===== verification/ExecActor.thy ===== *)
theory ExecActor
  imports CoprocDb
begin

text \<open>
  The execution actor of one consumer (\<^verbatim>\<open>crates/coproc/src/execute.rs\<close>). It receives jobs from
  the intake, has them executed by the pool, and passes executed jobs on to its relay actor: an
  unordered job at once, an ordered job when every job with a lower nonce, from the start nonce on,
  has been passed on. \<open>exec_step\<close> is one turn of the \<open>select!\<close> loop: the event that was ready, the
  state after it and the messages it sent. A task of the join set is a job on its way through the
  pool; which task completes next, and how, is an input.
\<close>

section \<open>State, events and messages\<close>

datatype pool_reply = PoolOk job | PoolErr u64

text \<open>How a spawned task ends: with the pool's reply, with a closed reply channel, or panicked.\<close>

datatype task_result = TaskReply pool_reply | TaskRecvError | TaskJoinError

datatype 'r exec_msg =
    MsgExec job
  | MsgPending 'r
  | MsgRelayed u64
  | MsgNextNonce 'r

datatype 'r exec_event =
    EvRecv "'r exec_msg option"
  | EvJoin task_result
  | EvIdle

datatype relay_msg = Relay job | RelayExit

datatype 'r exec_out =
    OutRelay relay_msg
  | OutPool job
  | OutPending 'r "u64 list"
  | OutNextNonce 'r u64

record exec_state =
  ex_next_job_to_submit :: u64
  ex_completed_tasks :: "(u64, job) btree"
  ex_pending_jobs :: "u64 set"
  ex_join_set :: nat
  ex_exited :: bool

definition exec_start :: "u64 \<Rightarrow> exec_state" where
  "exec_start nonce = \<lparr>ex_next_job_to_submit = nonce, ex_completed_tasks = [],
     ex_pending_jobs = {}, ex_join_set = 0, ex_exited = False\<rparr>"

section \<open>One turn of the loop\<close>

text \<open>The task spawned for an accepted job: a pending job goes to the pool, a done job is complete.\<close>

definition exec_job :: "job \<Rightarrow> exec_state \<Rightarrow> exec_state \<times> 'r exec_out list" where
  "exec_job j s =
     (if \<not> is_pending j \<and> \<not> is_done j \<or> (is_ordered j \<and> jb_nonce j < ex_next_job_to_submit s)
      then (s, [])
      else (s\<lparr>ex_pending_jobs := insert (jb_nonce j) (ex_pending_jobs s), ex_join_set := Suc (ex_join_set s)\<rparr>,
            if is_pending j then [OutPool j] else []))"

text \<open>
  The inner loop that relays the directly subsequent completed jobs; the number of stored jobs
  bounds its turns, since each removes one.
\<close>

fun relay_subsequent :: "nat \<Rightarrow> u64 \<Rightarrow> (u64, job) btree \<Rightarrow> u64 \<times> (u64, job) btree \<times> job list" where
  "relay_subsequent 0 next_job done_jobs = (next_job, done_jobs, [])"
| "relay_subsequent (Suc n) next_job done_jobs =
     (case bt_get done_jobs next_job of
        None \<Rightarrow> (next_job, done_jobs, [])
      | Some j \<Rightarrow>
          let (next_job', done_jobs', js) = relay_subsequent n (next_job + 1) (bt_remove next_job done_jobs)
          in (next_job', done_jobs', j # js))"

definition completed_ok :: "job \<Rightarrow> exec_state \<Rightarrow> exec_state \<times> job list" where
  "completed_ok j s =
     (if \<not> is_ordered j then (s, [j])
      else if jb_nonce j = ex_next_job_to_submit s
      then (let (next_job, done_jobs, js) =
                  relay_subsequent (length (ex_completed_tasks s))
                    (ex_next_job_to_submit s + 1) (ex_completed_tasks s)
            in (s\<lparr>ex_next_job_to_submit := next_job, ex_completed_tasks := done_jobs\<rparr>, j # js))
      else (s\<lparr>ex_completed_tasks := bt_insert (jb_nonce j) j (ex_completed_tasks s)\<rparr>, []))"

fun exec_join :: "task_result \<Rightarrow> exec_state \<Rightarrow> exec_state \<times> 'r exec_out list" where
  "exec_join (TaskReply (PoolOk j)) s =
     (let (s', js) = completed_ok j s in (s', map (\<lambda>j. OutRelay (Relay j)) js))"
| "exec_join TaskRecvError s = (s, [])"
| "exec_join TaskJoinError s = (s\<lparr>ex_exited := True\<rparr>, [])"
| "exec_join (TaskReply (PoolErr nonce)) s =
     (s\<lparr>ex_pending_jobs := ex_pending_jobs s - {nonce}\<rparr>, [])"

fun exec_recv :: "'r exec_msg option \<Rightarrow> exec_state \<Rightarrow> exec_state \<times> 'r exec_out list" where
  "exec_recv (Some (MsgExec j)) s = exec_job j s"
| "exec_recv (Some (MsgPending r)) s = (s, [OutPending r (sorted_list_of_set (ex_pending_jobs s))])"
| "exec_recv (Some (MsgRelayed nonce)) s =
     (s\<lparr>ex_pending_jobs := ex_pending_jobs s - {nonce}\<rparr>, [])"
| "exec_recv (Some (MsgNextNonce r)) s = (s, [OutNextNonce r (ex_next_job_to_submit s)])"
| "exec_recv None s = (s, [])"

text \<open>
  The guards of the \<open>select!\<close>: a completion is only polled while the join set is not empty, and the
  loop ends, after telling the relay actor, when the channel is closed and nothing is left.
\<close>

fun exec_enabled :: "exec_state \<Rightarrow> 'r exec_event \<Rightarrow> bool" where
  "exec_enabled s (EvRecv m) \<longleftrightarrow> \<not> ex_exited s"
| "exec_enabled s (EvJoin r) \<longleftrightarrow> \<not> ex_exited s \<and> ex_join_set s \<noteq> 0"
| "exec_enabled s EvIdle \<longleftrightarrow> \<not> ex_exited s \<and> ex_join_set s = 0"

fun exec_step :: "exec_state \<Rightarrow> 'r exec_event \<Rightarrow> exec_state \<times> 'r exec_out list" where
  "exec_step s (EvRecv m) = exec_recv m s"
| "exec_step s (EvJoin r) = exec_join r (s\<lparr>ex_join_set := ex_join_set s - 1\<rparr>)"
| "exec_step s EvIdle = (s\<lparr>ex_exited := True\<rparr>, [OutRelay RelayExit])"

section \<open>What is relayed, in which order\<close>

text \<open>The jobs a run passed to the relay actor, and those the pool completed.\<close>

fun out_relayed :: "'r exec_out \<Rightarrow> job option" where
  "out_relayed (OutRelay (Relay j)) = Some j"
| "out_relayed _ = None"

fun ev_completed :: "'r exec_event \<Rightarrow> job option" where
  "ev_completed (EvJoin (TaskReply (PoolOk j))) = Some j"
| "ev_completed _ = None"

abbreviation relayed_jobs :: "'r exec_out list \<Rightarrow> job list" where
  "relayed_jobs os \<equiv> List.map_filter out_relayed os"

abbreviation completed_jobs :: "'r exec_event list \<Rightarrow> job list" where
  "completed_jobs es \<equiv> List.map_filter ev_completed es"

text \<open>The nonces from \<open>n\<close> on, and the history invariant.\<close>

definition nonces_from :: "u64 \<Rightarrow> nat \<Rightarrow> u64 list" where
  "nonces_from n k = map (\<lambda>i. n + of_nat i) [0..<k]"

definition tasks_ok :: "(u64, job) btree \<Rightarrow> bool" where
  "tasks_ok m \<longleftrightarrow> bt_ok m \<and> (\<forall>n j. bt_get m n = Some j \<longrightarrow> jb_nonce j = n \<and> is_ordered j)"

definition exec_history :: "u64 \<Rightarrow> exec_state \<Rightarrow> 'r exec_event list \<Rightarrow> 'r exec_out list \<Rightarrow> bool" where
  "exec_history n0 s es os \<longleftrightarrow>
     (let rel = relayed_jobs os; cmp = completed_jobs es; m = ex_completed_tasks s;
          k = length (filter is_ordered rel) in
      tasks_ok m
      \<and> map jb_nonce (filter is_ordered rel) = nonces_from n0 k
      \<and> ex_next_job_to_submit s = n0 + of_nat k
      \<and> bt_get m (n0 + of_nat k) = None
      \<and> filter (\<lambda>j. \<not> is_ordered j) rel = filter (\<lambda>j. \<not> is_ordered j) cmp
      \<and> set rel \<union> ran (bt_get m) \<subseteq> set cmp
      \<and> jb_nonce ` set (filter is_ordered cmp) \<subseteq> set (nonces_from n0 k) \<union> dom (bt_get m)
      \<and> k + length m \<le> length es)"

lemma nonces_from_Suc: "nonces_from n (Suc k) = nonces_from n k @ [n + of_nat k]"
  by (simp add: nonces_from_def)

lemma nonces_from_add: "nonces_from n (k + l) = nonces_from n k @ nonces_from (n + of_nat k) l"
  by (induction l) (simp_all add: nonces_from_Suc, simp_all add: nonces_from_def add.assoc)

lemma nonces_from_Cons: "nonces_from n (Suc k) = n # nonces_from (n + 1) k"
  using nonces_from_add [of n 1 k] by (simp add: nonces_from_def)

lemma relay_subsequent_spec:
  assumes "tasks_ok m" and "length m \<le> f" and "relay_subsequent f n m = (n', m', js)"
  shows "tasks_ok m' \<and> n' = n + of_nat (length js) \<and> bt_get m' n' = None
    \<and> map jb_nonce js = nonces_from n (length js) \<and> list_all is_ordered js
    \<and> length js + length m' = length m
    \<and> dom (bt_get m) = set (nonces_from n (length js)) \<union> dom (bt_get m')
    \<and> set js \<union> ran (bt_get m') \<subseteq> ran (bt_get m)"
  using assms
proof (induction f n m arbitrary: n' m' js rule: relay_subsequent.induct)
  case (1 n m)
  then show ?case by (simp add: nonces_from_def)
next
  case (2 f n m)
  show ?case
  proof (cases "bt_get m n")
    case None
    then show ?thesis using 2 by (auto simp: nonces_from_def)
  next
    case (Some j)
    let ?m = "bt_remove n m"
    obtain js' where r: "relay_subsequent f (n + 1) ?m = (n', m', js')" and js: "js = j # js'"
      using "2.prems" Some by (auto split: prod.splits)
    from "2.prems"(1) have ok: "bt_ok m" and mn: "jb_nonce j = n" "is_ordered j"
      using Some by (auto simp: tasks_ok_def)
    have t: "tasks_ok ?m" using "2.prems"(1) ok by (simp add: tasks_ok_def)
    have l: "Suc (length ?m) = length m" using Some by (rule length_bt_remove)
    have lf: "length ?m \<le> f" using l "2.prems"(2) by simp
    note IH = "2.IH" [OF Some t lf r]
    have d: "dom (bt_get m) = insert n (dom (bt_get ?m))" using ok Some by auto
    have rn: "ran (bt_get ?m) \<subseteq> ran (bt_get m)" "j \<in> ran (bt_get m)"
      using ok Some by (auto simp: ran_def)
    have "set (j # js') \<union> ran (bt_get m') \<subseteq> ran (bt_get m)" using IH rn by auto
    then show ?thesis using IH l mn unfolding js d by (elim conjE) (simp add: nonces_from_Cons algebra_simps)
  qed
qed

lemma map_filter_append [simp]: "List.map_filter f (xs @ ys) = List.map_filter f xs @ List.map_filter f ys"
  by (simp add: List.map_filter_def)

lemma map_filter_single [simp]: "List.map_filter f [x] = (case f x of None \<Rightarrow> [] | Some y \<Rightarrow> [y])"
  by (simp add: List.map_filter_def split: option.splits)

lemma map_filter_Nil [simp]: "List.map_filter f [] = []"
  by (simp add: List.map_filter_def)

lemma exec_history_stutter:
  assumes "exec_history n0 s es os" and "ev_completed e = None" and "relayed_jobs os' = []"
    and "ex_next_job_to_submit s' = ex_next_job_to_submit s"
    and "ex_completed_tasks s' = ex_completed_tasks s"
  shows "exec_history n0 s' (es @ [e]) (os @ os')"
  using assms by (simp add: exec_history_def Let_def)

lemma exec_history_completed:
  assumes h: "exec_history n0 s es os" and c: "completed_ok j s = (s', js)"
    and e: "ev_completed e = Some j" and o: "relayed_jobs os' = js"
  shows "exec_history n0 s' (es @ [e]) (os @ os')"
proof -
  let ?m = "ex_completed_tasks s" and ?n = "ex_next_job_to_submit s"
  define rel cmp where "rel = relayed_jobs os" and "cmp = completed_jobs es"
  define k where "k = length (filter is_ordered rel)"
  from h have t: "tasks_ok ?m" and ns: "map jb_nonce (filter is_ordered rel) = nonces_from n0 k"
    and nk: "?n = n0 + of_nat k" and nn: "bt_get ?m (n0 + of_nat k) = None"
    and un: "filter (\<lambda>j. \<not> is_ordered j) rel = filter (\<lambda>j. \<not> is_ordered j) cmp"
    and sub: "set rel \<union> ran (bt_get ?m) \<subseteq> set cmp"
    and cov: "jb_nonce ` set (filter is_ordered cmp) \<subseteq> set (nonces_from n0 k) \<union> dom (bt_get ?m)"
    and len: "k + length ?m \<le> length es"
    by (simp_all add: exec_history_def Let_def rel_def cmp_def k_def)
  show ?thesis
  proof (cases "is_ordered j")
    case False
    then have "s' = s" "js = [j]" using c by (simp_all add: completed_ok_def)
    with False t ns nk nn un sub cov len show ?thesis
      unfolding exec_history_def Let_def by (auto simp: e o rel_def cmp_def k_def)
  next
    case ordered: True
    show ?thesis
    proof (cases "jb_nonce j = ?n")
      case False
      then have s': "s' = s\<lparr>ex_completed_tasks := bt_insert (jb_nonce j) j ?m\<rparr>" and js: "js = []"
        using c ordered by (simp_all add: completed_ok_def)
      have ok: "bt_ok ?m" using t by (simp add: tasks_ok_def)
      have "tasks_ok (bt_insert (jb_nonce j) j ?m)" using t ordered by (auto simp: tasks_ok_def)
      moreover have "length (bt_insert (jb_nonce j) j ?m) \<le> Suc (length ?m)"
        by (rule length_bt_insert_le)
      moreover have "ran (bt_get (bt_insert (jb_nonce j) j ?m)) \<subseteq> insert j (ran (bt_get ?m))"
        by (auto simp: ran_def)
      moreover have "jb_nonce ` set (filter is_ordered (cmp @ [j]))
          \<subseteq> set (nonces_from n0 k) \<union> dom (bt_get (bt_insert (jb_nonce j) j ?m))"
        using cov ordered by auto
      ultimately show ?thesis using ns nk nn un sub len False
        unfolding exec_history_def Let_def
        by (auto simp: e o js s' ordered rel_def [symmetric] cmp_def [symmetric] k_def [symmetric])
    next
      case True
      obtain n' m' js' where r: "relay_subsequent (length ?m) (?n + 1) ?m = (n', m', js')"
        by (cases "relay_subsequent (length ?m) (?n + 1) ?m")
      then have s': "s' = s\<lparr>ex_next_job_to_submit := n', ex_completed_tasks := m'\<rparr>" and js: "js = j # js'"
        using c ordered True by (simp_all add: completed_ok_def)
      let ?l = "length js'"
      from relay_subsequent_spec [OF t order.refl r]
      have t': "tasks_ok m'" and n': "n' = ?n + 1 + of_nat ?l" and nn': "bt_get m' n' = None"
        and ns': "map jb_nonce js' = nonces_from (?n + 1) ?l" and ord: "list_all is_ordered js'"
        and len': "?l + length m' = length ?m"
        and d: "dom (bt_get ?m) = set (nonces_from (?n + 1) ?l) \<union> dom (bt_get m')"
        and rn: "set js' \<union> ran (bt_get m') \<subseteq> ran (bt_get ?m)" by blast+
      from ord have f: "filter is_ordered js' = js'" "filter (\<lambda>j. \<not> is_ordered j) js' = []"
        by (simp_all add: list_all_iff filter_id_conv filter_empty_conv)
      have all: "nonces_from n0 (k + Suc ?l) = nonces_from n0 k @ ?n # nonces_from (?n + 1) ?l"
        by (simp only: nonces_from_add nonces_from_Cons nk)
      have "map jb_nonce (filter is_ordered (rel @ js)) = nonces_from n0 (k + Suc ?l)"
        unfolding all by (simp add: js ordered f ns ns' True)
      moreover have "n' = n0 + of_nat (k + Suc ?l)" by (simp add: n' nk)
      moreover have "set (rel @ js) \<union> ran (bt_get m') \<subseteq> set (cmp @ [j])"
        using sub rn by (auto simp: js)
      moreover have "jb_nonce ` set (filter is_ordered (cmp @ [j]))
          \<subseteq> set (nonces_from n0 (k + Suc ?l)) \<union> dom (bt_get m')"
        unfolding all using cov ordered True by (auto simp: d)
      moreover have "k + Suc ?l + length m' \<le> length (es @ [e])" using len len' by simp
      moreover have "bt_get m' (n0 + of_nat (k + Suc ?l)) = None" using nn' by (simp add: n' nk algebra_simps)
      ultimately show ?thesis using t' un
        unfolding exec_history_def Let_def
        by (simp add: e o js s' ordered f rel_def [symmetric] cmp_def [symmetric] k_def [symmetric])
    qed
  qed
qed

lemma exec_history_step:
  assumes h: "exec_history n0 s es os" and st: "exec_step s e = (s', os')"
  shows "exec_history n0 s' (es @ [e]) (os @ os')"
proof (cases "ev_completed e")
  case (Some j)
  then have e: "e = EvJoin (TaskReply (PoolOk j))" by (cases e rule: ev_completed.cases) auto
  obtain s1 js where c: "completed_ok j (s\<lparr>ex_join_set := ex_join_set s - 1\<rparr>) = (s1, js)" by force
  have "exec_history n0 (s\<lparr>ex_join_set := ex_join_set s - 1\<rparr>) es os"
    using h by (simp add: exec_history_def)
  moreover have "s1 = s'" "os' = map (\<lambda>j. OutRelay (Relay j)) js" using st c by (auto simp: e)
  moreover have "relayed_jobs (map (\<lambda>j. OutRelay (Relay j)) js) = js"
    by (induction js) (simp_all add: List.map_filter_def)
  ultimately show ?thesis using exec_history_completed [OF _ c Some] by simp
next
  case None
  have "relayed_jobs os' = [] \<and> ex_next_job_to_submit s' = ex_next_job_to_submit s
    \<and> ex_completed_tasks s' = ex_completed_tasks s"
    using st None
    by (cases "(s, e)" rule: exec_step.cases; cases e rule: ev_completed.cases;
        auto simp: exec_job_def split: if_splits option.splits elim!: exec_recv.elims)
  then show ?thesis using exec_history_stutter [OF h None] by simp
qed

interpretation exec: event_machine "exec_enabled :: exec_state \<Rightarrow> 'r exec_event \<Rightarrow> bool" exec_step "exec_history n0"
  by unfold_locales (rule exec_history_step)

lemma exec_history_start: "exec_history n0 (exec_start n0) [] []"
  by (simp add: exec_history_def exec_start_def nonces_from_def tasks_ok_def)

lemma distinct_nonces_from: "k \<le> 2 ^ 64 \<Longrightarrow> distinct (nonces_from n k)"
  unfolding nonces_from_def distinct_map
  using of_nat_eq_iff [where 'a = 64] by (auto intro!: inj_onI)

lemma exec_ordered_history:
  assumes "enabled_run exec_enabled exec_step (exec_start n0) es" and "length es < 2 ^ 64"
    and "run_events exec_step (exec_start n0) es = (s, os)"
  shows "\<exists>k. map jb_nonce (filter is_ordered (relayed_jobs os)) = nonces_from n0 k
    \<and> distinct (nonces_from n0 k) \<and> ex_next_job_to_submit s = n0 + of_nat k
    \<and> set (nonces_from n0 k) \<subseteq> jb_nonce ` set (filter is_ordered (completed_jobs es))
    \<and> n0 + of_nat k \<notin> jb_nonce ` set (filter is_ordered (completed_jobs es))
    \<and> filter (\<lambda>j. \<not> is_ordered j) (relayed_jobs os) = filter (\<lambda>j. \<not> is_ordered j) (completed_jobs es)
    \<and> set (relayed_jobs os) \<subseteq> set (completed_jobs es)"
proof -
  define k where "k = length (filter is_ordered (relayed_jobs os))"
  from exec.run_inv_start [OF exec_history_start assms(1,3)]
  have h: "map jb_nonce (filter is_ordered (relayed_jobs os)) = nonces_from n0 k"
    "ex_next_job_to_submit s = n0 + of_nat k" "bt_get (ex_completed_tasks s) (n0 + of_nat k) = None"
    "filter (\<lambda>j. \<not> is_ordered j) (relayed_jobs os) = filter (\<lambda>j. \<not> is_ordered j) (completed_jobs es)"
    "set (relayed_jobs os) \<union> ran (bt_get (ex_completed_tasks s)) \<subseteq> set (completed_jobs es)"
    "jb_nonce ` set (filter is_ordered (completed_jobs es))
       \<subseteq> set (nonces_from n0 k) \<union> dom (bt_get (ex_completed_tasks s))"
    "k + length (ex_completed_tasks s) \<le> length es"
    unfolding exec_history_def Let_def k_def by blast+
  have k: "k < 2 ^ 64" using h(7) assms(2) by simp
  then have d: "distinct (nonces_from n0 (Suc k))" by (intro distinct_nonces_from) simp
  then have "n0 + of_nat k \<notin> set (nonces_from n0 k)" "distinct (nonces_from n0 k)"
    by (simp_all add: nonces_from_Suc)
  moreover have "set (nonces_from n0 k) \<subseteq> jb_nonce ` set (filter is_ordered (completed_jobs es))"
    using h(5) unfolding h(1) [symmetric] by auto
  ultimately show ?thesis using h by (intro exI [of _ k]) auto
qed

text \<open>
  C15. Ordered jobs leave the execution actor in the order of their nonces, whatever the order in
  which the pool completes them and however often a nonce is submitted: the relayed nonces are the
  start nonce and its successors without a gap, each once, up to the first nonce that has not
  completed, and that nonce is the one the actor answers as its next. Unordered jobs leave in the
  order in which they complete, and nothing is relayed that the pool did not complete.
\<close>

theorem exec_relays_in_order:
  assumes "enabled_run exec_enabled exec_step (exec_start n0) es" and "length es < 2 ^ 64"
    and "run_events exec_step (exec_start n0) es = (s, os)"
  shows "\<exists>k. map jb_nonce (filter is_ordered (relayed_jobs os)) = nonces_from n0 k
    \<and> distinct (nonces_from n0 k) \<and> ex_next_job_to_submit s = n0 + of_nat k
    \<and> set (nonces_from n0 k) \<subseteq> jb_nonce ` set (filter is_ordered (completed_jobs es))
    \<and> n0 + of_nat k \<notin> jb_nonce ` set (filter is_ordered (completed_jobs es))
    \<and> filter (\<lambda>j. \<not> is_ordered j) (relayed_jobs os) = filter (\<lambda>j. \<not> is_ordered j) (completed_jobs es)
    \<and> set (relayed_jobs os) \<subseteq> set (completed_jobs es)"
  using assms by (rule exec_ordered_history)

text \<open>A run in which the pool completes the second job first.\<close>

definition swapped_run :: "nat exec_event list" where
  "swapped_run = [EvRecv (Some (MsgExec (sample_job 5 Ordered JPending))),
     EvRecv (Some (MsgExec (sample_job 6 Ordered JPending))),
     EvJoin (TaskReply (PoolOk (sample_job 6 Ordered JDone))),
     EvJoin (TaskReply (PoolOk (sample_job 5 Ordered JDone)))]"

theorem exec_relays_in_order_witness:
  "\<exists>k. map jb_nonce (filter is_ordered (relayed_jobs (snd (run_events exec_step (exec_start 5) swapped_run))))
     = nonces_from 5 k"
proof -
  have "enabled_run exec_enabled exec_step (exec_start 5) swapped_run"
    by (simp add: swapped_run_def exec_start_def exec_job_def completed_ok_def sample_job_def job_predicates)
  moreover have "length swapped_run < 2 ^ 64" by (simp add: swapped_run_def)
  ultimately show ?thesis using exec_relays_in_order [OF _ _ prod.collapse [symmetric]] by blast
qed

end
