(* ===== verification/Executor.thy ===== *)
theory Executor
  imports ExecActor
begin

text \<open>
  Execution of a job: the zkVM interface and its SP1 implementation (\<^verbatim>\<open>crates/zkvm/src/lib.rs\<close>), the
  executor service that runs a program and signs its result
  (\<^verbatim>\<open>crates/zkvm-executor/src/service.rs\<close>) and the pool workers that take jobs off the queue,
  record the outcome and reply to the execution actor (\<^verbatim>\<open>crates/coproc/src/pool.rs\<close>).

  The libraries these parts call are fields of one record: SP1 (key derivation, ELF loading, the
  interpreter), bincode for programs, the signer, Keccak and SHA-256, LZ4, the KZG sidecar builder and
  the ABI encoder.
\<close>

section \<open>The libraries\<close>

record 'p exec_libs =
  lib_sp1_setup :: "bytes \<Rightarrow> bytes"
  lib_program_from :: "bytes \<Rightarrow> 'p option"
  lib_bincode_serialize :: "'p \<Rightarrow> bytes option"
  lib_bincode_deserialize :: "bytes \<Rightarrow> 'p option"
  lib_run_fast :: "'p \<Rightarrow> u64 \<Rightarrow> bytes list \<Rightarrow> bytes option"
  lib_sign_message :: "bytes \<Rightarrow> bytes option"
  lib_keccak256 :: "bytes \<Rightarrow> b256"
  lib_sha256 :: "bytes \<Rightarrow> b256"
  lib_compress :: "bytes \<Rightarrow> bytes"
  lib_build_sidecar :: "bytes \<Rightarrow> blob_sidecar option"
  lib_versioned_hashes :: "blob_sidecar \<Rightarrow> b256 list"
  lib_encode_result :: "result_with_metadata \<Rightarrow> bytes"
  lib_encode_offchain_result :: "offchain_result_with_metadata \<Rightarrow> bytes"
  lib_encode_request :: "offchain_job_request \<Rightarrow> bytes"

section \<open>The zkVM\<close>

datatype zkvm_error = ZSp1 | ZSp1ExecutionError | ZCycleLimitExceeded | ZProgramDeserialize | ZProgramSerialize

definition sp1_derive_program_id :: "'p exec_libs \<Rightarrow> bytes \<Rightarrow> zkvm_error + bytes" where
  "sp1_derive_program_id L program_elf = Inr (lib_sp1_setup L program_elf)"

text \<open>The two inputs are the slices of the standard input, in this order.\<close>

definition sp1_execute :: "'p exec_libs \<Rightarrow> bytes \<Rightarrow> bytes \<Rightarrow> bytes \<Rightarrow> u64 \<Rightarrow> zkvm_error + bytes" where
  "sp1_execute L program_serialized onchain_input offchain_input max_cycles =
     (case lib_bincode_deserialize L program_serialized of
        None \<Rightarrow> Inl ZProgramDeserialize
      | Some program \<Rightarrow>
          (case lib_run_fast L program max_cycles [onchain_input, offchain_input] of
             None \<Rightarrow> Inl ZSp1ExecutionError
           | Some public_values \<Rightarrow> Inr public_values))"

definition sp1_derive_program :: "'p exec_libs \<Rightarrow> bytes \<Rightarrow> zkvm_error + bytes" where
  "sp1_derive_program L elf =
     (case lib_program_from L elf of
        None \<Rightarrow> Inl ZSp1
      | Some program \<Rightarrow>
          (case lib_bincode_serialize L program of None \<Rightarrow> Inl ZProgramSerialize | Some bs \<Rightarrow> Inr bs))"

definition is_correct_program_id :: "'p exec_libs \<Rightarrow> bytes \<Rightarrow> bytes \<Rightarrow> zkvm_error + bool" where
  "is_correct_program_id L program_elf program_id =
     (case sp1_derive_program_id L program_elf of
        Inl e \<Rightarrow> Inl e
      | Inr derived_program_id \<Rightarrow> Inr (derived_program_id = program_id))"

section \<open>The executor service\<close>

datatype executor_error =
    ESigner
  | EInvalidVmType
  | EProgramIdDerivationFailed zkvm_error
  | EProgramDerivationFailed zkvm_error
  | EZkvmExecuteFailed zkvm_error
  | EKzg

text \<open>There is one virtual machine, so dispatching on its type is total.\<close>

definition execute_vm :: "'p exec_libs \<Rightarrow> vm_type \<Rightarrow> bytes \<Rightarrow> bytes \<Rightarrow> bytes \<Rightarrow> u64 \<Rightarrow> executor_error + bytes" where
  "execute_vm L v elf onchain_input offchain_input max_cycles =
     (case v of Sp1 \<Rightarrow>
        (case sp1_execute L elf onchain_input offchain_input max_cycles of
           Inl e \<Rightarrow> Inl (EZkvmExecuteFailed e) | Inr out \<Rightarrow> Inr out))"

definition sign_message :: "'p exec_libs \<Rightarrow> bytes \<Rightarrow> executor_error + bytes" where
  "sign_message L msg = (case lib_sign_message L msg of None \<Rightarrow> Inl ESigner | Some sig \<Rightarrow> Inr sig)"

definition execute_onchain_job :: "'p exec_libs \<Rightarrow> b256 \<Rightarrow> u64 \<Rightarrow> bytes \<Rightarrow> bytes \<Rightarrow> bytes \<Rightarrow> vm_type
    \<Rightarrow> executor_error + bytes \<times> bytes" where
  "execute_onchain_job L job_id max_cycles program_id onchain_input elf v =
     (let onchain_input_hash = lib_keccak256 L onchain_input in
      case execute_vm L v elf onchain_input [] max_cycles of
        Inl e \<Rightarrow> Inl e
      | Inr raw_output \<Rightarrow>
          (let result_with_metadata = abi_encode_result_with_metadata (lib_encode_result L)
                 job_id onchain_input_hash max_cycles program_id raw_output in
           case sign_message L result_with_metadata of
             Inl e \<Rightarrow> Inl e
           | Inr zkvm_operator_signature \<Rightarrow> Inr (result_with_metadata, zkvm_operator_signature)))"

text \<open>The sidecar holds the compressed offchain input; without offchain input there is none.\<close>

definition offchain_sidecar :: "'p exec_libs \<Rightarrow> bytes \<Rightarrow> executor_error + blob_sidecar option" where
  "offchain_sidecar L offchain_input =
     (if offchain_input \<noteq> []
      then (case lib_build_sidecar L (lib_compress L offchain_input) of
              None \<Rightarrow> Inl EKzg | Some sidecar \<Rightarrow> Inr (Some sidecar))
      else Inr None)"

definition execute_offchain_job :: "'p exec_libs \<Rightarrow> b256 \<Rightarrow> u64 \<Rightarrow> bytes \<Rightarrow> bytes \<Rightarrow> bytes \<Rightarrow> bytes \<Rightarrow> vm_type
    \<Rightarrow> executor_error + bytes \<times> bytes \<times> blob_sidecar option" where
  "execute_offchain_job L job_id max_cycles program_id onchain_input offchain_input elf v =
     (let onchain_input_hash = lib_keccak256 L onchain_input;
          offchain_input_hash = lib_keccak256 L offchain_input in
      case execute_vm L v elf onchain_input offchain_input max_cycles of
        Inl e \<Rightarrow> Inl e
      | Inr raw_output \<Rightarrow>
          (case offchain_sidecar L offchain_input of
             Inl e \<Rightarrow> Inl e
           | Inr sidecar \<Rightarrow>
               (let versioned_hashes = (case sidecar of None \<Rightarrow> [] | Some s \<Rightarrow> lib_versioned_hashes L s);
                    result = abi_encode_offchain_result_with_metadata (lib_encode_offchain_result L)
                      job_id onchain_input_hash offchain_input_hash max_cycles program_id raw_output
                      versioned_hashes in
                case sign_message L result of
                  Inl e \<Rightarrow> Inl e
                | Inr zkvm_operator_signature \<Rightarrow> Inr (result, zkvm_operator_signature, sidecar))))"

definition create_elf :: "'p exec_libs \<Rightarrow> bytes \<Rightarrow> vm_type \<Rightarrow> executor_error + bytes" where
  "create_elf L elf v =
     (case v of Sp1 \<Rightarrow>
        (case sp1_derive_program_id L elf of
           Inl e \<Rightarrow> Inl (EProgramIdDerivationFailed e) | Inr program_id \<Rightarrow> Inr program_id))"

definition create_program :: "'p exec_libs \<Rightarrow> bytes \<Rightarrow> vm_type \<Rightarrow> executor_error + bytes" where
  "create_program L elf v =
     (case v of Sp1 \<Rightarrow>
        (case sp1_derive_program L elf of
           Inl e \<Rightarrow> Inl (EProgramDerivationFailed e) | Inr program \<Rightarrow> Inr program))"

section \<open>Pool workers\<close>

datatype failure_reason =
    MissingProgram | DbErrMissingProgram | DbErrGetElf | DbErrStatusFailed | ExecErr
  | DbErrStatusDone | DbErrStatusRelayed | RelayErr | DbRelayErr | RelayErrExceedRetry

fun failure_reason_string :: "failure_reason \<Rightarrow> string" where
  "failure_reason_string MissingProgram = ''missing_program''"
| "failure_reason_string DbErrMissingProgram = ''db_error_missing_elf''"
| "failure_reason_string DbErrGetElf = ''db_error_get_elf''"
| "failure_reason_string DbErrStatusFailed = ''db_error_status_failed''"
| "failure_reason_string ExecErr = ''execution_error''"
| "failure_reason_string DbErrStatusDone = ''db_error_status_done''"
| "failure_reason_string DbErrStatusRelayed = ''db_error_status_relayed''"
| "failure_reason_string RelayErr = ''relay_error''"
| "failure_reason_string DbRelayErr = ''db_relay_error''"
| "failure_reason_string RelayErrExceedRetry = ''relay_error_exceed_retry''"

text \<open>
  A worker's effects besides its reply: the writes it sends, without waiting, and the failures it
  counts. The program is read from the tables as they are at that moment.
\<close>

record pool_effects =
  pe_writes :: "db_write list"
  pe_job_errs :: "string list"

definition pool_get_program :: "'p exec_libs \<Rightarrow> db \<Rightarrow> job
    \<Rightarrow> (failure_reason + program_with_meta) \<times> job \<times> pool_effects" where
  "pool_get_program L d j =
     (case get_program (lib_sha256 L) d (jb_program_id j) of
        Some elf \<Rightarrow> (Inr elf, j, \<lparr>pe_writes = [], pe_job_errs = []\<rparr>)
      | None \<Rightarrow>
          (let j' = j\<lparr>jb_status := status_of JFailed (Some (failure_reason_string MissingProgram))\<rparr>
           in (Inl DbErrMissingProgram, j',
               \<lparr>pe_writes = [WJobTable j'], pe_job_errs = [failure_reason_string MissingProgram]\<rparr>)))"

definition pool_execute_job :: "'p exec_libs \<Rightarrow> job \<Rightarrow> program_with_meta \<Rightarrow> (failure_reason + job) \<times> pool_effects" where
  "pool_execute_job L j program_with_meta =
     (let program = pm_program_bytes program_with_meta;
          result = (case jb_request_type j of
              Onchain \<Rightarrow>
                (case execute_onchain_job L (jb_id j) (jb_max_cycles j) (jb_program_id j) (jb_onchain_input j)
                        program Sp1 of
                   Inl e \<Rightarrow> Inl e | Inr (result_with_metadata, signature) \<Rightarrow> Inr (result_with_metadata, signature, None))
            | Offchain _ \<Rightarrow>
                execute_offchain_job L (jb_id j) (jb_max_cycles j) (jb_program_id j) (jb_onchain_input j)
                  (jb_offchain_input j) program Sp1) in
      case result of
        Inr (result_with_metadata, zkvm_operator_signature, sidecar) \<Rightarrow>
          (let j' = j\<lparr>jb_status := status_of JDone None, jb_result_with_metadata := result_with_metadata,
                      jb_zkvm_operator_signature := zkvm_operator_signature, jb_blobs_sidecar := sidecar\<rparr>
           in (Inr j', \<lparr>pe_writes = [WJobTable j'], pe_job_errs = []\<rparr>))
      | Inl e \<Rightarrow>
          (let j' = j\<lparr>jb_status := status_of JFailed (Some (failure_reason_string ExecErr))\<rparr>
           in (Inl ExecErr,
               \<lparr>pe_writes = [WJobTable j'], pe_job_errs = [failure_reason_string ExecErr]\<rparr>)))"

text \<open>One turn of a worker: a job taken off the queue.\<close>

definition executor_worker :: "'p exec_libs \<Rightarrow> db \<Rightarrow> job \<Rightarrow> pool_reply \<times> pool_effects" where
  "executor_worker L d j =
     (case pool_get_program L d j of
        (Inl _, _, eff) \<Rightarrow> (PoolErr (jb_nonce j), eff)
      | (Inr program_with_meta, j', _) \<Rightarrow>
          (case pool_execute_job L j' program_with_meta of
             (Inl _, eff) \<Rightarrow> (PoolErr (jb_nonce j), eff)
           | (Inr executed_job, eff) \<Rightarrow> (PoolOk executed_job, eff)))"

section \<open>What an executed job carries\<close>

text \<open>The offchain input the program reads: an onchain job has none.\<close>

definition program_offchain_input :: "job \<Rightarrow> bytes" where
  "program_offchain_input j = (case jb_request_type j of Onchain \<Rightarrow> [] | Offchain _ \<Rightarrow> jb_offchain_input j)"

text \<open>The message the contract checks: it commits to the job, its inputs and the raw output.\<close>

definition expected_result :: "'p exec_libs \<Rightarrow> job \<Rightarrow> bytes \<Rightarrow> blob_sidecar option \<Rightarrow> bytes" where
  "expected_result L j raw sidecar =
     (case jb_request_type j of
        Onchain \<Rightarrow> lib_encode_result L
          \<lparr>rm_job_id = jb_id j, rm_onchain_input_hash = lib_keccak256 L (jb_onchain_input j),
           rm_max_cycles = jb_max_cycles j, rm_program_id = jb_program_id j, rm_raw_output = raw\<rparr>
      | Offchain _ \<Rightarrow> lib_encode_offchain_result L
          \<lparr>orm_job_id = jb_id j, orm_onchain_input_hash = lib_keccak256 L (jb_onchain_input j),
           orm_offchain_input_hash = lib_keccak256 L (jb_offchain_input j),
           orm_max_cycles = jb_max_cycles j, orm_program_id = jb_program_id j, orm_raw_output = raw,
           orm_versioned_blob_hashes = (case sidecar of None \<Rightarrow> [] | Some s \<Rightarrow> lib_versioned_hashes L s)\<rparr>)"

definition expected_sidecar :: "'p exec_libs \<Rightarrow> job \<Rightarrow> blob_sidecar option" where
  "expected_sidecar L j =
     (if program_offchain_input j = [] then None
      else lib_build_sidecar L (lib_compress L (program_offchain_input j)))"

definition executed :: "'p exec_libs \<Rightarrow> db \<Rightarrow> job \<Rightarrow> job \<Rightarrow> bool" where
  "executed L d j j' \<longleftrightarrow>
     j' = j\<lparr>jb_status := status_of JDone None, jb_result_with_metadata := jb_result_with_metadata j',
            jb_zkvm_operator_signature := jb_zkvm_operator_signature j', jb_blobs_sidecar := expected_sidecar L j\<rparr>
     \<and> lib_sign_message L (jb_result_with_metadata j') = Some (jb_zkvm_operator_signature j')
     \<and> (\<exists>p raw. get_program (lib_sha256 L) d (jb_program_id j) = Some p
          \<and> sp1_execute L (pm_program_bytes p) (jb_onchain_input j) (program_offchain_input j)
              (jb_max_cycles j) = Inr raw
          \<and> jb_result_with_metadata j' = expected_result L j raw (expected_sidecar L j))"

lemma execute_onchain_job_Inr:
  "execute_onchain_job L i c pid inp elf v = Inr (r, sig) \<longleftrightarrow>
     (\<exists>raw. sp1_execute L elf inp [] c = Inr raw
        \<and> r = lib_encode_result L \<lparr>rm_job_id = i, rm_onchain_input_hash = lib_keccak256 L inp,
                 rm_max_cycles = c, rm_program_id = pid, rm_raw_output = raw\<rparr>
        \<and> lib_sign_message L r = Some sig)"
  by (cases v) (auto simp: execute_onchain_job_def execute_vm_def sign_message_def Let_def
      abi_encode_result_with_metadata_def split: sum.splits option.splits)

lemma execute_offchain_job_Inr:
  "execute_offchain_job L i c pid inp off elf v = Inr (r, sig, sc) \<longleftrightarrow>
     (\<exists>raw. sp1_execute L elf inp off c = Inr raw \<and> offchain_sidecar L off = Inr sc
        \<and> r = lib_encode_offchain_result L \<lparr>orm_job_id = i, orm_onchain_input_hash = lib_keccak256 L inp,
                 orm_offchain_input_hash = lib_keccak256 L off, orm_max_cycles = c, orm_program_id = pid,
                 orm_raw_output = raw,
                 orm_versioned_blob_hashes = (case sc of None \<Rightarrow> [] | Some s \<Rightarrow> lib_versioned_hashes L s)\<rparr>
        \<and> lib_sign_message L r = Some sig)"
  by (cases v) (auto simp: execute_offchain_job_def execute_vm_def sign_message_def Let_def
      abi_encode_offchain_result_with_metadata_def split: sum.splits option.splits)

lemma offchain_sidecar_Inr:
  "offchain_sidecar L off = Inr sc \<Longrightarrow> sc = (if off = [] then None else lib_build_sidecar L (lib_compress L off))"
  by (auto simp: offchain_sidecar_def split: if_splits option.splits)

lemma pool_execute_job_Inr:
  assumes "pool_execute_job L j p = (Inr j', eff)"
    and "get_program (lib_sha256 L) d (jb_program_id j) = Some p"
  shows "executed L d j j' \<and> eff = \<lparr>pe_writes = [WJobTable j'], pe_job_errs = []\<rparr>"
proof (cases "jb_request_type j")
  case Onchain
  with assms show ?thesis
    by (auto simp: pool_execute_job_def executed_def expected_sidecar_def program_offchain_input_def
        expected_result_def execute_onchain_job_Inr Let_def split: sum.splits prod.splits)
next
  case (Offchain sig)
  then obtain r s sc where r: "execute_offchain_job L (jb_id j) (jb_max_cycles j) (jb_program_id j)
      (jb_onchain_input j) (jb_offchain_input j) (pm_program_bytes p) Sp1 = Inr (r, s, sc)"
    using assms(1) by (auto simp: pool_execute_job_def Let_def split: sum.splits)
  then have sc: "expected_sidecar L j = sc"
    using Offchain offchain_sidecar_Inr [of L "jb_offchain_input j" sc]
    by (auto simp: execute_offchain_job_Inr expected_sidecar_def program_offchain_input_def)
  from assms(1) Offchain r have "j' = j\<lparr>jb_status := status_of JDone None, jb_result_with_metadata := r,
      jb_zkvm_operator_signature := s, jb_blobs_sidecar := sc\<rparr>"
    "eff = \<lparr>pe_writes = [WJobTable j'], pe_job_errs = []\<rparr>"
    by (auto simp: pool_execute_job_def Let_def)
  with r assms(2) Offchain show ?thesis
    by (auto simp: executed_def sc execute_offchain_job_Inr program_offchain_input_def expected_result_def)
qed

lemma pool_execute_job_Inl:
  assumes "pool_execute_job L j p = (Inl r, eff)"
  shows "eff = \<lparr>pe_writes = [WJobTable (j\<lparr>jb_status := status_of JFailed (Some (failure_reason_string ExecErr))\<rparr>)],
    pe_job_errs = [failure_reason_string ExecErr]\<rparr>"
  using assms by (auto simp: pool_execute_job_def Let_def split: sum.splits)

lemma executor_worker_cases:
  "case executor_worker L d j of
     (PoolOk j', eff) \<Rightarrow> executed L d j j' \<and> eff = \<lparr>pe_writes = [WJobTable j'], pe_job_errs = []\<rparr>
   | (PoolErr n, eff) \<Rightarrow> n = jb_nonce j \<and>
       (\<exists>r \<in> {MissingProgram, ExecErr}.
          eff = \<lparr>pe_writes = [WJobTable (j\<lparr>jb_status := status_of JFailed (Some (failure_reason_string r))\<rparr>)],
                 pe_job_errs = [failure_reason_string r]\<rparr>
          \<and> (r = MissingProgram \<longleftrightarrow> get_program (lib_sha256 L) d (jb_program_id j) = None))"
proof (cases "get_program (lib_sha256 L) d (jb_program_id j)")
  case None
  then show ?thesis by (simp add: executor_worker_def pool_get_program_def Let_def)
next
  case (Some p)
  obtain res eff where r: "pool_execute_job L j p = (res, eff)" by force
  with Some have w: "executor_worker L d j =
      (case res of Inl _ \<Rightarrow> PoolErr (jb_nonce j) | Inr j' \<Rightarrow> PoolOk j', eff)"
    by (auto simp: executor_worker_def pool_get_program_def split: sum.splits)
  show ?thesis
  proof (cases res)
    case (Inl e)
    with pool_execute_job_Inl [of L j p e eff] r Some show ?thesis by (simp add: w)
  next
    case (Inr j')
    with pool_execute_job_Inr [of L j p j' eff d] r Some show ?thesis by (simp add: w)
  qed
qed

text \<open>
  C37. A pool worker replies and records consistently. If it replies with a job, that job is the
  submitted one, marked done, with the result message for the program's output on the job's own
  inputs, the operator's signature over exactly that message, and a sidecar exactly when there is
  offchain input; the same job is written to the job table. Otherwise it replies with the nonce, and
  the one record it writes is the submitted job marked failed with the reason.
\<close>

theorem executor_worker_exact:
  "case executor_worker L d j of
     (PoolOk j', eff) \<Rightarrow> executed L d j j' \<and> eff = \<lparr>pe_writes = [WJobTable j'], pe_job_errs = []\<rparr>
   | (PoolErr n, eff) \<Rightarrow> n = jb_nonce j \<and>
       (\<exists>r \<in> {MissingProgram, ExecErr}.
          eff = \<lparr>pe_writes = [WJobTable (j\<lparr>jb_status := status_of JFailed (Some (failure_reason_string r))\<rparr>)],
                 pe_job_errs = [failure_reason_string r]\<rparr>
          \<and> (r = MissingProgram \<longleftrightarrow> get_program (lib_sha256 L) d (jb_program_id j) = None))"
  by (rule executor_worker_cases)

text \<open>Small libraries for the concrete runs: a program is its bytes and outputs them.\<close>

definition sample_libs :: "bytes exec_libs" where
  "sample_libs =
     \<lparr>lib_sp1_setup = (\<lambda>elf. elf), lib_program_from = Some, lib_bincode_serialize = (\<lambda>p. Some (0 # p)),
      lib_bincode_deserialize = (\<lambda>bs. case bs of [] \<Rightarrow> None | b # p \<Rightarrow> if b = 0 then Some p else None),
      lib_run_fast = (\<lambda>p c ins. Some (p @ concat ins)), lib_sign_message = (\<lambda>m. Some (5 # m)),
      lib_keccak256 = be_word, lib_sha256 = be_word, lib_compress = (\<lambda>bs. bs),
      lib_build_sidecar = (\<lambda>bs. Some \<lparr>sc_blobs = [bs], sc_commitments = [], sc_proofs = []\<rparr>),
      lib_versioned_hashes = (\<lambda>sc. map be_word (sc_blobs sc)),
      lib_encode_result = (\<lambda>r. rm_raw_output r), lib_encode_offchain_result = (\<lambda>r. orm_raw_output r),
      lib_encode_request = (\<lambda>r. ojr_program_id r)\<rparr>"

end
