(* ===== verification/Relayer.thy ===== *)
theory Relayer
  imports Executor
begin

text \<open>
  Bringing results on chain (\<^verbatim>\<open>crates/coproc/src/relayer.rs\<close>): the job relayer, which sends one
  transaction, the relay actor of a consumer with its retry loop and back-off, and the service
  that retries the jobs of the dead letter queue (the table of relay failures).

  The chain is the environment: for each transaction it says whether the broadcast failed, the
  inclusion failed, or the transaction was included and under which hash, and, for an offchain job,
  what the consumer contract answers to the polls for its next nonce.
\<close>

section \<open>One transaction\<close>

definition JOB_RETRY_DELAY_MS :: u64 where "JOB_RETRY_DELAY_MS = 500"
definition JOB_RETRY_MAX_DELAY_MS :: u64 where "JOB_RETRY_MAX_DELAY_MS = 30 * 1000"
definition TX_INCLUSION_ERROR :: string where "TX_INCLUSION_ERROR = ''relay_error_tx_inclusion_error''"
definition BROADCAST_ERROR :: string where "BROADCAST_ERROR = ''relay_error_broadcast_failure''"

lemmas relay_constants = JOB_RETRY_DELAY_MS_def JOB_RETRY_MAX_DELAY_MS_def TX_INCLUSION_ERROR_def BROADCAST_ERROR_def

datatype submit_call =
    SubmitResult bytes bytes
  | SubmitResultForOffchainJob bytes bytes bytes bytes "blob_sidecar option"

datatype chain_outcome = BroadcastFails | InclusionFails | Included b256

record attempt =
  at_outcome :: chain_outcome
  at_nonce_polls :: "u64 option list"

datatype relayer_error = TxBroadcast | TxInclusion | InvalidJobRequestType | InvalidAddressLength

datatype relay_res = RelOk b256 | RelErr relayer_error | RelPanic

record relay_effects =
  rl_calls :: "submit_call list"
  rl_relay_errs :: "string list"
  rl_relayed_total :: nat
  rl_sleeps :: "u64 list"
  rl_poll_sleeps :: "u64 list"

definition no_effects :: relay_effects where
  "no_effects = \<lparr>rl_calls = [], rl_relay_errs = [], rl_relayed_total = 0, rl_sleeps = [], rl_poll_sleeps = []\<rparr>"

definition then_effects :: "relay_effects \<Rightarrow> relay_effects \<Rightarrow> relay_effects" where
  "then_effects a b =
     \<lparr>rl_calls = rl_calls a @ rl_calls b, rl_relay_errs = rl_relay_errs a @ rl_relay_errs b,
      rl_relayed_total = rl_relayed_total a + rl_relayed_total b, rl_sleeps = rl_sleeps a @ rl_sleeps b,
      rl_poll_sleeps = rl_poll_sleeps a @ rl_poll_sleeps b\<rparr>"

text \<open>Broadcasting, waiting for inclusion and counting the failures, the same for both kinds.\<close>

definition send_and_wait :: "submit_call \<Rightarrow> chain_outcome \<Rightarrow> relay_res \<times> relay_effects" where
  "send_and_wait call outcome =
     (case outcome of
        BroadcastFails \<Rightarrow> (RelErr TxBroadcast, no_effects\<lparr>rl_calls := [call], rl_relay_errs := [BROADCAST_ERROR]\<rparr>)
      | InclusionFails \<Rightarrow> (RelErr TxInclusion, no_effects\<lparr>rl_calls := [call], rl_relay_errs := [TX_INCLUSION_ERROR]\<rparr>)
      | Included tx_hash \<Rightarrow> (RelOk tx_hash, no_effects\<lparr>rl_calls := [call]\<rparr>))"

definition relay_result_for_onchain_job :: "job \<Rightarrow> attempt \<Rightarrow> relay_res \<times> relay_effects" where
  "relay_result_for_onchain_job j a =
     (case send_and_wait (SubmitResult (jb_result_with_metadata j) (jb_zkvm_operator_signature j)) (at_outcome a) of
        (RelOk tx_hash, eff) \<Rightarrow> (RelOk tx_hash, eff\<lparr>rl_relayed_total := 1\<rparr>)
      | (r, eff) \<Rightarrow> (r, eff))"

text \<open>
  After inclusion the consumer contract is polled for its next nonce, at most 15 times, sleeping
  \<open>2 ^ i\<close> milliseconds after the \<open>i\<close>-th failed poll; the answer is only logged.
\<close>

fun poll_next_nonce :: "nat \<Rightarrow> u64 option list \<Rightarrow> u64 list \<times> u64 option" where
  "poll_next_nonce i [] = ([], None)"
| "poll_next_nonce i (p # ps) =
     (if i > 15 then ([], None)
      else case p of
        Some next_nonce \<Rightarrow> ([], Some next_nonce)
      | None \<Rightarrow> (let (sleeps, r) = poll_next_nonce (Suc i) ps in (2 ^ i # sleeps, r)))"

definition relay_result_for_offchain_job :: "job \<Rightarrow> bytes \<Rightarrow> attempt \<Rightarrow> relay_res \<times> relay_effects" where
  "relay_result_for_offchain_job j job_request_payload a =
     (case jb_request_type j of
        Onchain \<Rightarrow> (RelErr InvalidJobRequestType, no_effects)
      | Offchain request_signature \<Rightarrow>
          (let sidecar = (case jb_blobs_sidecar j of
                 Some sc \<Rightarrow> if sc_blobs sc \<noteq> [] then Some sc else None
               | None \<Rightarrow> None);
               call = SubmitResultForOffchainJob (jb_result_with_metadata j) (jb_zkvm_operator_signature j)
                 job_request_payload request_signature sidecar in
           case send_and_wait call (at_outcome a) of
             (RelOk tx_hash, eff) \<Rightarrow>
               (case try_into_address (jb_consumer_address j) of
                  None \<Rightarrow> (RelPanic, eff)
                | Some _ \<Rightarrow> (RelOk tx_hash, eff\<lparr>rl_relayed_total := 1,
                               rl_poll_sleeps := fst (poll_next_nonce 1 (at_nonce_polls a))\<rparr>))
           | (r, eff) \<Rightarrow> (r, eff)))"

section \<open>The retry loop of the relay actor\<close>

text \<open>
  One attempt for a job, by its kind. For an offchain job the request payload is rebuilt from the
  stored job first; a consumer address of the wrong length ends the loop (\<open>None\<close>).
\<close>

definition relay_once :: "'p exec_libs \<Rightarrow> job \<Rightarrow> attempt \<Rightarrow> (relay_res \<times> relay_effects) option" where
  "relay_once L j a =
     (case jb_request_type j of
        Onchain \<Rightarrow> Some (relay_result_for_onchain_job j a)
      | Offchain _ \<Rightarrow>
          (case job_params_try_from (lib_keccak256 L) j of
             None \<Rightarrow> None
           | Some job_params \<Rightarrow>
               Some (relay_result_for_offchain_job j
                 (abi_encode_offchain_job_request (lib_encode_request L) job_params) a)))"

definition retry_backoff :: "u32 \<Rightarrow> u64" where
  "retry_backoff i =
     (let calc_backoff = JOB_RETRY_DELAY_MS * ucast i in
      if calc_backoff > JOB_RETRY_MAX_DELAY_MS then JOB_RETRY_MAX_DELAY_MS else calc_backoff)"

text \<open>
  How the loop ends: with the result of its last attempt or, without one, because the job's
  consumer address is malformed. \<open>None\<close> means that it is still running after the given attempts.
\<close>

datatype loop_exit = LoopDone relay_res | LoopBadAddress

fun relay_loop :: "'p exec_libs \<Rightarrow> u32 \<Rightarrow> u32 \<Rightarrow> job \<Rightarrow> attempt list \<Rightarrow> (loop_exit \<times> relay_effects) option" where
  "relay_loop L max_retries i j [] = None"
| "relay_loop L max_retries i j (a # as) =
     (case relay_once L j a of
        None \<Rightarrow> Some (LoopBadAddress, no_effects)
      | Some (r, eff) \<Rightarrow>
          if r = RelPanic then Some (LoopDone r, eff)
          else if i > max_retries + 1 then Some (LoopDone r, eff)
          else (case r of
              RelErr _ \<Rightarrow>
                map_option (\<lambda>(x, eff'). (x, then_effects (eff\<lparr>rl_sleeps := [retry_backoff i]\<rparr>) eff'))
                  (relay_loop L max_retries (i + 1) j as)
            | _ \<Rightarrow> Some (LoopDone r, eff)))"

text \<open>What \<open>relay_job_result\<close> sends to the writer and to the execution actor, and its result.\<close>

record relay_outcome =
  ro_result :: "failure_reason option"
  ro_writes :: "db_write list"
  ro_relayed :: "u64 list"
  ro_panic :: bool

definition relayed_job :: "job \<Rightarrow> b256 \<Rightarrow> job" where
  "relayed_job j tx_hash =
     j\<lparr>jb_relay_tx_hash := be_bytes 32 tx_hash,
       jb_status := (jb_status j)\<lparr>js_status := job_status_code JRelayed\<rparr>\<rparr>"

definition relay_job_result :: "'p exec_libs \<Rightarrow> u32 \<Rightarrow> job \<Rightarrow> attempt list \<Rightarrow> (relay_outcome \<times> relay_effects) option" where
  "relay_job_result L initial_relay_max_retries j as =
     (case relay_loop L initial_relay_max_retries 1 j as of
        None \<Rightarrow> None
      | Some (LoopBadAddress, eff) \<Rightarrow>
          Some (\<lparr>ro_result = Some RelayErr, ro_writes = [], ro_relayed = [], ro_panic = False\<rparr>, eff)
      | Some (LoopDone (RelErr _), eff) \<Rightarrow>
          Some (\<lparr>ro_result = Some RelayErr, ro_writes = [WFailureJobs j], ro_relayed = [], ro_panic = False\<rparr>, eff)
      | Some (LoopDone (RelOk tx_hash), eff) \<Rightarrow>
          Some (\<lparr>ro_result = None, ro_writes = [WJobTable (relayed_job j tx_hash)],
                 ro_relayed = [jb_nonce j], ro_panic = False\<rparr>, eff)
      | Some (LoopDone RelPanic, eff) \<Rightarrow>
          Some (\<lparr>ro_result = None, ro_writes = [], ro_relayed = [], ro_panic = True\<rparr>, eff))"

section \<open>The relay actor\<close>

text \<open>
  The actor polls its channel. An ordered job is awaited before the next message is taken; an
  unordered one is relayed by a task of its own. \<open>relay_actor\<close> runs it over a sequence of messages;
  the chain's answers to the awaited jobs are given in order. It lists what it did, and stops where
  an awaited job has not finished.
\<close>

datatype relay_action = Awaited job relay_outcome relay_effects | Spawned job

fun relay_actor :: "'p exec_libs \<Rightarrow> u32 \<Rightarrow> relay_msg list \<Rightarrow> attempt list list \<Rightarrow> relay_action list" where
  "relay_actor L m [] ass = []"
| "relay_actor L m (RelayExit # msgs) ass = []"
| "relay_actor L m (Relay j # msgs) ass =
     (case jb_relay_strategy j of
        Ordered \<Rightarrow>
          (case ass of
             [] \<Rightarrow> []
           | as # ass' \<Rightarrow>
               (case relay_job_result L m j as of
                  None \<Rightarrow> []
                | Some (r, eff) \<Rightarrow> Awaited j r eff # (if ro_panic r then [] else relay_actor L m msgs ass')))
      | Unordered \<Rightarrow> Spawned j # relay_actor L m msgs ass)"

section \<open>The dead letter queue\<close>

text \<open>
  One attempt for every job read from the queue, each with its own chain answer. A success marks the
  job relayed and queues the deletion; a failure counts a retry, or queues the deletion when the
  retries are used up. A malformed address ends the service (\<open>None\<close>), as does a panic.
\<close>

record retry_result =
  rr_writes :: "db_write list"
  rr_deletes :: "b256 list"
  rr_relay_errs :: "string list"

definition retry_job :: "'p exec_libs \<Rightarrow> u32 \<Rightarrow> job \<Rightarrow> attempt \<Rightarrow> retry_result option" where
  "retry_job L dlq_max_retries j a =
     (case relay_once L j a of
        None \<Rightarrow> None
      | Some (RelPanic, eff) \<Rightarrow> None
      | Some (RelOk tx_hash, eff) \<Rightarrow>
          Some \<lparr>rr_writes = [WJobTable (j\<lparr>jb_relay_tx_hash := be_bytes 32 tx_hash,
                   jb_status := (jb_status j)\<lparr>js_status := job_status_code JRelayed, js_failure_reason := None\<rparr>\<rparr>)],
                rr_deletes = [jb_id j], rr_relay_errs = rl_relay_errs eff\<rparr>
      | Some (RelErr e, eff) \<Rightarrow>
          if js_retries (jb_status j) = dlq_max_retries
          then Some \<lparr>rr_writes = [], rr_deletes = [jb_id j],
                     rr_relay_errs = rl_relay_errs eff @ [failure_reason_string RelayErrExceedRetry]\<rparr>
          else Some \<lparr>rr_writes = [WFailureJobs (j\<lparr>jb_status := (jb_status j)
                       \<lparr>js_retries := js_retries (jb_status j) + 1\<rparr>\<rparr>)],
                     rr_deletes = [], rr_relay_errs = rl_relay_errs eff\<rparr>)"

fun retry_jobs :: "'p exec_libs \<Rightarrow> u32 \<Rightarrow> (job \<times> attempt) list \<Rightarrow> retry_result option" where
  "retry_jobs L m [] = Some \<lparr>rr_writes = [], rr_deletes = [], rr_relay_errs = []\<rparr>"
| "retry_jobs L m ((j, a) # rest) =
     (case retry_job L m j a of
        None \<Rightarrow> None
      | Some r \<Rightarrow>
          (case retry_jobs L m rest of
             None \<Rightarrow> None
           | Some r' \<Rightarrow> Some \<lparr>rr_writes = rr_writes r @ rr_writes r', rr_deletes = rr_deletes r @ rr_deletes r',
                               rr_relay_errs = rr_relay_errs r @ rr_relay_errs r'\<rparr>))"

text \<open>
  One pass of the service, with the tables after it: every write is awaited, the deletions come
  last. \<open>ans\<close> gives the chain's answer for each job.
\<close>

definition retry_pass :: "'p exec_libs \<Rightarrow> u32 \<Rightarrow> (job \<Rightarrow> attempt) \<Rightarrow> db \<Rightarrow> db option" where
  "retry_pass L dlq_max_retries ans d =
     map_option (\<lambda>r. fold (apply_write (lib_sha256 L)) (rr_writes r @ map WFailureJobsDelete (rr_deletes r)) d)
       (retry_jobs L dlq_max_retries (map (\<lambda>j. (j, ans j)) (get_all_failed_jobs d)))"

section \<open>Attempts\<close>

text \<open>The transaction a job is relayed with, and what the chain's answer makes of an attempt.\<close>

definition relay_call :: "'p exec_libs \<Rightarrow> job \<Rightarrow> submit_call" where
  "relay_call L j = (case jb_request_type j of
     Onchain \<Rightarrow> SubmitResult (jb_result_with_metadata j) (jb_zkvm_operator_signature j)
   | Offchain request_signature \<Rightarrow>
       SubmitResultForOffchainJob (jb_result_with_metadata j) (jb_zkvm_operator_signature j)
         (lib_encode_request L
           \<lparr>ojr_nonce = jb_nonce j, ojr_max_cycles = jb_max_cycles j,
            ojr_consumer = be_word (jb_consumer_address j), ojr_program_id = jb_program_id j,
            ojr_onchain_input = jb_onchain_input j,
            ojr_offchain_input_hash = lib_keccak256 L (jb_offchain_input j)\<rparr>)
         request_signature
         (case jb_blobs_sidecar j of Some sc \<Rightarrow> if sc_blobs sc \<noteq> [] then Some sc else None | None \<Rightarrow> None))"

definition attempt_res :: "attempt \<Rightarrow> relay_res" where
  "attempt_res a = (case at_outcome a of
     BroadcastFails \<Rightarrow> RelErr TxBroadcast | InclusionFails \<Rightarrow> RelErr TxInclusion | Included h \<Rightarrow> RelOk h)"

definition succeeds :: "attempt \<Rightarrow> bool" where
  "succeeds a \<longleftrightarrow> (\<exists>h. attempt_res a = RelOk h)"

text \<open>A job that can be relayed: its consumer address has 20 bytes if it is an offchain job.\<close>

definition relayable :: "job \<Rightarrow> bool" where
  "relayable j \<longleftrightarrow> jb_request_type j = Onchain \<or> length (jb_consumer_address j) = 20"

lemma attempt_res_not_panic [simp]: "attempt_res a \<noteq> RelPanic"
  by (simp add: attempt_res_def split: chain_outcome.splits)

lemma not_succeeds: "\<not> succeeds a \<longleftrightarrow> (\<exists>e. attempt_res a = RelErr e)"
  by (cases "attempt_res a") (auto simp: succeeds_def attempt_res_def split: chain_outcome.splits)

lemma send_and_wait_res:
  "fst (send_and_wait call (at_outcome a)) = attempt_res a
   \<and> rl_calls (snd (send_and_wait call (at_outcome a))) = [call]
   \<and> rl_sleeps (snd (send_and_wait call (at_outcome a))) = []"
  by (simp add: send_and_wait_def attempt_res_def no_effects_def split: chain_outcome.splits)

lemma relay_once_relayable:
  assumes "relayable j"
  shows "\<exists>eff. relay_once L j a = Some (attempt_res a, eff) \<and> rl_calls eff = [relay_call L j] \<and> rl_sleeps eff = []"
proof (cases "jb_request_type j")
  case Onchain
  then show ?thesis
    using send_and_wait_res [of "SubmitResult (jb_result_with_metadata j) (jb_zkvm_operator_signature j)" a]
    by (auto simp: relay_once_def relay_result_for_onchain_job_def relay_call_def
        split: prod.splits relay_res.splits)
next
  case (Offchain sig)
  then have "try_into_address (jb_consumer_address j) = Some (be_word (jb_consumer_address j))"
    using assms by (simp add: relayable_def try_into_address_def)
  with Offchain show ?thesis
    using send_and_wait_res [of "relay_call L j" a]
    by (auto simp: relay_once_def relay_result_for_offchain_job_def relay_call_def job_params_try_from_def
        abi_encode_offchain_job_request_def Let_def split: prod.splits relay_res.splits)
qed

lemma relay_once_not_relayable: "\<not> relayable j \<Longrightarrow> relay_once L j a = None"
  by (cases "jb_request_type j")
    (auto simp: relayable_def relay_once_def job_params_try_from_def try_into_address_def)

lemma relay_once_no_panic: "relay_once L j a \<noteq> Some (RelPanic, eff)"
  using relay_once_relayable [of j L a] relay_once_not_relayable [of j L a] attempt_res_not_panic [of a]
  by (cases "relayable j") (auto simp del: attempt_res_not_panic)

text \<open>The number of attempts before the last: up to the first success, at most \<open>m + 1\<close>.\<close>

definition failed_attempts :: "nat \<Rightarrow> attempt list \<Rightarrow> nat" where
  "failed_attempts m as = min (length (takeWhile (\<lambda>a. \<not> succeeds a) as)) m"

lemma relay_loop_exact:
  assumes "relayable j" and "unat m + 2 < 2 ^ 32" and "1 \<le> unat i" and "unat i \<le> unat m + 2"
    and "unat m + 2 - unat i < length as" and n: "n = failed_attempts (unat m + 2 - unat i) as"
  shows "\<exists>eff. relay_loop L m i j as = Some (LoopDone (attempt_res (as ! n)), eff)
    \<and> rl_calls eff = replicate (Suc n) (relay_call L j)
    \<and> rl_sleeps eff = map (\<lambda>k. retry_backoff (of_nat k)) [unat i..<unat i + n]"
  using assms(3-)
proof (induction as arbitrary: i n)
  case Nil
  then show ?case by simp
next
  case (Cons a as)
  obtain eff where once: "relay_once L j a = Some (attempt_res a, eff)"
    and eff: "rl_calls eff = [relay_call L j]" "rl_sleeps eff = []"
    using relay_once_relayable [OF assms(1)] by blast
  have m1: "unat (m + 1) = unat m + 1"
    using assms(2) by (simp add: unat_word_ariths)
  show ?case
  proof (cases "m + 1 < i \<or> succeeds a")
    case True
    then have "n = 0" using Cons.prems(2,4) m1
      by (auto simp: failed_attempts_def word_less_nat_alt)
    with True once eff show ?thesis by (auto simp: succeeds_def)
  next
    case False
    then have i: "unat i \<le> unat m + 1" and f: "\<not> succeeds a" using m1 by (auto simp: word_less_nat_alt)
    have i1: "unat (i + 1) = unat i + 1" using i assms(2) by (simp add: unat_word_ariths)
    obtain e where e: "attempt_res a = RelErr e" using f by (auto simp: not_succeeds)
    define n' where "n' = failed_attempts (unat m + 2 - unat (i + 1)) as"
    have n: "n = Suc n'" using Cons.prems(4) f i by (simp add: failed_attempts_def n'_def i1)
    have "1 \<le> unat (i + 1)" "unat (i + 1) \<le> unat m + 2" "unat m + 2 - unat (i + 1) < length as"
      using i i1 Cons.prems(3) by auto
    from Cons.IH [OF this n'_def] obtain eff' where
      l: "relay_loop L m (i + 1) j as = Some (LoopDone (attempt_res (as ! n')), eff')"
      "rl_calls eff' = replicate (Suc n') (relay_call L j)"
      "rl_sleeps eff' = map (\<lambda>k. retry_backoff (of_nat k)) [unat (i + 1)..<unat (i + 1) + n']" by blast
    have u: "[unat i..<unat i + n] = unat i # [unat (i + 1)..<unat (i + 1) + n']"
      by (simp add: n i1 upt_conv_Cons)
    show ?thesis using False once eff e l unfolding u by (auto simp: n then_effects_def simp del: upt_Suc)
  qed
qed

lemma retry_backoff_of_nat:
  assumes "k < 2 ^ 32"
  shows "retry_backoff (of_nat k) = of_nat (min (500 * k) 30000)"
proof -
  have u: "unat (ucast (of_nat k :: u32) :: u64) = k" using assms by (simp add: unsigned_ucast_eq unat_of_nat take_bit_nat_eq_self)
  have "JOB_RETRY_DELAY_MS * ucast (of_nat k :: u32) = of_nat (500 * k)"
    using assms by (simp add: relay_constants word_unat_eq_iff unat_word_ariths u unat_of_nat)
  moreover have "unat (of_nat (500 * k) :: u64) = 500 * k" using assms by (subst unat_of_nat) simp
  ultimately show ?thesis
    by (simp add: retry_backoff_def Let_def relay_constants word_less_nat_alt min_def
        del: of_nat_mult)
qed

lemma relay_job_result_cases:
  assumes "relayable j" and "unat m + 2 < 2 ^ 32" and "unat m + 2 \<le> length as"
  shows "\<exists>eff. relay_job_result L m j as = Some
      (let n = length (takeWhile (\<lambda>a. \<not> succeeds a) as) in
       (case attempt_res (as ! min n (unat m + 1)) of
          RelOk h \<Rightarrow> \<lparr>ro_result = None, ro_writes = [WJobTable (relayed_job j h)], ro_relayed = [jb_nonce j],
                      ro_panic = False\<rparr>
        | _ \<Rightarrow> \<lparr>ro_result = Some RelayErr, ro_writes = [WFailureJobs j], ro_relayed = [], ro_panic = False\<rparr>,
        eff))
    \<and> rl_calls eff = replicate (min (length (takeWhile (\<lambda>a. \<not> succeeds a) as)) (unat m + 1) + 1) (relay_call L j)
    \<and> rl_sleeps eff = map (\<lambda>k. of_nat (min (500 * k) 30000))
        [1..<min (length (takeWhile (\<lambda>a. \<not> succeeds a) as)) (unat m + 1) + 1]"
proof -
  let ?n = "min (length (takeWhile (\<lambda>a. \<not> succeeds a) as)) (unat m + 1)"
  have n: "?n = failed_attempts (unat m + 2 - unat (1 :: u32)) as" by (simp add: failed_attempts_def)
  obtain eff where l: "relay_loop L m 1 j as = Some (LoopDone (attempt_res (as ! ?n)), eff)"
    and c: "rl_calls eff = replicate (Suc ?n) (relay_call L j)"
    and sl: "rl_sleeps eff = map (\<lambda>k. retry_backoff (of_nat k)) [1..<1 + ?n]"
    using relay_loop_exact [OF assms(1,2) _ _ _ n] assms(3) by auto
  have "retry_backoff (of_nat k) = of_nat (min (500 * k) 30000)" if "k \<in> set [1..<1 + ?n]" for k
    using that assms(2) by (intro retry_backoff_of_nat) auto
  then have "rl_sleeps eff = map (\<lambda>k. of_nat (min (500 * k) 30000)) [1..<1 + ?n]"
    unfolding sl by (intro map_cong [OF refl])
  then show ?thesis using l c
    by (intro exI [of _ eff]) (auto simp: relay_job_result_def Let_def attempt_res_def split: chain_outcome.splits)
qed

text \<open>
  C26. The relay loop ends after at most \<open>max + 2\<close> attempts, the first of which that succeeds is the
  last; between attempts it sleeps 500 ms more each time, up to 30 s. Every attempt sends the same
  transaction. A success is reported to the execution actor and recorded as relayed with its hash; a
  failure puts the job on the dead letter queue and is not reported.
\<close>

theorem relay_job_result_exact:
  assumes "relayable j" and "unat m + 2 < 2 ^ 32" and "unat m + 2 \<le> length as"
  shows "\<exists>eff. relay_job_result L m j as = Some
      (let n = length (takeWhile (\<lambda>a. \<not> succeeds a) as) in
       (case attempt_res (as ! min n (unat m + 1)) of
          RelOk h \<Rightarrow> \<lparr>ro_result = None, ro_writes = [WJobTable (relayed_job j h)], ro_relayed = [jb_nonce j],
                      ro_panic = False\<rparr>
        | _ \<Rightarrow> \<lparr>ro_result = Some RelayErr, ro_writes = [WFailureJobs j], ro_relayed = [], ro_panic = False\<rparr>,
        eff))
    \<and> rl_calls eff = replicate (min (length (takeWhile (\<lambda>a. \<not> succeeds a) as)) (unat m + 1) + 1) (relay_call L j)
    \<and> rl_sleeps eff = map (\<lambda>k. of_nat (min (500 * k) 30000))
        [1..<min (length (takeWhile (\<lambda>a. \<not> succeeds a) as)) (unat m + 1) + 1]"
  using assms by (rule relay_job_result_cases)

text \<open>A job whose first attempt is not included and whose second is, with one retry configured.\<close>

theorem relay_job_result_exact_witness:
  "map_option (\<lambda>(out, eff). (ro_relayed out, rl_sleeps eff))
     (relay_job_result sample_libs 1 (sample_job 5 Ordered JDone)
       [\<lparr>at_outcome = InclusionFails, at_nonce_polls = []\<rparr>, \<lparr>at_outcome = Included 77, at_nonce_polls = []\<rparr>,
        \<lparr>at_outcome = BroadcastFails, at_nonce_polls = []\<rparr>]) = Some ([5], [500])"
proof -
  let ?j = "sample_job 5 Ordered JDone"
  let ?as = "[\<lparr>at_outcome = InclusionFails, at_nonce_polls = []\<rparr>, \<lparr>at_outcome = Included 77, at_nonce_polls = []\<rparr>,
        \<lparr>at_outcome = BroadcastFails, at_nonce_polls = []\<rparr>]"
  have "relayable ?j" by (simp add: relayable_def sample_job_def)
  moreover have "unat (1 :: u32) + 2 < 2 ^ 32" "unat (1 :: u32) + 2 \<le> length ?as" by simp_all
  ultimately show ?thesis using relay_job_result_exact [of ?j 1 ?as sample_libs]
    by (auto simp: Let_def attempt_res_def succeeds_def sample_job_def)
qed

lemma relay_loop_unbounded:
  assumes "relayable j" and "\<forall>a \<in> set as. \<not> succeeds a"
  shows "relay_loop L 4294967294 i j as = None"
  using assms(2)
proof (induction as arbitrary: i)
  case Nil
  then show ?case by simp
next
  case (Cons a as)
  obtain eff where once: "relay_once L j a = Some (attempt_res a, eff)"
    using relay_once_relayable [OF assms(1)] by blast
  obtain e where "attempt_res a = RelErr e" using Cons.prems by (auto simp: not_succeeds)
  moreover have "\<not> (4294967294 + 1 :: u32) < i"
  proof -
    have "(4294967294 + 1 :: u32) = - 1" by simp
    then show ?thesis using word_n1_ge [of i] by (metis not_less)
  qed
  ultimately show ?case using once Cons by simp
qed

text \<open>
  The bound of the loop is computed in 32 bits. With the largest configurable number of retries
  it wraps to zero and a job is tried only once; with one less it is never exceeded, and for a chain
  that keeps failing the loop does not end after any number of attempts.
\<close>

theorem relay_retry_limit_wraps:
  assumes "relayable j" and "\<forall>a \<in> set as. \<not> succeeds a" and "as \<noteq> []"
  shows "relay_job_result L 4294967294 j as = None
    \<and> map_option fst (relay_job_result L 4294967295 j as) =
      Some \<lparr>ro_result = Some RelayErr, ro_writes = [WFailureJobs j], ro_relayed = [], ro_panic = False\<rparr>"
proof -
  have "relay_job_result L 4294967294 j as = None"
    unfolding relay_job_result_def relay_loop_unbounded [OF assms(1,2)] by simp
  moreover obtain a as' where as: "as = a # as'" using assms(3) by (cases as) auto
  then obtain e where "attempt_res a = RelErr e" using assms(2) by (auto simp: not_succeeds)
  moreover obtain eff where "relay_once L j a = Some (attempt_res a, eff)"
    using relay_once_relayable [OF assms(1)] by blast
  ultimately show ?thesis by (simp add: relay_job_result_def as)
qed

theorem relay_retry_limit_wraps_witness:
  "relay_job_result sample_libs 4294967294 (sample_job 5 Ordered JDone)
     (replicate 100 \<lparr>at_outcome = BroadcastFails, at_nonce_polls = []\<rparr>) = None
   \<and> map_option fst (relay_job_result sample_libs 4294967295 (sample_job 5 Ordered JDone)
     (replicate 100 \<lparr>at_outcome = BroadcastFails, at_nonce_polls = []\<rparr>)) =
     Some \<lparr>ro_result = Some RelayErr, ro_writes = [WFailureJobs (sample_job 5 Ordered JDone)],
       ro_relayed = [], ro_panic = False\<rparr>"
proof -
  let ?as = "replicate 100 \<lparr>at_outcome = BroadcastFails, at_nonce_polls = []\<rparr>"
  have a: "relayable (sample_job 5 Ordered JDone)" "\<forall>a \<in> set ?as. \<not> succeeds a" "?as \<noteq> []"
    by (auto simp: relayable_def sample_job_def succeeds_def attempt_res_def)
  show ?thesis by (rule relay_retry_limit_wraps [OF a])
qed

end
