(* ===== verification/DeadLetters.thy ===== *)
theory DeadLetters
  imports Relayer "HOL-Library.Sublist"
begin

text \<open>
  The dead letter queue over time, and what happens to the order of results between the execution
  actor, the relay actor and the queue: lemmas and properties about the operations of the theories
  \<open>ExecActor\<close> and \<open>Relayer\<close> working together.
\<close>

section \<open>One pass over the queue\<close>

text \<open>The entry of a job after a pass, and its record in the job table.\<close>

definition dlq_after :: "u32 \<Rightarrow> attempt \<Rightarrow> job \<Rightarrow> job option" where
  "dlq_after m a j = (if succeeds a \<or> js_retries (jb_status j) = m then None
     else Some (j\<lparr>jb_status := (jb_status j)\<lparr>js_retries := js_retries (jb_status j) + 1\<rparr>\<rparr>))"

definition retried_job :: "job \<Rightarrow> b256 \<Rightarrow> job" where
  "retried_job j h = j\<lparr>jb_relay_tx_hash := be_bytes 32 h,
     jb_status := (jb_status j)\<lparr>js_status := job_status_code JRelayed, js_failure_reason := None\<rparr>\<rparr>"

definition retry_writes :: "u32 \<Rightarrow> (job \<Rightarrow> attempt) \<Rightarrow> job \<Rightarrow> db_write list" where
  "retry_writes m ans j = (case attempt_res (ans j) of
     RelOk h \<Rightarrow> [WJobTable (retried_job j h)]
   | _ \<Rightarrow> (case dlq_after m (ans j) j of None \<Rightarrow> [] | Some j' \<Rightarrow> [WFailureJobs j']))"

lemma jb_id_dlq_after: "dlq_after m a j = Some j' \<Longrightarrow> jb_id j' = jb_id j"
  by (auto simp: dlq_after_def split: if_splits)

lemma jb_id_retried_job [simp]: "jb_id (retried_job j h) = jb_id j"
  by (simp add: retried_job_def)

lemma retry_job_relayable:
  assumes "relayable j"
  shows "\<exists>errs. retry_job L m j (ans j) = Some \<lparr>rr_writes = retry_writes m ans j,
    rr_deletes = (if dlq_after m (ans j) j = None then [jb_id j] else []), rr_relay_errs = errs\<rparr>"
proof -
  obtain eff where once: "relay_once L j (ans j) = Some (attempt_res (ans j), eff)"
    using relay_once_relayable [OF assms] by blast
  then show ?thesis
    by (cases "attempt_res (ans j)")
      (auto simp: retry_job_def retry_writes_def dlq_after_def succeeds_def retried_job_def)
qed

lemma retry_jobs_relayable:
  assumes "\<forall>j \<in> set js. relayable j"
  shows "\<exists>errs. retry_jobs L m (map (\<lambda>j. (j, ans j)) js) =
    Some \<lparr>rr_writes = concat (map (retry_writes m ans) js),
      rr_deletes = map jb_id (filter (\<lambda>j. dlq_after m (ans j) j = None) js), rr_relay_errs = errs\<rparr>"
  using assms
proof (induction js)
  case Nil
  then show ?case by simp
next
  case (Cons j js)
  then obtain errs where "retry_jobs L m (map (\<lambda>j. (j, ans j)) js) =
    Some \<lparr>rr_writes = concat (map (retry_writes m ans) js),
      rr_deletes = map jb_id (filter (\<lambda>j. dlq_after m (ans j) j = None) js), rr_relay_errs = errs\<rparr>" by auto
  moreover from Cons.prems have "relayable j" by simp
  ultimately show ?case using retry_job_relayable [of j L m ans] by fastforce
qed

lemma db_ok_fold_write: "db_ok d \<Longrightarrow> db_ok (fold (apply_write sha256) ws d)"
  by (induction ws arbitrary: d) (simp_all add: db_ok_apply_write)

lemma db_okD: "db_ok d \<Longrightarrow> bt_ok (db_relay_failures d)"
  "db_ok d \<Longrightarrow> bt_get (db_relay_failures d) i = Some j \<Longrightarrow> jb_id j = i"
  by (auto simp: db_ok_def)

lemma fold_retry_writes:
  assumes "distinct (map jb_id js)"
  shows "bt_get (db_relay_failures (fold (apply_write sha256) (concat (map (retry_writes m ans) js)) d)) i =
      (case map_of (map (\<lambda>j. (jb_id j, j)) js) i of
         None \<Rightarrow> bt_get (db_relay_failures d) i
       | Some j \<Rightarrow> (case dlq_after m (ans j) j of None \<Rightarrow> bt_get (db_relay_failures d) i | Some j' \<Rightarrow> Some j'))"
    and "get_job (fold (apply_write sha256) (concat (map (retry_writes m ans) js)) d) i =
      (case map_of (map (\<lambda>j. (jb_id j, j)) js) i of
         None \<Rightarrow> get_job d i
       | Some j \<Rightarrow> (case attempt_res (ans j) of RelOk h \<Rightarrow> Some (retried_job j h) | _ \<Rightarrow> get_job d i))"
proof -
  have key: "map_of (map (\<lambda>j. (jb_id j, j)) js) k = None" if "k \<notin> jb_id ` set js" for js :: "job list" and k
    using that by (auto simp: map_of_eq_None_iff)
  have fail: "bt_get (db_relay_failures (fold (apply_write sha256) (retry_writes m ans j) d)) i =
      (if i = jb_id j then (case dlq_after m (ans j) j of None \<Rightarrow> bt_get (db_relay_failures d) i | Some j' \<Rightarrow> Some j')
       else bt_get (db_relay_failures d) i)" for j d i
  proof (cases "attempt_res (ans j)")
    case (RelOk h)
    then have "dlq_after m (ans j) j = None" by (simp add: dlq_after_def succeeds_def)
    then show ?thesis by (simp add: retry_writes_def RelOk)
  next
    case (RelErr e)
    then show ?thesis
      by (cases "dlq_after m (ans j) j") (simp_all add: retry_writes_def jb_id_dlq_after)
  qed simp
  have jobs: "get_job (fold (apply_write sha256) (retry_writes m ans j) d) i =
      (if i = jb_id j then (case attempt_res (ans j) of RelOk h \<Rightarrow> Some (retried_job j h) | _ \<Rightarrow> get_job d i)
       else get_job d i)" for j d i
    by (cases "attempt_res (ans j)"; cases "dlq_after m (ans j) j")
      (simp_all add: retry_writes_def get_job_def)
  show "bt_get (db_relay_failures (fold (apply_write sha256) (concat (map (retry_writes m ans) js)) d)) i =
      (case map_of (map (\<lambda>j. (jb_id j, j)) js) i of
         None \<Rightarrow> bt_get (db_relay_failures d) i
       | Some j \<Rightarrow> (case dlq_after m (ans j) j of None \<Rightarrow> bt_get (db_relay_failures d) i | Some j' \<Rightarrow> Some j'))"
    using assms
  proof (induction js arbitrary: d)
    case (Cons j js)
    note IH = Cons.IH [of "fold (apply_write sha256) (retry_writes m ans j) d"]
    show ?case
    proof (cases "i = jb_id j")
      case True
      then have "map_of (map (\<lambda>j. (jb_id j, j)) js) i = None" using key Cons.prems by simp
      then show ?thesis using IH Cons.prems True by (simp add: fail split: option.splits)
    next
      case False
      then show ?thesis using IH Cons.prems by (simp add: fail split: option.splits)
    qed
  qed simp
  show "get_job (fold (apply_write sha256) (concat (map (retry_writes m ans) js)) d) i =
      (case map_of (map (\<lambda>j. (jb_id j, j)) js) i of
         None \<Rightarrow> get_job d i
       | Some j \<Rightarrow> (case attempt_res (ans j) of RelOk h \<Rightarrow> Some (retried_job j h) | _ \<Rightarrow> get_job d i))"
    using assms
  proof (induction js arbitrary: d)
    case (Cons j js)
    note IH = Cons.IH [of "fold (apply_write sha256) (retry_writes m ans j) d"]
    show ?case
    proof (cases "i = jb_id j")
      case True
      then have "map_of (map (\<lambda>j. (jb_id j, j)) js) i = None" using key Cons.prems by simp
      then show ?thesis using IH Cons.prems True by (simp add: jobs split: relay_res.splits)
    next
      case False
      then show ?thesis using IH Cons.prems by (simp add: jobs split: option.splits relay_res.splits)
    qed
  qed simp
qed

lemma fold_deletes:
  assumes "db_ok d"
  shows "bt_get (db_relay_failures (fold (apply_write sha256) (map WFailureJobsDelete is) d)) i =
      (if i \<in> set is then None else bt_get (db_relay_failures d) i)"
    and "get_job (fold (apply_write sha256) (map WFailureJobsDelete is) d) i = get_job d i"
proof -
  show "bt_get (db_relay_failures (fold (apply_write sha256) (map WFailureJobsDelete is) d)) i =
      (if i \<in> set is then None else bt_get (db_relay_failures d) i)"
    using assms
  proof (induction "is" arbitrary: d)
    case (Cons x xs)
    have "db_ok (apply_write sha256 (WFailureJobsDelete x) d)" using Cons.prems by (rule db_ok_apply_write)
    from Cons.IH [OF this] Cons.prems show ?case by (simp add: db_okD)
  qed simp
  show "get_job (fold (apply_write sha256) (map WFailureJobsDelete is) d) i = get_job d i"
    by (induction "is" arbitrary: d) (simp_all add: get_job_def)
qed

lemma failed_jobs_by_id:
  assumes "db_ok d"
  shows "distinct (map jb_id (get_all_failed_jobs d))"
    and "map_of (map (\<lambda>j. (jb_id j, j)) (get_all_failed_jobs d)) = bt_get (db_relay_failures d)"
proof -
  have "jb_id (snd p) = fst p" if "p \<in> set (db_relay_failures d)" for p
    using db_okD(2) [OF assms, of "fst p" "snd p"] that bt_ok_distinct [OF db_okD(1) [OF assms]]
    by (cases p) (auto intro: map_of_is_SomeI)
  then have "map (\<lambda>j. (jb_id j, j)) (get_all_failed_jobs d) = db_relay_failures d"
    by (auto simp: get_all_failed_jobs_def comp_def intro!: map_idI)
  moreover from this have "map jb_id (get_all_failed_jobs d) = map fst (db_relay_failures d)"
    by (metis (no_types, lifting) comp_apply fst_conv map_eq_conv map_map)
  ultimately show "distinct (map jb_id (get_all_failed_jobs d))"
    and "map_of (map (\<lambda>j. (jb_id j, j)) (get_all_failed_jobs d)) = bt_get (db_relay_failures d)"
    using bt_ok_distinct [OF db_okD(1) [OF assms]] by simp_all
qed

text \<open>All jobs of the queue can be relayed (their addresses were checked when they were submitted).\<close>

definition dlq_relayable :: "db \<Rightarrow> bool" where
  "dlq_relayable d \<longleftrightarrow> (\<forall>i j. bt_get (db_relay_failures d) i = Some j \<longrightarrow> relayable j)"

lemma set_failed_jobs:
  assumes "db_ok d"
  shows "set (get_all_failed_jobs d) = ran (bt_get (db_relay_failures d))"
  using bt_ok_distinct [OF db_okD(1) [OF assms]]
  by (simp add: get_all_failed_jobs_def ran_distinct)

text \<open>
  A pass over the dead letter queue treats every job by the chain's answer for it: an included
  job leaves the queue and is recorded as relayed under its hash; a failed one stays with one more
  retry counted, or leaves the queue without a record when its retries are used up. No other job,
  and no other record, is touched.
\<close>

theorem retry_pass_exact:
  assumes ok: "db_ok d" and r: "dlq_relayable d"
  shows "\<exists>d'. retry_pass L m ans d = Some d' \<and> db_ok d'
    \<and> (\<forall>i. bt_get (db_relay_failures d') i =
         Option.bind (bt_get (db_relay_failures d) i) (\<lambda>j. dlq_after m (ans j) j))
    \<and> (\<forall>i. get_job d' i = (case bt_get (db_relay_failures d) i of
         Some j \<Rightarrow> (case attempt_res (ans j) of RelOk h \<Rightarrow> Some (retried_job j h) | _ \<Rightarrow> get_job d i)
       | None \<Rightarrow> get_job d i))"
proof -
  let ?js = "get_all_failed_jobs d" and ?sha = "lib_sha256 L"
  let ?ws = "concat (map (retry_writes m ans) ?js)"
  let ?dels = "map jb_id (filter (\<lambda>j. dlq_after m (ans j) j = None) ?js)"
  have "\<forall>j \<in> set ?js. relayable j" using r by (auto simp: set_failed_jobs [OF ok] dlq_relayable_def ran_def)
  from retry_jobs_relayable [OF this, of L m ans]
  have p: "retry_pass L m ans d = Some (fold (apply_write ?sha) (map WFailureJobsDelete ?dels)
      (fold (apply_write ?sha) ?ws d))"
    by (auto simp: retry_pass_def)
  let ?d1 = "fold (apply_write ?sha) ?ws d"
  let ?d' = "fold (apply_write ?sha) (map WFailureJobsDelete ?dels) ?d1"
  have ok1: "db_ok ?d1" by (rule db_ok_fold_write [OF ok])
  note f = fold_retry_writes [OF failed_jobs_by_id(1) [OF ok], of ?sha m ans d,
      unfolded failed_jobs_by_id(2) [OF ok]]
  have dels: "i \<in> set ?dels \<longleftrightarrow> (\<exists>j. bt_get (db_relay_failures d) i = Some j \<and> dlq_after m (ans j) j = None)" for i
    using db_okD(2) [OF ok] by (auto simp: set_failed_jobs [OF ok] ran_def image_iff)
  have "bt_get (db_relay_failures ?d') i = Option.bind (bt_get (db_relay_failures d) i) (\<lambda>j. dlq_after m (ans j) j)" for i
    unfolding fold_deletes(1) [OF ok1] dels f by (auto split: option.splits)
  moreover have "get_job ?d' i = (case bt_get (db_relay_failures d) i of
         Some j \<Rightarrow> (case attempt_res (ans j) of RelOk h \<Rightarrow> Some (retried_job j h) | _ \<Rightarrow> get_job d i)
       | None \<Rightarrow> get_job d i)" for i
    unfolding fold_deletes(2) [OF ok1] f by (auto split: option.splits)
  ultimately show ?thesis using p db_ok_fold_write [OF ok1] by blast
qed

section \<open>Passes one after the other\<close>

fun retry_passes :: "'p exec_libs \<Rightarrow> u32 \<Rightarrow> (job \<Rightarrow> attempt) list \<Rightarrow> db \<Rightarrow> db option" where
  "retry_passes L m [] d = Some d"
| "retry_passes L m (ans # anss) d = Option.bind (retry_pass L m ans d) (retry_passes L m anss)"

lemma relayable_dlq_after: "dlq_after m a j = Some j' \<Longrightarrow> relayable j \<Longrightarrow> relayable j'"
  by (auto simp: dlq_after_def relayable_def split: if_splits)

lemma retry_pass_obtain:
  assumes "db_ok d" and "dlq_relayable d"
  obtains d' where "retry_pass L m ans d = Some d'" and "db_ok d'" and "dlq_relayable d'"
    and "\<And>i. bt_get (db_relay_failures d') i =
      Option.bind (bt_get (db_relay_failures d) i) (\<lambda>j. dlq_after m (ans j) j)"
proof -
  obtain d' where d': "retry_pass L m ans d = Some d'" "db_ok d'"
    and g: "\<And>i. bt_get (db_relay_failures d') i =
      Option.bind (bt_get (db_relay_failures d) i) (\<lambda>j. dlq_after m (ans j) j)"
    using retry_pass_exact [OF assms] by blast
  have "dlq_relayable d'"
    using assms(2) relayable_dlq_after unfolding dlq_relayable_def g by (auto simp: bind_eq_Some_conv)
  from d' this g show ?thesis by (rule that)
qed

text \<open>
  After \<open>n\<close> passes every remaining job is one that was there before, with \<open>n\<close> more retries counted,
  and none of the counts on the way was the limit.
\<close>

lemma retry_passes_counts:
  assumes "db_ok d" and "dlq_relayable d"
  shows "\<exists>d'. retry_passes L m anss d = Some d' \<and> db_ok d' \<and> dlq_relayable d'
    \<and> (\<forall>i j'. bt_get (db_relay_failures d') i = Some j' \<longrightarrow>
         (\<exists>j. bt_get (db_relay_failures d) i = Some j
            \<and> js_retries (jb_status j') = js_retries (jb_status j) + of_nat (length anss)
            \<and> (\<forall>k < length anss. js_retries (jb_status j) + of_nat k \<noteq> m)))"
  using assms
proof (induction anss arbitrary: d)
  case Nil
  then show ?case by simp
next
  case (Cons ans anss)
  obtain d1 where d1: "retry_pass L m ans d = Some d1" "db_ok d1" "dlq_relayable d1"
    and g: "\<And>i. bt_get (db_relay_failures d1) i =
      Option.bind (bt_get (db_relay_failures d) i) (\<lambda>j. dlq_after m (ans j) j)"
    using retry_pass_obtain [OF Cons.prems, of L m ans] by blast
  from Cons.IH [OF d1(2,3)] obtain d' where d': "retry_passes L m anss d1 = Some d'" "db_ok d'" "dlq_relayable d'"
    and c: "\<And>i j'. bt_get (db_relay_failures d') i = Some j' \<Longrightarrow>
         \<exists>j. bt_get (db_relay_failures d1) i = Some j
            \<and> js_retries (jb_status j') = js_retries (jb_status j) + of_nat (length anss)
            \<and> (\<forall>k < length anss. js_retries (jb_status j) + of_nat k \<noteq> m)" by blast
  have "\<exists>j. bt_get (db_relay_failures d) i = Some j
      \<and> js_retries (jb_status j') = js_retries (jb_status j) + of_nat (length (ans # anss))
      \<and> (\<forall>k < length (ans # anss). js_retries (jb_status j) + of_nat k \<noteq> m)"
    if j': "bt_get (db_relay_failures d') i = Some j'" for i j'
  proof -
    from c [OF j'] obtain j1 where j1: "bt_get (db_relay_failures d1) i = Some j1"
      "js_retries (jb_status j') = js_retries (jb_status j1) + of_nat (length anss)"
      "\<forall>k < length anss. js_retries (jb_status j1) + of_nat k \<noteq> m" by blast
    from j1(1) g obtain j where j: "bt_get (db_relay_failures d) i = Some j" "dlq_after m (ans j) j = Some j1"
      by (auto simp: bind_eq_Some_conv)
    then have s: "js_retries (jb_status j1) = js_retries (jb_status j) + 1" "js_retries (jb_status j) \<noteq> m"
      by (auto simp: dlq_after_def split: if_splits)
    have "js_retries (jb_status j) + of_nat k \<noteq> m" if "k < length (ans # anss)" for k
      using that s j1(3) by (cases k) (auto simp: algebra_simps)
    with j s j1(2) show ?thesis by (auto simp: algebra_simps)
  qed
  with d1 d' show ?case by auto
qed

text \<open>
  C31. The dead letter queue empties: when every job in it has at most the configured number of
  retries counted, \<open>max + 1\<close> passes leave no job in it, whatever the chain answers.
\<close>

theorem dlq_drains:
  assumes "db_ok d" and "dlq_relayable d"
    and "\<And>i j. bt_get (db_relay_failures d) i = Some j \<Longrightarrow> js_retries (jb_status j) \<le> m"
    and "unat m < length anss"
  shows "\<exists>d'. retry_passes L m anss d = Some d' \<and> get_all_failed_jobs d' = []"
proof -
  obtain d' where d': "retry_passes L m anss d = Some d'" "db_ok d'"
    and c: "\<And>i j'. bt_get (db_relay_failures d') i = Some j' \<Longrightarrow>
         \<exists>j. bt_get (db_relay_failures d) i = Some j
            \<and> (\<forall>k < length anss. js_retries (jb_status j) + of_nat k \<noteq> m)"
    using retry_passes_counts [OF assms(1,2), of L m anss] by blast
  have "bt_get (db_relay_failures d') i = None" for i
  proof (rule ccontr)
    assume "bt_get (db_relay_failures d') i \<noteq> None"
    with c obtain j where j: "bt_get (db_relay_failures d) i = Some j"
      "\<forall>k < length anss. js_retries (jb_status j) + of_nat k \<noteq> m" by blast
    let ?r = "js_retries (jb_status j)"
    have "?r \<le> m" by (rule assms(3) [OF j(1)])
    then have "?r + of_nat (unat m - unat ?r) = m" by (simp add: word_unat_eq_iff word_le_nat_alt unat_word_ariths unat_of_nat)
    moreover have "unat m - unat ?r < length anss" using assms(4) by simp
    ultimately show False using j(2) by blast
  qed
  then have "set (get_all_failed_jobs d') = {}" by (simp add: set_failed_jobs [OF d'(2)] ran_def)
  with d' show ?thesis by simp
qed

text \<open>
  The count is compared with the limit for equality. A job whose count is above the limit, as it is
  when the node is restarted with a smaller one, is retried until the 32-bit count comes round.
\<close>

text \<open>
  A failing job whose retry count is already above the limit is never given up: it is still in
  the queue after any number of passes that does not overflow the count.
\<close>

theorem dlq_keeps_job_over_limit:
  assumes "db_ok d" and "dlq_relayable d" and "bt_get (db_relay_failures d) i = Some j"
    and "m < js_retries (jb_status j)" and "\<forall>ans \<in> set anss. \<forall>j. \<not> succeeds (ans j)"
    and "unat (js_retries (jb_status j)) + length anss < 2 ^ 32"
  shows "\<exists>d' j'. retry_passes L m anss d = Some d' \<and> bt_get (db_relay_failures d') i = Some j'
    \<and> js_retries (jb_status j') = js_retries (jb_status j) + of_nat (length anss)"
  using assms
proof (induction anss arbitrary: d j)
  case Nil
  then show ?case by simp
next
  case (Cons ans anss)
  obtain d1 where d1: "retry_pass L m ans d = Some d1" "db_ok d1" "dlq_relayable d1"
    and g: "\<And>i. bt_get (db_relay_failures d1) i =
      Option.bind (bt_get (db_relay_failures d) i) (\<lambda>j. dlq_after m (ans j) j)"
    using retry_pass_obtain [OF Cons.prems(1,2), of L m ans] by blast
  let ?r = "js_retries (jb_status j)"
  let ?j1 = "j\<lparr>jb_status := (jb_status j)\<lparr>js_retries := ?r + 1\<rparr>\<rparr>"
  have "unat (?r + 1) = unat ?r + 1" using Cons.prems(6) by (simp add: unat_word_ariths)
  then have r: "m < js_retries (jb_status ?j1)"
    "unat (js_retries (jb_status ?j1)) + length anss < 2 ^ 32"
    using Cons.prems(4,6) by (simp_all add: word_less_nat_alt)
  have "?r \<noteq> m" using Cons.prems(4) by auto
  then have "bt_get (db_relay_failures d1) i = Some ?j1"
    using Cons.prems(3,5) by (simp add: g dlq_after_def)
  from Cons.IH [OF d1(2,3) this r(1) _ r(2)] Cons.prems(5) d1(1) show ?case
    by (auto simp: algebra_simps)
qed

text \<open>A queue with one job, for the concrete runs.\<close>

definition sample_failed :: "u32 \<Rightarrow> job" where
  "sample_failed r = (sample_job 5 Ordered JDone)\<lparr>jb_status := \<lparr>js_status = job_status_code JDone,
     js_failure_reason = None, js_retries = r\<rparr>\<rparr>"

definition sample_dlq :: "u32 \<Rightarrow> db" where
  "sample_dlq r = apply_write (lib_sha256 sample_libs) (WFailureJobs (sample_failed r)) empty_db"

definition failing :: "job \<Rightarrow> attempt" where
  "failing j = \<lparr>at_outcome = BroadcastFails, at_nonce_polls = []\<rparr>"

lemma sample_dlq [simp]:
  "bt_get (db_relay_failures (sample_dlq r)) i = (if i = 5 then Some (sample_failed r) else None)"
  "db_ok (sample_dlq r)" "dlq_relayable (sample_dlq r)"
  by (auto simp: sample_dlq_def empty_db_def sample_failed_def sample_job_def db_ok_def dlq_relayable_def
      relayable_def split: if_splits)

lemma not_succeeds_failing [simp]: "\<not> succeeds (failing j)"
  by (simp add: succeeds_def failing_def attempt_res_def)

theorem retry_pass_exact_witness:
  "\<exists>d'. retry_pass sample_libs 2 failing (sample_dlq 0) = Some d'
     \<and> bt_get (db_relay_failures d') 5 = Some (sample_failed 1)"
proof -
  have "dlq_after 2 (failing j) (sample_failed 0) = Some (sample_failed 1)" for j
    by (simp add: dlq_after_def) (simp add: sample_failed_def)
  then show ?thesis
    using retry_pass_exact [of "sample_dlq 0" sample_libs 2 failing] by fastforce
qed

theorem dlq_drains_witness:
  "\<exists>d'. retry_passes sample_libs 2 [failing, failing, failing] (sample_dlq 1) = Some d' \<and> get_all_failed_jobs d' = []"
  by (rule dlq_drains) (auto simp: sample_failed_def split: if_splits)

theorem dlq_keeps_job_over_limit_witness:
  "\<exists>d' j'. retry_passes sample_libs 2 (replicate 1000 failing) (sample_dlq 3) = Some d'
     \<and> bt_get (db_relay_failures d') 5 = Some j' \<and> js_retries (jb_status j') = 1003"
proof -
  have "js_retries (jb_status (sample_failed 3)) = 3" by (simp add: sample_failed_def)
  then show ?thesis
    using dlq_keeps_job_over_limit [of "sample_dlq 3" 5 "sample_failed 3" 2 "replicate 1000 failing" sample_libs]
    by auto
qed

section \<open>The order of results on chain\<close>

fun out_relay_msg :: "'r exec_out \<Rightarrow> relay_msg option" where
  "out_relay_msg (OutRelay m) = Some m"
| "out_relay_msg _ = None"

fun relay_msg_job :: "relay_msg \<Rightarrow> job option" where
  "relay_msg_job (Relay j) = Some j"
| "relay_msg_job RelayExit = None"

text \<open>The messages a run of the execution actor leaves in the relay actor's channel.\<close>

abbreviation relay_msgs :: "'r exec_out list \<Rightarrow> relay_msg list" where
  "relay_msgs os \<equiv> List.map_filter out_relay_msg os"

fun awaited_job :: "relay_action \<Rightarrow> job option" where
  "awaited_job (Awaited j r eff) = Some j"
| "awaited_job (Spawned j) = None"

fun spawned_job :: "relay_action \<Rightarrow> job option" where
  "spawned_job (Awaited j r eff) = None"
| "spawned_job (Spawned j) = Some j"

fun included_nonce :: "relay_action \<Rightarrow> u64 option" where
  "included_nonce (Awaited j r eff) = (case ro_relayed r of [] \<Rightarrow> None | n # _ \<Rightarrow> Some n)"
| "included_nonce (Spawned j) = None"

lemma map_filter_Cons:
  "List.map_filter f (x # xs) = (case f x of None \<Rightarrow> [] | Some y \<Rightarrow> [y]) @ List.map_filter f xs"
  by (simp add: List.map_filter_def split: option.splits)

lemma relayed_jobs_of_msgs: "List.map_filter relay_msg_job (relay_msgs os) = relayed_jobs os"
proof (induction os)
  case (Cons x os)
  then show ?case by (cases x rule: out_relayed.cases) (simp_all add: map_filter_Cons)
qed simp

lemma relay_job_result_relayed:
  "relay_job_result L m j as = Some (r, eff) \<Longrightarrow> ro_relayed r = [] \<or> ro_relayed r = [jb_nonce j]"
  by (auto simp: relay_job_result_def split: option.splits loop_exit.splits relay_res.splits)

lemma relay_actor_awaited:
  "prefix (List.map_filter awaited_job (relay_actor L m msgs ass))
     (filter is_ordered (List.map_filter relay_msg_job msgs))"
proof (induction L m msgs ass rule: relay_actor.induct)
  case (3 L m j msgs ass)
  show ?case
  proof (cases "jb_relay_strategy j")
    case Unordered
    with 3 show ?thesis by (simp add: map_filter_Cons is_ordered_def)
  next
    case Ordered
    then show ?thesis
      using 3 by (auto simp: map_filter_Cons is_ordered_def split: list.splits option.splits)
  qed
qed (simp_all add: map_filter_Cons)

lemma relay_actor_spawned:
  "prefix (List.map_filter spawned_job (relay_actor L m msgs ass))
     (filter (\<lambda>j. \<not> is_ordered j) (List.map_filter relay_msg_job msgs))"
proof (induction L m msgs ass rule: relay_actor.induct)
  case (3 L m j msgs ass)
  show ?case
  proof (cases "jb_relay_strategy j")
    case Unordered
    with 3 show ?thesis by (simp add: map_filter_Cons is_ordered_def)
  next
    case Ordered
    then show ?thesis
      using 3 by (auto simp: map_filter_Cons is_ordered_def split: list.splits option.splits)
  qed
qed (simp_all add: map_filter_Cons)

lemma relay_actor_included:
  "subseq (List.map_filter included_nonce (relay_actor L m msgs ass))
     (map jb_nonce (List.map_filter awaited_job (relay_actor L m msgs ass)))"
proof (induction L m msgs ass rule: relay_actor.induct)
  case (3 L m j msgs ass)
  show ?case
  proof (cases "jb_relay_strategy j")
    case Unordered
    with 3 show ?thesis by (simp add: map_filter_Cons)
  next
    case Ordered
    then show ?thesis
      using 3 relay_job_result_relayed [of L m j]
      by (fastforce simp: map_filter_Cons split: list.splits option.splits)
  qed
qed simp_all



text \<open>
  The order is one of turns, not of success: when all attempts for an ordered job fail, the job
  goes to the dead letter queue and the next ordered job is relayed; the failed one can only come on
  chain after it.
\<close>

theorem ordered_job_overtaken:
  assumes "relayable j" and "relayable j'" and "is_ordered j" and "is_ordered j'"
    and "unat m + 2 < 2 ^ 32" and "unat m + 2 \<le> length as" and "\<forall>a \<in> set as. \<not> succeeds a"
    and "attempt_res a = RelOk h"
  shows "\<exists>r eff r' eff'. relay_actor L m [Relay j, Relay j'] [as, [a]] = [Awaited j r eff, Awaited j' r' eff']
    \<and> ro_writes r = [WFailureJobs j] \<and> ro_writes r' = [WJobTable (relayed_job j' h)]"
proof -
  let ?n = "min (length (takeWhile (\<lambda>a. \<not> succeeds a) as)) (unat m + 1)"
  have "as ! ?n \<in> set as" using assms(6) by (intro nth_mem) auto
  then obtain e where e: "attempt_res (as ! ?n) = RelErr e" using assms(7) by (auto simp: not_succeeds)
  obtain eff where r: "relay_job_result L m j as = Some (\<lparr>ro_result = Some RelayErr,
      ro_writes = [WFailureJobs j], ro_relayed = [], ro_panic = False\<rparr>, eff)"
    using relay_job_result_cases [OF assms(1,5,6), of L] e by (auto simp: Let_def)
  obtain eff' where "relay_once L j' a = Some (RelOk h, eff')"
    using relay_once_relayable [OF assms(2)] assms(8) by metis
  then have r': "relay_job_result L m j' [a] = Some (\<lparr>ro_result = None,
      ro_writes = [WJobTable (relayed_job j' h)], ro_relayed = [jb_nonce j'], ro_panic = False\<rparr>, eff')"
    by (simp add: relay_job_result_def)
  show ?thesis using assms(3,4) r r' by (simp add: is_ordered_def)
qed

theorem ordered_job_overtaken_witness:
  "\<exists>r eff r' eff'. relay_actor sample_libs 1 [Relay (sample_job 5 Ordered JDone), Relay (sample_job 6 Ordered JDone)]
      [replicate 3 (failing undefined), [\<lparr>at_outcome = Included 77, at_nonce_polls = []\<rparr>]] =
      [Awaited (sample_job 5 Ordered JDone) r eff, Awaited (sample_job 6 Ordered JDone) r' eff']
    \<and> ro_writes r = [WFailureJobs (sample_job 5 Ordered JDone)]
    \<and> ro_writes r' = [WJobTable (relayed_job (sample_job 6 Ordered JDone) 77)]"
  by (rule ordered_job_overtaken) (auto simp: relayable_def sample_job_def is_ordered_def attempt_res_def)

end
