(* ===== verification/Intake.thy ===== *)
theory Intake
  imports DeadLetters
begin

text \<open>
  Submission of jobs and programs: the intake handlers (\<^verbatim>\<open>crates/coproc/src/intake.rs\<close>) and the
  gRPC handlers in front of them (\<^verbatim>\<open>crates/coproc/src/server.rs\<close>).

  The part of the node these handlers work on is a record: the tables, the writes that are on their
  way to the writer thread, the execution actors by consumer, the pool's queue and the channels of
  the relay actors. A handler runs as one step. A message to an execution actor is handled by it in
  that step; a write that is not waited for stays in the writer's channel, so a later read does not
  see it, and waiting for a write drains the channel up to it.
\<close>

section \<open>The node's state\<close>

record node =
  nd_db :: db
  nd_writer :: "db_write list"
  nd_actors :: "address \<rightharpoonup> exec_state"
  nd_pool :: "(address \<times> job) list"
  nd_relay :: "address \<Rightarrow> relay_msg list"

definition node_start :: "db \<Rightarrow> node" where
  "node_start d = \<lparr>nd_db = d, nd_writer = [], nd_actors = Map.empty, nd_pool = [], nd_relay = (\<lambda>_. [])\<rparr>"

definition send_write :: "db_write \<Rightarrow> node \<Rightarrow> node" where
  "send_write w n = n\<lparr>nd_writer := nd_writer n @ [w]\<rparr>"

definition await_write :: "(bytes \<Rightarrow> b256) \<Rightarrow> db_write \<Rightarrow> node \<Rightarrow> node" where
  "await_write sha256 w n =
     n\<lparr>nd_db := fold (apply_write sha256) (nd_writer n @ [w]) (nd_db n), nd_writer := []\<rparr>"

text \<open>What an execution actor sends: jobs to the pool, messages to its relay actor.\<close>

fun deliver :: "address \<Rightarrow> unit exec_out \<Rightarrow> node \<Rightarrow> node" where
  "deliver a (OutRelay m) n = n\<lparr>nd_relay := (nd_relay n)(a := nd_relay n a @ [m])\<rparr>"
| "deliver a (OutPool j) n = n\<lparr>nd_pool := nd_pool n @ [(a, j)]\<rparr>"
| "deliver a (OutPending r ps) n = n"
| "deliver a (OutNextNonce r k) n = n"

definition actor_event :: "address \<Rightarrow> unit exec_event \<Rightarrow> node \<Rightarrow> node" where
  "actor_event a e n =
     (case nd_actors n a of
        None \<Rightarrow> n
      | Some s \<Rightarrow> let (s', os) = exec_step s e in fold (deliver a) os (n\<lparr>nd_actors := (nd_actors n)(a \<mapsto> s')\<rparr>))"

section \<open>Intake\<close>

datatype intake_error =
    CreateElfFailed executor_error
  | ElfAlreadyExists bytes
  | InvalidVmType
  | OffchainInputOverMaxDAPerJob
  | MismatchProgramId bytes bytes
  | GetNonceFail
  | JobExistsAndFailedToRelay
  | JobRelayed
  | LowNonce

record intake_config =
  ic_max_da_per_job :: nat
  ic_unsafe_skip_program_id_check :: bool

definition write_pending_job :: "(bytes \<Rightarrow> b256) \<Rightarrow> job \<Rightarrow> node \<Rightarrow> job \<times> node" where
  "write_pending_job sha256 j n =
     (let j' = j\<lparr>jb_status := status_of JPending None\<rparr> in (j', await_write sha256 (WJobTable j') n))"

text \<open>
  Asking an actor for its pending nonces or sending to it panics when the actor has ended: its
  channel stays registered. A panic is \<open>None\<close>.
\<close>

definition get_pending_nonces :: "node \<Rightarrow> address \<Rightarrow> u64 list option" where
  "get_pending_nonces n a =
     (case nd_actors n a of
        None \<Rightarrow> Some []
      | Some s \<Rightarrow>
          if ex_exited s then None
          else Some (concat (map (\<lambda>out. case out of OutPending r ps \<Rightarrow> ps | _ \<Rightarrow> [])
            (snd (exec_step s (EvRecv (Some (MsgPending ()))))))))"

text \<open>
  The actor of the consumer, started if there is none; the contract's answer for the next nonce
  (\<open>None\<close> if the call fails) is the start nonce.
\<close>

definition get_or_spawn_actor :: "u64 option \<Rightarrow> address \<Rightarrow> node \<Rightarrow> intake_error + node" where
  "get_or_spawn_actor next_nonce_answer a n =
     (case nd_actors n a of
        Some _ \<Rightarrow> Inr n
      | None \<Rightarrow>
          (case next_nonce_answer of
             None \<Rightarrow> Inl GetNonceFail
           | Some next_nonce \<Rightarrow> Inr (n\<lparr>nd_actors := (nd_actors n)(a \<mapsto> exec_start next_nonce)\<rparr>)))"

text \<open>The last part of a submission: the nonce check of an ordered job, and the message to the actor.\<close>

definition send_to_actor :: "address \<Rightarrow> job \<Rightarrow> node \<Rightarrow> (intake_error + unit) option \<times> node" where
  "send_to_actor a j n =
     (case nd_actors n a of
        None \<Rightarrow> (None, n)
      | Some s \<Rightarrow>
          if ex_exited s then (None, n)
          else if is_ordered j \<and> jb_nonce j < ex_next_job_to_submit s
          then (Some (Inl LowNonce),
                send_write (WJobTable (j\<lparr>jb_status := status_of JFailed (Some ''low nonce'')\<rparr>)) n)
          else (Some (Inr ()), actor_event a (EvRecv (Some (MsgExec j))) n))"

text \<open>Whether the submission goes on with the stored record, with a new one, or ends.\<close>

datatype resubmission = Stop "(intake_error + unit) option" | KeepRecord | WriteRecord

definition check_old_job :: "node \<Rightarrow> address \<Rightarrow> job \<Rightarrow> resubmission" where
  "check_old_job n a j =
     (case get_job (nd_db n) (jb_id j) of
        None \<Rightarrow> WriteRecord
      | Some old_job \<Rightarrow>
          (let jobs_match = (old_job = j) in
           if is_failed old_job \<and> jobs_match then Stop (Some (Inl JobExistsAndFailedToRelay))
           else if is_relayed old_job then Stop (Some (Inl JobRelayed))
           else (case get_pending_nonces n a of
               None \<Rightarrow> Stop None
             | Some pending \<Rightarrow>
                 if jb_nonce j \<in> set pending then Stop (Some (Inr ()))
                 else if jobs_match then KeepRecord
                 else WriteRecord)))"

text \<open>
  \<open>submit_job\<close>; the caller has validated the length of the consumer address, and the handler
  panics on another.
\<close>

definition submit_job :: "'p exec_libs \<Rightarrow> intake_config \<Rightarrow> u64 option \<Rightarrow> job \<Rightarrow> node
    \<Rightarrow> (intake_error + unit) option \<times> node" where
  "submit_job L cfg next_nonce_answer j n =
     (if length (lib_compress L (jb_offchain_input j)) > ic_max_da_per_job cfg
      then (Some (Inl OffchainInputOverMaxDAPerJob), n)
      else case try_into_address (jb_consumer_address j) of
        None \<Rightarrow> (None, n)
      | Some a \<Rightarrow>
          (case check_old_job n a j of
             Stop r \<Rightarrow> (r, n)
           | c \<Rightarrow>
               (let (j', n') = (if c = WriteRecord then write_pending_job (lib_sha256 L) j n else (j, n)) in
                case get_or_spawn_actor next_nonce_answer a n' of
                  Inl e \<Rightarrow> (Some (Inl e), n')
                | Inr n'' \<Rightarrow> send_to_actor a j' n'')))"

text \<open>\<open>submit_elf\<close>: the ELF is sent to the writer before the program is derived from it.\<close>

definition submit_elf :: "'p exec_libs \<Rightarrow> intake_config \<Rightarrow> bytes \<Rightarrow> 32 word \<Rightarrow> bytes \<Rightarrow> node
    \<Rightarrow> (intake_error + bytes) \<times> node" where
  "submit_elf L cfg elf vm program_id n =
     (case vm_type_try_from vm of
        None \<Rightarrow> (Inl InvalidVmType, n)
      | Some v \<Rightarrow>
          if get_elf (lib_sha256 L) (nd_db n) program_id \<noteq> None then (Inl (ElfAlreadyExists program_id), n)
          else case (if ic_unsafe_skip_program_id_check cfg then Inr ()
                     else (case create_elf L elf v of
                         Inl e \<Rightarrow> Inl (CreateElfFailed e)
                       | Inr derived_program_id \<Rightarrow>
                           if program_id \<noteq> derived_program_id
                           then Inl (MismatchProgramId program_id derived_program_id) else Inr ())) of
            Inl e \<Rightarrow> (Inl e, n)
          | Inr _ \<Rightarrow>
              (let n1 = send_write (WElf v program_id elf) n in
               case create_program L elf v of
                 Inl e \<Rightarrow> (Inl (CreateElfFailed e), n1)
               | Inr program_bytes \<Rightarrow>
                   (Inr program_id, await_write (lib_sha256 L) (WProgram v program_id program_bytes) n1)))"

definition intake_get_job :: "node \<Rightarrow> b256 \<Rightarrow> job option" where
  "intake_get_job n job_id = get_job (nd_db n) job_id"

definition contains_elf :: "'p exec_libs \<Rightarrow> node \<Rightarrow> bytes \<Rightarrow> bool" where
  "contains_elf L n program_id \<longleftrightarrow> get_elf (lib_sha256 L) (nd_db n) program_id \<noteq> None"

section \<open>The gRPC server\<close>

datatype status = InvalidArgument string | Internal intake_error | NotFound string

record submit_job_request =
  sr_request :: bytes
  sr_signature :: bytes
  sr_offchain_input :: bytes
  sr_relay_strategy :: "32 word"

text \<open>The accessor of the generated request type: an unknown value is the default.\<close>

definition relay_strategy_of :: "32 word \<Rightarrow> relay_strategy" where
  "relay_strategy_of i = (if i = 1 then Ordered else Unordered)"

text \<open>
  The checks of the request, in their order, and the job built from it. The address decoded from the
  ABI has 20 bytes, so that check cannot fail. ABI decoding is a parameter.
\<close>

definition request_job :: "'p exec_libs \<Rightarrow> (bytes \<Rightarrow> offchain_job_request option) \<Rightarrow> submit_job_request
    \<Rightarrow> status + job" where
  "request_job L abi_decode req =
     (case abi_decode (sr_request req) of
        None \<Rightarrow> Inl (InvalidArgument ''invalid ABI-encoding of job request'')
      | Some r \<Rightarrow>
          if ojr_max_cycles r = 0 then Inl (InvalidArgument ''job max cycles must be positive'')
          else if sr_signature req = [] then Inl (InvalidArgument ''job request signature must not be empty'')
          else if length (be_bytes 20 (ojr_consumer r)) \<noteq> 20
            then Inl (InvalidArgument ''contract address must be 20 bytes in length'')
          else if ojr_program_id r = [] then Inl (InvalidArgument ''job program ID must not be empty'')
          else if ojr_offchain_input_hash r \<noteq> lib_keccak256 L (sr_offchain_input req)
            then Inl (InvalidArgument ''offchain input hash does not match'')
          else Inr \<lparr>jb_id = get_job_id (lib_keccak256 L) (ojr_nonce r) (ojr_consumer r),
            jb_nonce = ojr_nonce r, jb_max_cycles = ojr_max_cycles r,
            jb_consumer_address = be_bytes 20 (ojr_consumer r), jb_program_id = ojr_program_id r,
            jb_onchain_input = ojr_onchain_input r, jb_offchain_input = sr_offchain_input req,
            jb_request_type = Offchain (sr_signature req), jb_result_with_metadata = [],
            jb_zkvm_operator_signature = [], jb_status = status_of JPending None,
            jb_relay_tx_hash = [], jb_blobs_sidecar = None,
            jb_relay_strategy = relay_strategy_of (sr_relay_strategy req)\<rparr>)"

definition server_submit_job :: "'p exec_libs \<Rightarrow> (bytes \<Rightarrow> offchain_job_request option) \<Rightarrow> intake_config
    \<Rightarrow> u64 option \<Rightarrow> submit_job_request \<Rightarrow> node \<Rightarrow> (status + bytes) option \<times> node" where
  "server_submit_job L abi_decode cfg next_nonce_answer req n =
     (case request_job L abi_decode req of
        Inl e \<Rightarrow> (Some (Inl e), n)
      | Inr j \<Rightarrow>
          (case submit_job L cfg next_nonce_answer j n of (r, n') \<Rightarrow>
             (map_option (\<lambda>r. case r of Inl e \<Rightarrow> Inl (Internal e) | Inr _ \<Rightarrow> Inr (b256_key_encode (jb_id j))) r,
              n')))"

record job_result =
  jr_id :: bytes
  jr_nonce :: u64
  jr_program_id :: bytes
  jr_onchain_input :: bytes
  jr_offchain_input_hash :: bytes
  jr_consumer_address :: bytes
  jr_max_cycles :: u64
  jr_request_signature :: bytes
  jr_result_with_metadata :: bytes
  jr_zkvm_operator_signature :: bytes
  jr_status :: job_status
  jr_relay_tx_hash :: bytes

definition server_get_result :: "'p exec_libs \<Rightarrow> node \<Rightarrow> bytes \<Rightarrow> status + job_result" where
  "server_get_result L n job_id =
     (case b256_key_decode job_id of
        None \<Rightarrow> Inl (InvalidArgument ''job ID must be 32 bytes in length'')
      | Some i \<Rightarrow>
          (case intake_get_job n i of
             None \<Rightarrow> Inl (NotFound ''job not found'')
           | Some j \<Rightarrow>
               (let request_signature = (case jb_request_type j of Onchain \<Rightarrow> [] | Offchain signature \<Rightarrow> signature) in
                Inr \<lparr>jr_id = be_bytes 32 (jb_id j), jr_nonce = jb_nonce j, jr_program_id = jb_program_id j,
                  jr_onchain_input = jb_onchain_input j,
                  jr_offchain_input_hash = be_bytes 32 (lib_keccak256 L (jb_offchain_input j)),
                  jr_consumer_address = jb_consumer_address j, jr_max_cycles = jb_max_cycles j,
                  jr_request_signature = request_signature,
                  jr_result_with_metadata = jb_result_with_metadata j,
                  jr_zkvm_operator_signature = jb_zkvm_operator_signature j, jr_status = jb_status j,
                  jr_relay_tx_hash = jb_relay_tx_hash j\<rparr>)))"

definition server_submit_program :: "'p exec_libs \<Rightarrow> intake_config \<Rightarrow> bytes \<Rightarrow> 32 word \<Rightarrow> bytes \<Rightarrow> node
    \<Rightarrow> (status + bytes) \<times> node" where
  "server_submit_program L cfg program_elf vm program_id n =
     (if program_elf = [] then (Inl (InvalidArgument ''program elf must not be empty''), n)
      else (case submit_elf L cfg program_elf vm program_id n of
          (Inl e, n') \<Rightarrow> (Inl (Internal e), n') | (Inr i, n') \<Rightarrow> (Inr i, n')))"

definition server_get_pending_jobs :: "node \<Rightarrow> bytes \<Rightarrow> (status + u64 list) option" where
  "server_get_pending_jobs n consumer_address =
     (case try_into_address consumer_address of
        None \<Rightarrow> Some (Inl (InvalidArgument ''contract address must be 20 bytes in length''))
      | Some a \<Rightarrow> map_option Inr (get_pending_nonces n a))"

definition server_contains_program :: "'p exec_libs \<Rightarrow> node \<Rightarrow> bytes \<Rightarrow> bool" where
  "server_contains_program L n program_id = contains_elf L n program_id"

section \<open>Lemmas\<close>

lemma get_pending_nonces_eq:
  "get_pending_nonces n a = (case nd_actors n a of None \<Rightarrow> Some []
     | Some s \<Rightarrow> if ex_exited s then None else Some (sorted_list_of_set (ex_pending_jobs s)))"
  by (simp add: get_pending_nonces_def split: option.splits)

lemma set_pending_nonces:
  "get_pending_nonces n a = Some ps \<Longrightarrow>
     set ps = (case nd_actors n a of None \<Rightarrow> {} | Some s \<Rightarrow> ex_pending_jobs s)"
  using finite [of "ex_pending_jobs (the (nd_actors n a))"]
  by (auto simp: get_pending_nonces_eq split: option.splits if_splits)

lemma deliver_fields [simp]:
  "nd_db (deliver a out n) = nd_db n" "nd_writer (deliver a out n) = nd_writer n"
  "nd_actors (deliver a out n) = nd_actors n"
  by (cases out; simp)+

lemma fold_deliver_fields [simp]:
  "nd_db (fold (deliver a) os n) = nd_db n" "nd_writer (fold (deliver a) os n) = nd_writer n"
  "nd_actors (fold (deliver a) os n) = nd_actors n"
  by (induction os arbitrary: n) simp_all

lemma actor_event_fields [simp]:
  "nd_db (actor_event a e n) = nd_db n" "nd_writer (actor_event a e n) = nd_writer n"
  by (simp_all add: actor_event_def split: option.splits prod.splits)

lemma actor_event_actors:
  "nd_actors (actor_event a e n) = (case nd_actors n a of None \<Rightarrow> nd_actors n
     | Some s \<Rightarrow> (nd_actors n)(a \<mapsto> fst (exec_step s e)))"
  by (simp add: actor_event_def split: option.splits prod.splits)

lemma is_failed_pending [simp]: "is_pending j \<Longrightarrow> \<not> is_failed j" "is_pending j \<Longrightarrow> \<not> is_relayed j"
  "is_pending j \<Longrightarrow> \<not> is_done j"
  by (auto simp: job_predicates)

text \<open>A job as the server builds it.\<close>

definition fresh_job :: "job \<Rightarrow> bool" where
  "fresh_job j \<longleftrightarrow> jb_status j = status_of JPending None \<and> length (jb_consumer_address j) = 20
     \<and> jb_result_with_metadata j = [] \<and> jb_zkvm_operator_signature j = [] \<and> jb_relay_tx_hash j = []
     \<and> jb_blobs_sidecar j = None"

lemma fresh_job_pending [simp]: "fresh_job j \<Longrightarrow> is_pending j"
  by (simp add: fresh_job_def job_predicates)

lemma fresh_job_relayable [simp]: "fresh_job j \<Longrightarrow> relayable j"
  by (simp add: fresh_job_def relayable_def)

lemma request_job_fresh: "request_job L dec req = Inr j \<Longrightarrow> fresh_job j"
  by (auto simp: request_job_def fresh_job_def split: option.splits if_splits)

text \<open>
  The server accepts exactly the requests that meet its conditions, and the job it builds from one
  carries the request unchanged: the relayer later rebuilds from the job the very payload that the
  user signed.
\<close>

theorem request_job_signed_payload:
  "case request_job L dec req of
     Inr j \<Rightarrow> (\<exists>r. dec (sr_request req) = Some r \<and> ojr_max_cycles r \<noteq> 0 \<and> sr_signature req \<noteq> []
         \<and> ojr_program_id r \<noteq> [] \<and> ojr_offchain_input_hash r = lib_keccak256 L (sr_offchain_input req)
         \<and> fresh_job j \<and> jb_id j = get_job_id (lib_keccak256 L) (ojr_nonce r) (ojr_consumer r)
         \<and> jb_request_type j = Offchain (sr_signature req)
         \<and> map_option (abi_encode_offchain_job_request (lib_encode_request L))
             (job_params_try_from (lib_keccak256 L) j) = Some (lib_encode_request L r))
   | Inl e \<Rightarrow> (\<exists>msg. e = InvalidArgument msg)
       \<and> \<not> (\<exists>r. dec (sr_request req) = Some r \<and> ojr_max_cycles r \<noteq> 0 \<and> sr_signature req \<noteq> []
             \<and> ojr_program_id r \<noteq> [] \<and> ojr_offchain_input_hash r = lib_keccak256 L (sr_offchain_input req))"
proof (cases "request_job L dec req")
  case (Inl e)
  then show ?thesis by (auto simp: request_job_def split: option.splits if_splits)
next
  case (Inr j)
  then obtain r where r: "dec (sr_request req) = Some r" "ojr_max_cycles r \<noteq> 0" "sr_signature req \<noteq> []"
    "ojr_program_id r \<noteq> []" "ojr_offchain_input_hash r = lib_keccak256 L (sr_offchain_input req)"
    by (auto simp: request_job_def split: option.splits if_splits)
  with Inr show ?thesis using request_job_fresh [OF Inr]
    by (cases r) (auto simp: request_job_def job_params_try_from_def abi_encode_offchain_job_request_def)
qed

section \<open>Outcomes of a submission\<close>

lemma get_job_await_write:
  "get_job (nd_db (await_write sha256 (WJobTable j) n)) (jb_id j) = Some j"
  by (simp add: await_write_def get_job_def)

lemma await_write_fields [simp]:
  "nd_actors (await_write sha256 w n) = nd_actors n" "nd_pool (await_write sha256 w n) = nd_pool n"
  "nd_relay (await_write sha256 w n) = nd_relay n" "nd_writer (await_write sha256 w n) = []"
  by (simp_all add: await_write_def)

lemma send_write_fields [simp]:
  "nd_actors (send_write w n) = nd_actors n" "nd_pool (send_write w n) = nd_pool n"
  "nd_relay (send_write w n) = nd_relay n" "nd_db (send_write w n) = nd_db n"
  "nd_writer (send_write w n) = nd_writer n @ [w]"
  by (simp_all add: send_write_def)

lemma write_pending_job_fresh:
  "fresh_job j \<Longrightarrow> write_pending_job sha256 j n = (j, await_write sha256 (WJobTable j) n)"
  by (cases j) (simp add: write_pending_job_def fresh_job_def Let_def)

text \<open>The message to a running actor, for a pending job that is not too low.\<close>

lemma actor_exec_pending:
  assumes "nd_actors n a = Some s" and "is_pending j" and "\<not> (is_ordered j \<and> jb_nonce j < ex_next_job_to_submit s)"
  shows "actor_event a (EvRecv (Some (MsgExec j))) n =
    n\<lparr>nd_actors := (nd_actors n)(a \<mapsto> s\<lparr>ex_pending_jobs := insert (jb_nonce j) (ex_pending_jobs s),
        ex_join_set := Suc (ex_join_set s)\<rparr>), nd_pool := nd_pool n @ [(a, j)]\<rparr>"
  using assms by (auto simp: actor_event_def exec_job_def)

definition sent_to_pool :: "address \<Rightarrow> job \<Rightarrow> node \<Rightarrow> node \<Rightarrow> bool" where
  "sent_to_pool a j n n' \<longleftrightarrow> get_job (nd_db n') (jb_id j) = Some j \<and> nd_pool n' = nd_pool n @ [(a, j)]
     \<and> (\<exists>s. nd_actors n' a = Some s \<and> jb_nonce j \<in> ex_pending_jobs s)"

lemma send_to_actor_cases:
  assumes "is_pending j" and "nd_actors n a = Some s" and "get_job (nd_db n) (jb_id j) = Some j"
  shows "case send_to_actor a j n of
     (Some (Inr _), n') \<Rightarrow> sent_to_pool a j n n'
   | (Some (Inl e), n') \<Rightarrow> e = LowNonce \<and> is_ordered j \<and> get_job (nd_db n') (jb_id j) = Some j
       \<and> nd_pool n' = nd_pool n
       \<and> nd_writer n' = nd_writer n @ [WJobTable (j\<lparr>jb_status := status_of JFailed (Some ''low nonce'')\<rparr>)]
   | (None, n') \<Rightarrow> ex_exited s"
  using assms by (simp add: send_to_actor_def actor_exec_pending sent_to_pool_def)

lemma submit_job_cases:
  assumes j: "fresh_job j" and a: "a = be_word (jb_consumer_address j)"
  shows "case submit_job L cfg ans j n of
     (Some (Inr _), n') \<Rightarrow>
       (n' = n \<and> (\<exists>s. nd_actors n a = Some s \<and> jb_nonce j \<in> ex_pending_jobs s)) \<or> sent_to_pool a j n n'
   | (Some (Inl e), n') \<Rightarrow>
       (e = OffchainInputOverMaxDAPerJob \<and> n' = n \<and> ic_max_da_per_job cfg < length (lib_compress L (jb_offchain_input j)))
       \<or> (e = JobRelayed \<and> n' = n \<and> (\<exists>old. get_job (nd_db n) (jb_id j) = Some old \<and> is_relayed old))
       \<or> (e = GetNonceFail \<and> ans = None \<and> get_job (nd_db n') (jb_id j) = Some j \<and> nd_pool n' = nd_pool n)
       \<or> (e = LowNonce \<and> is_ordered j \<and> get_job (nd_db n') (jb_id j) = Some j \<and> nd_pool n' = nd_pool n
           \<and> last (nd_writer n') = WJobTable (j\<lparr>jb_status := status_of JFailed (Some ''low nonce'')\<rparr>))
   | (None, n') \<Rightarrow> (\<exists>s. nd_actors n a = Some s \<and> ex_exited s)"
proof (cases "ic_max_da_per_job cfg < length (lib_compress L (jb_offchain_input j))")
  case True
  then show ?thesis by (simp add: submit_job_def)
next
  case fits: False
  have addr: "try_into_address (jb_consumer_address j) = Some a"
    using j by (simp add: fresh_job_def try_into_address_def a)
  show ?thesis
  proof (cases "\<exists>r. check_old_job n a j = Stop r")
    case True
    then obtain r where r: "check_old_job n a j = Stop r" ..
    then have "r = None \<and> (\<exists>s. nd_actors n a = Some s \<and> ex_exited s)
        \<or> r = Some (Inl JobRelayed) \<and> (\<exists>old. get_job (nd_db n) (jb_id j) = Some old \<and> is_relayed old)
        \<or> r = Some (Inr ()) \<and> (\<exists>s. nd_actors n a = Some s \<and> jb_nonce j \<in> ex_pending_jobs s)"
      using j by (auto simp: check_old_job_def get_pending_nonces_eq Let_def split: option.splits if_splits)
    then show ?thesis using fits addr r by (auto simp: submit_job_def)
  next
    case False
    define n1 where "n1 = (if check_old_job n a j = WriteRecord then await_write (lib_sha256 L) (WJobTable j) n else n)"
    have db: "get_job (nd_db n1) (jb_id j) = Some j"
      using False by (auto simp: n1_def get_job_await_write check_old_job_def get_pending_nonces_eq Let_def
          split: option.splits if_splits)
    have n1: "nd_actors n1 = nd_actors n" "nd_pool n1 = nd_pool n" by (simp_all add: n1_def)
    have step: "submit_job L cfg ans j n = (case get_or_spawn_actor ans a n1 of
        Inl e \<Rightarrow> (Some (Inl e), n1) | Inr n2 \<Rightarrow> send_to_actor a j n2)"
      using False fits addr write_pending_job_fresh [OF j, of "lib_sha256 L" n]
      unfolding n1_def by (cases "check_old_job n a j") (auto simp: submit_job_def)
    show ?thesis
    proof (cases "nd_actors n a")
      case (Some s)
      then have "get_or_spawn_actor ans a n1 = Inr n1" by (simp add: get_or_spawn_actor_def n1)
      with send_to_actor_cases [of j n1 a s] Some n1 db j show ?thesis
        unfolding step by (auto simp: sent_to_pool_def split: prod.splits option.splits sum.splits)
    next
      case None
      show ?thesis
      proof (cases ans)
        case (Some k)
        let ?n2 = "n1\<lparr>nd_actors := (nd_actors n1)(a \<mapsto> exec_start k)\<rparr>"
        have "get_or_spawn_actor ans a n1 = Inr ?n2" by (simp add: get_or_spawn_actor_def n1 None Some)
        moreover have "\<not> ex_exited (exec_start k)" by (simp add: exec_start_def)
        ultimately show ?thesis using send_to_actor_cases [of j ?n2 a "exec_start k"] n1 db j
          unfolding step by (auto simp: sent_to_pool_def split: prod.splits option.splits sum.splits)
      next
        assume "ans = None"
        then have "get_or_spawn_actor ans a n1 = Inl GetNonceFail" by (simp add: get_or_spawn_actor_def n1 None)
        then show ?thesis using db n1 \<open>ans = None\<close> unfolding step by simp
      qed
    qed
  qed
qed

lemma submit_job_Inr_not_relayed:
  "submit_job L cfg ans j n = (Some (Inr x), n') \<Longrightarrow> get_job (nd_db n) (jb_id j) = Some old \<Longrightarrow> \<not> is_relayed old"
  by (auto simp: submit_job_def check_old_job_def Let_def split: if_splits option.splits)


definition sample_config :: intake_config where
  "sample_config = \<lparr>ic_max_da_per_job = 100, ic_unsafe_skip_program_id_check = False\<rparr>"


section \<open>Programs\<close>

text \<open>The tables once the writer has caught up.\<close>

definition writer_catches_up :: "(bytes \<Rightarrow> b256) \<Rightarrow> node \<Rightarrow> node" where
  "writer_catches_up sha256 n = n\<lparr>nd_db := fold (apply_write sha256) (nd_writer n) (nd_db n), nd_writer := []\<rparr>"

lemma get_elf_apply_write:
  "get_elf sha256 (apply_write sha256 w d) i = (case w of
     WElf v i' elf \<Rightarrow> if sha256 i = sha256 i' then Some \<lparr>em_vm_type = ucast (vm_type_code v), em_elf = elf\<rparr> else get_elf sha256 d i
   | _ \<Rightarrow> get_elf sha256 d i)"
  by (cases w) (auto simp: get_elf_def sha256_key_new_def)

lemma get_program_apply_write:
  "get_program sha256 (apply_write sha256 w d) i = (case w of
     WProgram v i' bs \<Rightarrow> if sha256 i = sha256 i' then Some \<lparr>pm_vm_type = ucast (vm_type_code v), pm_program_bytes = bs\<rparr>
       else get_program sha256 d i
   | _ \<Rightarrow> get_program sha256 d i)"
  by (cases w) (auto simp: get_program_def sha256_key_new_def)

lemma submit_elf_Inr:
  assumes "submit_elf L cfg elf vm pid n = (Inr i, n')"
  shows "\<exists>v bs. vm_type_try_from vm = Some v \<and> i = pid \<and> create_program L elf v = Inr bs
    \<and> n' = await_write (lib_sha256 L) (WProgram v pid bs) (send_write (WElf v pid elf) n)"
  using assms by (auto simp: submit_elf_def Let_def split: option.splits if_splits sum.splits)

text \<open>
  A program that was accepted can be run: from the moment the submitter is answered, the ELF is
  known and a job for this program id executes the program loaded from the submitted ELF. (Assumes
  that bincode reads back what it writes.)
\<close>

theorem submitted_program_runs:
  assumes "\<And>p bs. lib_bincode_serialize L p = Some bs \<Longrightarrow> lib_bincode_deserialize L bs = Some p"
    and "submit_elf L cfg elf vm pid n = (Inr i, n')"
  shows "i = pid \<and> contains_elf L n' pid
    \<and> (\<exists>p pm. lib_program_from L elf = Some p \<and> get_program (lib_sha256 L) (nd_db n') pid = Some pm
        \<and> (\<forall>c onchain offchain. sp1_execute L (pm_program_bytes pm) onchain offchain c =
             (case lib_run_fast L p c [onchain, offchain] of None \<Rightarrow> Inl ZSp1ExecutionError | Some out \<Rightarrow> Inr out)))"
proof -
  obtain v bs where v: "i = pid" "create_program L elf v = Inr bs"
    "n' = await_write (lib_sha256 L) (WProgram v pid bs) (send_write (WElf v pid elf) n)"
    using submit_elf_Inr [OF assms(2)] by blast
  from v(2) obtain p where p: "lib_program_from L elf = Some p" "lib_bincode_serialize L p = Some bs"
    by (cases v) (auto simp: create_program_def sp1_derive_program_def split: sum.splits option.splits)
  from assms(1) [OF p(2)] have ex: "sp1_execute L bs onchain offchain c =
      (case lib_run_fast L p c [onchain, offchain] of None \<Rightarrow> Inl ZSp1ExecutionError | Some out \<Rightarrow> Inr out)"
    for c onchain offchain by (simp add: sp1_execute_def)
  have "get_program (lib_sha256 L) (nd_db n') pid = Some \<lparr>pm_vm_type = ucast (vm_type_code v), pm_program_bytes = bs\<rparr>"
    "get_elf (lib_sha256 L) (nd_db n') pid \<noteq> None"
    by (simp_all add: v(3) await_write_def get_program_apply_write get_elf_apply_write del: apply_write.simps)
  with v(1) p(1) ex show ?thesis by (simp add: contains_elf_def)
qed

theorem submitted_program_runs_witness:
  "\<exists>n'. submit_elf sample_libs sample_config [3, 4] 0 [3, 4] (node_start empty_db) = (Inr [3, 4], n')
     \<and> contains_elf sample_libs n' [3, 4]"
proof -
  have s: "lib_bincode_serialize sample_libs p = Some bs \<Longrightarrow> lib_bincode_deserialize sample_libs bs = Some p" for p bs
    by (auto simp: sample_libs_def)
  obtain n' where "submit_elf sample_libs sample_config [3, 4] 0 [3, 4] (node_start empty_db) = (Inr [3, 4], n')"
    by (simp add: submit_elf_def vm_type_try_from_def get_elf_def node_start_def empty_db_def sample_config_def
        create_elf_def sp1_derive_program_id_def create_program_def sp1_derive_program_def sample_libs_def Let_def)
  with submitted_program_runs [OF s this] show ?thesis by blast
qed

text \<open>
  When the program cannot be derived from an ELF, the ELF is stored all the same: once the writer
  has caught up, submitting the same program id is refused because it exists, but a job for it has
  no program.
\<close>

theorem underivable_program_blocks_id:
  assumes "submit_elf L cfg elf vm pid n = (Inl (CreateElfFailed (EProgramDerivationFailed e)), n')"
    and "get_program (lib_sha256 L) (nd_db n) pid = None" and "nd_writer n = []"
  shows "fst (submit_elf L cfg elf' vm pid (writer_catches_up (lib_sha256 L) n')) = Inl (ElfAlreadyExists pid)
    \<and> get_program (lib_sha256 L) (nd_db (writer_catches_up (lib_sha256 L) n')) pid = None"
proof -
  from assms(1) obtain v where v: "vm_type_try_from vm = Some v" "n' = send_write (WElf v pid elf) n"
    by (auto simp: submit_elf_def Let_def create_elf_def split: option.splits if_splits sum.splits vm_type.splits)
  then show ?thesis using assms(2,3)
    by (simp add: writer_catches_up_def submit_elf_def get_elf_apply_write get_program_apply_write
        del: apply_write.simps)
qed

text \<open>An ELF that cannot be loaded.\<close>

definition strict_libs :: "bytes exec_libs" where
  "strict_libs = sample_libs\<lparr>lib_program_from := (\<lambda>elf. None)\<rparr>"

theorem underivable_program_blocks_id_witness:
  "fst (submit_elf strict_libs sample_config [3, 4] 0 [3, 4] (writer_catches_up be_word
     (snd (submit_elf strict_libs sample_config [3, 4] 0 [3, 4] (node_start empty_db))))) = Inl (ElfAlreadyExists [3, 4])"
proof -
  have l: "lib_sha256 strict_libs = be_word" by (simp add: strict_libs_def sample_libs_def)
  have "\<exists>n'. submit_elf strict_libs sample_config [3, 4] 0 [3, 4] (node_start empty_db) =
      (Inl (CreateElfFailed (EProgramDerivationFailed ZSp1)), n')"
    by (simp add: submit_elf_def vm_type_try_from_def get_elf_def node_start_def empty_db_def sample_config_def
        create_elf_def sp1_derive_program_id_def create_program_def sp1_derive_program_def strict_libs_def
        sample_libs_def Let_def)
  then obtain n' where n': "submit_elf strict_libs sample_config [3, 4] 0 [3, 4] (node_start empty_db) =
      (Inl (CreateElfFailed (EProgramDerivationFailed ZSp1)), n')" ..
  have "get_program (lib_sha256 strict_libs) (nd_db (node_start empty_db)) [3, 4] = None"
    "nd_writer (node_start empty_db) = []"
    by (simp_all add: get_program_def node_start_def empty_db_def)
  from underivable_program_blocks_id [OF n' this] show ?thesis by (simp add: n' l)
qed

end
