(* ===== verification/Frontend.thy ===== *)
theory Frontend
  imports Intake
begin

text \<open>
  The edges of the coprocessor node: the listener for onchain job requests
  (\<^verbatim>\<open>crates/coproc/src/event.rs\<close>), the HTTP gateway (\<^verbatim>\<open>crates/coproc/src/gateway.rs\<close>), the handling
  of ended tasks (\<^verbatim>\<open>crates/coproc/src/node.rs\<close>) and the options (\<^verbatim>\<open>crates/coproc/src/cli.rs\<close>).
\<close>

section \<open>The listener for job requests\<close>

definition SUBMIT_JOB_RETRIES :: nat where "SUBMIT_JOB_RETRIES = 4"
definition SUBMIT_JOB_BACKOFF_BASE_MS :: nat where "SUBMIT_JOB_BACKOFF_BASE_MS = 500"

text \<open>The event of the job manager contract.\<close>

record job_created =
  jc_job_id :: b256
  jc_nonce :: u64
  jc_consumer :: address
  jc_max_cycles :: u64
  jc_program_id :: bytes
  jc_onchain_input :: bytes

definition event_job :: "job_created \<Rightarrow> job" where
  "event_job ev =
     \<lparr>jb_id = jc_job_id ev, jb_nonce = jc_nonce ev, jb_max_cycles = jc_max_cycles ev,
      jb_consumer_address = be_bytes 20 (jc_consumer ev), jb_program_id = jc_program_id ev,
      jb_onchain_input = jc_onchain_input ev, jb_offchain_input = [], jb_request_type = Onchain,
      jb_result_with_metadata = [], jb_zkvm_operator_signature = [], jb_status = status_of JPending None,
      jb_relay_tx_hash = [], jb_blobs_sidecar = None, jb_relay_strategy = Unordered\<rparr>"

text \<open>
  The attempts \<open>is\<close> to submit a job: a refusal is retried after a pause that grows; the last refusal
  is dropped after its pause. The result is \<open>False\<close> when the handler, and with it the listener,
  panicked.
\<close>

fun submit_event_job :: "'p exec_libs \<Rightarrow> intake_config \<Rightarrow> (nat \<Rightarrow> u64 option) \<Rightarrow> job \<Rightarrow> nat list \<Rightarrow> node
    \<Rightarrow> bool \<times> node \<times> nat list" where
  "submit_event_job L cfg ans j [] n = (True, n, [])"
| "submit_event_job L cfg ans j (i # is) n =
     (case submit_job L cfg (ans i) j n of
        (None, n') \<Rightarrow> (False, n', [])
      | (Some (Inr _), n') \<Rightarrow> (True, n', [])
      | (Some (Inl _), n') \<Rightarrow>
          (let (ok, n'', sleeps) = submit_event_job L cfg ans j is n'
           in (ok, n'', i * SUBMIT_JOB_BACKOFF_BASE_MS # sleeps)))"

fun submit_events :: "'p exec_libs \<Rightarrow> intake_config \<Rightarrow> (job_created \<times> (nat \<Rightarrow> u64 option)) list \<Rightarrow> node \<Rightarrow> bool \<times> node" where
  "submit_events L cfg [] n = (True, n)"
| "submit_events L cfg ((ev, ans) # evs) n =
     (case submit_event_job L cfg ans (event_job ev) [1..<SUBMIT_JOB_RETRIES + 1] n of
        (True, n', _) \<Rightarrow> submit_events L cfg evs n'
      | (False, n', _) \<Rightarrow> (False, n'))"

text \<open>The block to start from: the configured one or the stored height, whichever is later.\<close>

definition listener_start :: "u64 option \<Rightarrow> db \<Rightarrow> u64" where
  "listener_start from_block d =
     (let last_seen_block = (case from_block of None \<Rightarrow> 0 | Some b \<Rightarrow> b);
          last_saved_height = (case get_last_block_height d of None \<Rightarrow> 0 | Some h \<Rightarrow> h) in
      if last_saved_height > last_seen_block then last_saved_height else last_seen_block)"

text \<open>
  The loop over the blocks up to the latest one. \<open>queries\<close> holds the answers of the provider, one per
  block asked for (\<open>None\<close> is an error, which ends the loop until the latest block is read again).
\<close>

fun listener_blocks :: "'p exec_libs \<Rightarrow> intake_config \<Rightarrow> u64 \<Rightarrow> (job_created \<times> (nat \<Rightarrow> u64 option)) list option list
    \<Rightarrow> u64 \<Rightarrow> node \<Rightarrow> bool \<times> u64 \<times> node" where
  "listener_blocks L cfg latest [] last_seen n = (True, last_seen, n)"
| "listener_blocks L cfg latest (q # qs) last_seen n =
     (if \<not> last_seen \<le> latest then (True, last_seen, n)
      else case q of
        None \<Rightarrow> (True, last_seen, n)
      | Some evs \<Rightarrow>
          (case submit_events L cfg evs n of
             (False, n') \<Rightarrow> (False, last_seen, n')
           | (True, n') \<Rightarrow>
               listener_blocks L cfg latest qs (last_seen + 1) (send_write (WLastBlockHeight (last_seen + 1)) n')))"

record ws_config =
  ws_eth_rpc :: string
  ws_backoff_limit_ms :: u64
  ws_backoff_multiplier_ms :: u64

text \<open>One failed connection attempt: how long to sleep, and the next retry count.\<close>

definition ws_retry :: "ws_config \<Rightarrow> u64 \<Rightarrow> u64 \<times> u64" where
  "ws_retry cfg provider_retry =
     (let sleep_millis = provider_retry * ws_backoff_multiplier_ms cfg in
      (sleep_millis, if sleep_millis < ws_backoff_limit_ms cfg then provider_retry + 1 else provider_retry))"

fun ws_sleeps :: "ws_config \<Rightarrow> nat \<Rightarrow> u64 \<Rightarrow> u64 list" where
  "ws_sleeps cfg 0 provider_retry = []"
| "ws_sleeps cfg (Suc failures) provider_retry =
     (let (sleep_millis, provider_retry') = ws_retry cfg provider_retry
      in sleep_millis # ws_sleeps cfg failures provider_retry')"

section \<open>The gateway\<close>

definition CONNECT_RETRIES :: nat where "CONNECT_RETRIES = 12"
definition CONNECT_DELAY_MS :: nat where "CONNECT_DELAY_MS = 250"

text \<open>The HTTP status for a gRPC status code; an unknown code reads as \<open>Unknown\<close>, which is 2.\<close>

definition http_status :: "int \<Rightarrow> nat" where
  "http_status grpc_code =
     (let code = (if 0 \<le> grpc_code \<and> grpc_code \<le> 16 then grpc_code else 2) in
      if code = 13 then 400
      else if code = 16 then 401
      else if code = 7 then 403
      else if code = 12 then 404
      else if code = 14 then 503
      else if code = 2 then 500
      else 409)"

text \<open>Connecting to the gRPC server: the outcomes of the attempts are given; \<open>None\<close> means still trying.\<close>

fun gateway_connect :: "nat \<Rightarrow> bool list \<Rightarrow> (bool \<times> nat list) option" where
  "gateway_connect connect_retries [] = None"
| "gateway_connect connect_retries (ok # oks) =
     (if ok then Some (True, [])
      else if connect_retries > CONNECT_RETRIES then Some (False, [])
      else map_option (\<lambda>(r, sleeps). (r, CONNECT_DELAY_MS * Suc connect_retries # sleeps))
        (gateway_connect (Suc connect_retries) oks))"

definition gateway_path :: "string \<Rightarrow> string" where
  "gateway_path resource = ''/v1/coprocessor_node/'' @ resource"

section \<open>Ended tasks\<close>

text \<open>
  A task ends with its result or is cancelled or panics. \<open>flatten\<close> turns the result's error into the
  node's. The task that watches the writer thread returns what joining the thread returned, so the
  thread's own result is the success value there.
\<close>

datatype ('e, 't) join = Joined "'e + 't" | JoinFailed

datatype 'e node_error = TaskError 'e | ErrorHandlingFailed

fun flatten :: "('e, 't) join \<Rightarrow> 'e node_error + 't" where
  "flatten (Joined (Inr result)) = Inr result"
| "flatten (Joined (Inl err)) = Inl (TaskError err)"
| "flatten JoinFailed = Inl ErrorHandlingFailed"

datatype 'r thread_end = Returned 'r | Panicked

datatype thread_error = StdJoin

fun watch_writer :: "'r thread_end \<Rightarrow> thread_error + 'r" where
  "watch_writer (Returned r) = Inr r"
| "watch_writer Panicked = Inl StdJoin"

section \<open>Options\<close>

text \<open>The default number of pool workers, in 64-bit arithmetic.\<close>

definition default_worker_count :: "u64 \<Rightarrow> u64" where
  "default_worker_count physical_cores = max 3 (physical_cores - 3)"

datatype signer_error = ShortPrivateKeyHex | InvalidPrivateKeyHex | InvalidPrivateKey

definition signer_from_hex :: "(string \<Rightarrow> bytes option) \<Rightarrow> (bytes \<Rightarrow> 'key option) \<Rightarrow> string \<Rightarrow> signer_error + 'key" where
  "signer_from_hex hex_decode from_slice secret =
     (if length secret < 64 then Inl ShortPrivateKeyHex
      else case hex_decode secret of
        None \<Rightarrow> Inl InvalidPrivateKeyHex
      | Some decoded \<Rightarrow> (case from_slice decoded of None \<Rightarrow> Inl InvalidPrivateKey | Some key \<Rightarrow> Inr key))"

definition dlq_max_retries_of_opts :: "u64 \<Rightarrow> u32" where
  "dlq_max_retries_of_opts dlq_max_retries = ucast dlq_max_retries"

section \<open>Lemmas\<close>

lemma event_job_fresh [simp]: "fresh_job (event_job ev)"
  by (simp add: event_job_def fresh_job_def)

lemma gateway_connect_failing:
  assumes "n \<le> 13"
  shows "gateway_connect n (replicate (14 - n) False @ oks) = Some (False, map (\<lambda>k. 250 * k) [Suc n..<14])"
  using assms
proof (induction "13 - n" arbitrary: n)
  case 0
  then show ?case by (simp add: CONNECT_RETRIES_def)
next
  case (Suc k)
  then have "14 - n = Suc (14 - Suc n)" "n \<le> 12" "[Suc n..<14] = Suc n # [Suc (Suc n)..<14]"
    by (simp_all add: upt_conv_Cons)
  moreover have "gateway_connect (Suc n) (replicate (14 - Suc n) False @ oks) =
      Some (False, map (\<lambda>k. 250 * k) [Suc (Suc n)..<14])"
    using Suc by (intro Suc.hyps(1)) auto
  ultimately show ?case by (simp add: CONNECT_RETRIES_def CONNECT_DELAY_MS_def)
qed

text \<open>
  The gateway tries 14 times to reach the gRPC server, sleeping 250 ms longer each time, and then
  gives up, whatever comes later.
\<close>

lemma gateway_connect_gives_up:
  "gateway_connect 0 (replicate 14 False @ oks) = Some (False, map (\<lambda>k. 250 * k) [1..<14])"
  using gateway_connect_failing [of 0 oks] by simp

lemma ws_retry_bound:
  assumes "unat (ws_backoff_limit_ms cfg) + unat (ws_backoff_multiplier_ms cfg) < 2 ^ 64"
    and "unat r * unat (ws_backoff_multiplier_ms cfg) \<le>
      unat (ws_backoff_limit_ms cfg) + unat (ws_backoff_multiplier_ms cfg)"
  shows "unat (fst (ws_retry cfg r)) = unat r * unat (ws_backoff_multiplier_ms cfg)
    \<and> unat (snd (ws_retry cfg r)) * unat (ws_backoff_multiplier_ms cfg) \<le>
        unat (ws_backoff_limit_ms cfg) + unat (ws_backoff_multiplier_ms cfg)"
proof -
  let ?m = "ws_backoff_multiplier_ms cfg" and ?l = "ws_backoff_limit_ms cfg"
  have p: "unat (r * ?m) = unat r * unat ?m"
    using assms by (subst unat_mult_lem [THEN iffD1]) simp_all
  have "unat (r + 1) * unat ?m \<le> unat ?l + unat ?m" if "r * ?m < ?l"
  proof (cases "unat ?m = 0")
    case False
    have lt: "unat r * unat ?m < unat ?l" using that p by (simp add: word_less_nat_alt)
    have "unat r \<le> unat r * unat ?m" using False by simp
    then have "unat r + 1 < 2 ^ 64" using lt assms(1) False by linarith
    then have "unat (r + 1) = unat r + 1" by (simp add: unat_word_ariths)
    then show ?thesis using lt by simp
  qed simp
  then show ?thesis using p assms(2) by (simp add: ws_retry_def Let_def)
qed

lemma ws_sleeps_le:
  assumes "unat (ws_backoff_limit_ms cfg) + unat (ws_backoff_multiplier_ms cfg) < 2 ^ 64"
    and "unat r * unat (ws_backoff_multiplier_ms cfg) \<le>
      unat (ws_backoff_limit_ms cfg) + unat (ws_backoff_multiplier_ms cfg)"
    and "x \<in> set (ws_sleeps cfg k r)"
  shows "unat x \<le> unat (ws_backoff_limit_ms cfg) + unat (ws_backoff_multiplier_ms cfg)"
  using assms(2,3)
proof (induction k arbitrary: r)
  case (Suc k)
  note b = ws_retry_bound [OF assms(1) Suc.prems(1)]
  show ?case using Suc.prems(2) Suc.IH [OF b [THEN conjunct2]] b Suc.prems(1)
    by (auto simp: case_prod_beta)
qed simp

text \<open>
  The pause between attempts to connect to the chain is at most the configured limit plus one
  step, however often connecting fails (when that sum fits into 64 bits).
\<close>

lemma ws_backoff_bounded:
  assumes "unat (ws_backoff_limit_ms cfg) + unat (ws_backoff_multiplier_ms cfg) < 2 ^ 64"
    and "x \<in> set (ws_sleeps cfg k 1)"
  shows "unat x \<le> unat (ws_backoff_limit_ms cfg) + unat (ws_backoff_multiplier_ms cfg)"
  using ws_sleeps_le [OF assms(1) _ assms(2)] by simp

lemma ws_backoff_bounded_example:
  "list_all (\<lambda>x. unat x \<le> 300010)
     (ws_sleeps \<lparr>ws_eth_rpc = [], ws_backoff_limit_ms = 300000, ws_backoff_multiplier_ms = 10\<rparr> 100000 1)"
proof -
  let ?c = "\<lparr>ws_eth_rpc = [], ws_backoff_limit_ms = 300000, ws_backoff_multiplier_ms = 10\<rparr> :: ws_config"
  show ?thesis unfolding list_all_iff using ws_backoff_bounded [of ?c _ 100000] by simp
qed

text \<open>
  On a machine with fewer than three cores the default number of pool workers wraps around to
  almost \<open>2 ^ 64\<close>; otherwise it is the number of cores less three, but at least three.
\<close>

lemma default_worker_count_exact:
  "unat (default_worker_count cores) =
     (if unat cores < 3 then unat cores + (2 ^ 64 - 3) else max 3 (unat cores - 3))"
proof (cases "unat cores < 3")
  case True
  then have "cores = 0 \<or> cores = 1 \<or> cores = 2" by (auto simp: word_unat_eq_iff)
  then show ?thesis
    by (auto simp: default_worker_count_def max_def unsigned_minus_1_eq_mask mask_eq_exp_minus_1)
next
  case False
  then have "3 \<le> cores" by (simp add: word_le_nat_alt)
  then have "unat (cores - 3) = unat cores - 3" by (simp add: unat_sub)
  with False show ?thesis by (auto simp: default_worker_count_def max_def word_le_nat_alt)
qed

text \<open>
  A database error that ends the writer thread does not end the node: the task that watches the
  thread succeeds with the thread's error as its value. Only a panic of the thread is passed on.
\<close>

lemma writer_error_not_raised:
  "flatten (Joined (watch_writer (Returned (Inl WriterDbError)))) = Inr (Inl WriterDbError)"
  "flatten (Joined (watch_writer Panicked)) = Inl (TaskError StdJoin)"
  by simp_all

lemma submit_job_no_nonce:
  assumes "fresh_job j" and "length (lib_compress L (jb_offchain_input j)) \<le> ic_max_da_per_job cfg"
    and "nd_actors n (be_word (jb_consumer_address j)) = None" and "get_job (nd_db n) (jb_id j) \<in> {None, Some j}"
  shows "submit_job L cfg None j n = (Some (Inl GetNonceFail),
    if get_job (nd_db n) (jb_id j) = None then await_write (lib_sha256 L) (WJobTable j) n else n)"
  using assms write_pending_job_fresh [OF assms(1), of "lib_sha256 L" n]
  by (auto simp: submit_job_def fresh_job_def try_into_address_def check_old_job_def get_pending_nonces_eq
      get_or_spawn_actor_def Let_def job_predicates split: option.splits)

text \<open>
  When the consumer contract cannot be asked for its nonce at any of the four attempts, an onchain
  job is recorded as pending but not queued, and the listener stores the next height: neither this
  run nor a restart submits the job again.
\<close>

theorem onchain_job_dropped:
  assumes "nd_actors n (jc_consumer ev) = None" and "get_job (nd_db n) (jc_job_id ev) = None"
    and "length (lib_compress L []) \<le> ic_max_da_per_job cfg" and "b \<le> latest"
  shows "\<exists>n'. listener_blocks L cfg latest [Some [(ev, \<lambda>i. None)]] b n = (True, b + 1, n')
    \<and> nd_pool n' = nd_pool n \<and> nd_actors n' = nd_actors n
    \<and> get_job (nd_db n') (jc_job_id ev) = Some (event_job ev) \<and> nd_writer n' = [WLastBlockHeight (b + 1)]"
proof -
  let ?j = "event_job ev" and ?n1 = "await_write (lib_sha256 L) (WJobTable (event_job ev)) n"
  have i: "jb_id ?j = jc_job_id ev" "jb_offchain_input ?j = []"
    "be_word (jb_consumer_address ?j) = jc_consumer ev"
    using be_word_be_bytes [of 20 "jc_consumer ev"] by (simp_all add: event_job_def)
  have db: "get_job (nd_db ?n1) (jc_job_id ev) = Some ?j"
    using get_job_await_write [of "lib_sha256 L" ?j n] by (simp add: i)
  have 1: "submit_job L cfg None ?j n = (Some (Inl GetNonceFail), ?n1)"
    using submit_job_no_nonce [of ?j L cfg n] assms by (simp add: i)
  have 2: "submit_job L cfg None ?j ?n1 = (Some (Inl GetNonceFail), ?n1)"
    using submit_job_no_nonce [of ?j L cfg ?n1] assms db by (simp add: i)
  have "[1..<SUBMIT_JOB_RETRIES + 1] = [1, 2, 3, 4]" by (simp add: SUBMIT_JOB_RETRIES_def upt_rec)
  then have "submit_events L cfg [(ev, \<lambda>i. None)] n = (True, ?n1)" by (simp add: 1 2)
  then show ?thesis using assms(4) db by simp
qed

theorem onchain_job_dropped_witness:
  "\<exists>n'. listener_blocks sample_libs sample_config 9
     [Some [(\<lparr>jc_job_id = 3, jc_nonce = 1, jc_consumer = 8, jc_max_cycles = 5, jc_program_id = [1],
              jc_onchain_input = []\<rparr>, \<lambda>i. None)]] 7 (node_start empty_db) = (True, 8, n')
     \<and> nd_pool n' = [] \<and> nd_writer n' = [WLastBlockHeight 8]"
proof -
  let ?ev = "\<lparr>jc_job_id = 3, jc_nonce = 1, jc_consumer = 8, jc_max_cycles = 5, jc_program_id = [1],
              jc_onchain_input = []\<rparr> :: job_created"
  have "nd_actors (node_start empty_db) (jc_consumer ?ev) = None"
    "get_job (nd_db (node_start empty_db)) (jc_job_id ?ev) = None"
    "length (lib_compress sample_libs []) \<le> ic_max_da_per_job sample_config" "(7 :: u64) \<le> 9"
    by (simp_all add: node_start_def empty_db_def get_job_def sample_libs_def)
  from onchain_job_dropped [OF this] show ?thesis by (auto simp: node_start_def)
qed

end
