(* ===== verification/CoprocNode.thy ===== *)
theory CoprocNode
  imports Frontend
begin

text \<open>
  The coprocessor node as a whole (\<^verbatim>\<open>crates/coproc/src/node.rs\<close>): its concurrent parts as one step
  relation, and what holds in every state it can reach. A step is one turn of a part: a gRPC call, an
  onchain event, a write by the writer thread, a job run by a pool worker together with the
  completion seen by the actor, a turn of a relay actor, the end of the relay task of an unordered
  job, a pass over the dead letter queue, the panic of a task, or a restart from the tables.
  Every step lists the transactions it sends.
\<close>

section \<open>Steps\<close>

text \<open>The node, with the relay tasks of unordered jobs that have been spawned.\<close>

record coproc =
  cp_node :: node
  cp_spawned :: "(address \<times> job) list"

record node_config =
  nc_intake :: intake_config
  nc_initial_relay_max_retries :: u32
  nc_dlq_max_retries :: u32

text \<open>What a finished relay leaves: its writes are sent, and the actor is told of a success.\<close>

definition relay_done :: "address \<Rightarrow> relay_outcome \<Rightarrow> node \<Rightarrow> node" where
  "relay_done a r n =
     fold send_write (ro_writes r) (fold (\<lambda>k. actor_event a (EvRecv (Some (MsgRelayed k)))) (ro_relayed r) n)"

inductive coproc_step :: "'p exec_libs \<Rightarrow> (bytes \<Rightarrow> offchain_job_request option) \<Rightarrow> node_config
    \<Rightarrow> coproc \<Rightarrow> submit_call list \<Rightarrow> coproc \<Rightarrow> bool"
  for L dec cfg where
  grpc_submit_job:
    "server_submit_job L dec (nc_intake cfg) ans req n = (r, n') \<Longrightarrow>
     coproc_step L dec cfg \<lparr>cp_node = n, cp_spawned = sp\<rparr> [] \<lparr>cp_node = n', cp_spawned = sp\<rparr>"
| grpc_submit_program:
    "server_submit_program L (nc_intake cfg) elf vm pid n = (r, n') \<Longrightarrow>
     coproc_step L dec cfg \<lparr>cp_node = n, cp_spawned = sp\<rparr> [] \<lparr>cp_node = n', cp_spawned = sp\<rparr>"
| onchain_event:
    "submit_job L (nc_intake cfg) ans (event_job ev) n = (r, n') \<Longrightarrow>
     coproc_step L dec cfg \<lparr>cp_node = n, cp_spawned = sp\<rparr> [] \<lparr>cp_node = n', cp_spawned = sp\<rparr>"
| block_done:
    "coproc_step L dec cfg \<lparr>cp_node = n, cp_spawned = sp\<rparr> []
       \<lparr>cp_node = send_write (WLastBlockHeight h) n, cp_spawned = sp\<rparr>"
| writer_turn:
    "nd_writer n = w # ws \<Longrightarrow>
     coproc_step L dec cfg \<lparr>cp_node = n, cp_spawned = sp\<rparr> []
       \<lparr>cp_node = n\<lparr>nd_db := apply_write (lib_sha256 L) w (nd_db n), nd_writer := ws\<rparr>, cp_spawned = sp\<rparr>"
| pool_turn:
    "nd_pool n = ps @ (a, j) # qs \<Longrightarrow> executor_worker L (nd_db n) j = (reply, eff) \<Longrightarrow>
     coproc_step L dec cfg \<lparr>cp_node = n, cp_spawned = sp\<rparr> []
       \<lparr>cp_node = actor_event a (EvJoin (TaskReply reply))
          (fold send_write (pe_writes eff) (n\<lparr>nd_pool := ps @ qs\<rparr>)), cp_spawned = sp\<rparr>"
| relay_ordered:
    "nd_relay n a = Relay j # ms \<Longrightarrow> is_ordered j \<Longrightarrow>
     relay_job_result L (nc_initial_relay_max_retries cfg) j as = Some (r, eff) \<Longrightarrow>
     coproc_step L dec cfg \<lparr>cp_node = n, cp_spawned = sp\<rparr> (rl_calls eff)
       \<lparr>cp_node = relay_done a r (n\<lparr>nd_relay := (nd_relay n)(a := ms)\<rparr>), cp_spawned = sp\<rparr>"
| relay_spawn:
    "nd_relay n a = Relay j # ms \<Longrightarrow> \<not> is_ordered j \<Longrightarrow>
     coproc_step L dec cfg \<lparr>cp_node = n, cp_spawned = sp\<rparr> []
       \<lparr>cp_node = n\<lparr>nd_relay := (nd_relay n)(a := ms)\<rparr>, cp_spawned = sp @ [(a, j)]\<rparr>"
| relay_unordered:
    "sp = sp1 @ (a, j) # sp2 \<Longrightarrow>
     relay_job_result L (nc_initial_relay_max_retries cfg) j as = Some (r, eff) \<Longrightarrow>
     coproc_step L dec cfg \<lparr>cp_node = n, cp_spawned = sp\<rparr> (rl_calls eff)
       \<lparr>cp_node = relay_done a r n, cp_spawned = sp1 @ sp2\<rparr>"
| dlq_pass:
    "retry_jobs L (nc_dlq_max_retries cfg) (map (\<lambda>j. (j, ans j)) (get_all_failed_jobs (nd_db n))) = Some r \<Longrightarrow>
     coproc_step L dec cfg \<lparr>cp_node = n, cp_spawned = sp\<rparr> (map (relay_call L) (get_all_failed_jobs (nd_db n)))
       \<lparr>cp_node = n\<lparr>nd_db := fold (apply_write (lib_sha256 L))
          (nd_writer n @ rr_writes r @ map WFailureJobsDelete (rr_deletes r)) (nd_db n), nd_writer := []\<rparr>,
        cp_spawned = sp\<rparr>"
| task_panics:
    "nd_actors n a = Some s \<Longrightarrow> exec_enabled s (EvJoin TaskJoinError :: unit exec_event) \<Longrightarrow>
     coproc_step L dec cfg \<lparr>cp_node = n, cp_spawned = sp\<rparr> []
       \<lparr>cp_node = actor_event a (EvJoin TaskJoinError) n, cp_spawned = sp\<rparr>"
| restart:
    "coproc_step L dec cfg \<lparr>cp_node = n, cp_spawned = sp\<rparr> [] \<lparr>cp_node = node_start (nd_db n), cp_spawned = []\<rparr>"

inductive coproc_reach :: "'p exec_libs \<Rightarrow> (bytes \<Rightarrow> offchain_job_request option) \<Rightarrow> node_config \<Rightarrow> coproc \<Rightarrow> bool"
  for L dec cfg where
  coproc_init: "coproc_reach L dec cfg \<lparr>cp_node = node_start empty_db, cp_spawned = []\<rparr>"
| coproc_next: "coproc_reach L dec cfg c \<Longrightarrow> coproc_step L dec cfg c calls c' \<Longrightarrow> coproc_reach L dec cfg c'"

inductive_cases coproc_stepE: "coproc_step L dec cfg c calls c'"

section \<open>What the node keeps\<close>

text \<open>
  A program that may be stored under a key: it was built from an ELF, and the key is the hash of the
  program id that the zkVM derives from this ELF, unless the node skips this check.
\<close>

definition known_program :: "'p exec_libs \<Rightarrow> intake_config \<Rightarrow> b256 \<Rightarrow> bytes \<Rightarrow> bool" where
  "known_program L I key program \<longleftrightarrow> (\<exists>elf p. lib_program_from L elf = Some p
     \<and> lib_bincode_serialize L p = Some program
     \<and> (ic_unsafe_skip_program_id_check I \<or> sha256_key_new (lib_sha256 L) (lib_sp1_setup L elf) = key))"

text \<open>
  A finished job: the operator has signed its result, and the result is that of running, on the job's
  own inputs, a program that belongs to the job's program id.
\<close>

definition signed_result :: "'p exec_libs \<Rightarrow> intake_config \<Rightarrow> job \<Rightarrow> bool" where
  "signed_result L I j \<longleftrightarrow> lib_sign_message L (jb_result_with_metadata j) = Some (jb_zkvm_operator_signature j)
     \<and> (\<exists>program raw. known_program L I (sha256_key_new (lib_sha256 L) (jb_program_id j)) program
          \<and> sp1_execute L program (jb_onchain_input j) (program_offchain_input j) (jb_max_cycles j) = Inr raw
          \<and> jb_result_with_metadata j = expected_result L j raw (jb_blobs_sidecar j))"

definition finished :: "'p exec_libs \<Rightarrow> intake_config \<Rightarrow> job \<Rightarrow> bool" where
  "finished L I j \<longleftrightarrow> relayable j \<and> signed_result L I j"

text \<open>A record of the job table: a job that counts as executed is finished.\<close>

definition record_ok :: "'p exec_libs \<Rightarrow> intake_config \<Rightarrow> job \<Rightarrow> bool" where
  "record_ok L I j \<longleftrightarrow> relayable j \<and> (is_done j \<or> is_relayed j \<longrightarrow> signed_result L I j)"

fun write_ok :: "'p exec_libs \<Rightarrow> intake_config \<Rightarrow> db_write \<Rightarrow> bool" where
  "write_ok L I (WJobTable j) \<longleftrightarrow> record_ok L I j"
| "write_ok L I (WFailureJobs j) \<longleftrightarrow> finished L I j"
| "write_ok L I (WProgram v pid program) \<longleftrightarrow> known_program L I (sha256_key_new (lib_sha256 L) pid) program"
| "write_ok L I _ \<longleftrightarrow> True"

definition tables_ok :: "'p exec_libs \<Rightarrow> intake_config \<Rightarrow> db \<Rightarrow> bool" where
  "tables_ok L I d \<longleftrightarrow> db_ok d \<and> (\<forall>j \<in> ran (bt_get (db_jobs d)). record_ok L I j)
     \<and> (\<forall>j \<in> ran (bt_get (db_relay_failures d)). finished L I j)
     \<and> (\<forall>k p. bt_get (db_programs d) k = Some p \<longrightarrow> known_program L I k (pm_program_bytes p))"

definition actor_ok :: "'p exec_libs \<Rightarrow> intake_config \<Rightarrow> exec_state \<Rightarrow> bool" where
  "actor_ok L I s \<longleftrightarrow> bt_ok (ex_completed_tasks s) \<and> (\<forall>j \<in> ran (bt_get (ex_completed_tasks s)). finished L I j)"

definition node_ok :: "'p exec_libs \<Rightarrow> intake_config \<Rightarrow> node \<Rightarrow> bool" where
  "node_ok L I n \<longleftrightarrow> tables_ok L I (nd_db n) \<and> list_all (write_ok L I) (nd_writer n)
     \<and> (\<forall>s \<in> ran (nd_actors n). actor_ok L I s)
     \<and> (\<forall>(a, j) \<in> set (nd_pool n). relayable j)
     \<and> (\<forall>a j. Relay j \<in> set (nd_relay n a) \<longrightarrow> finished L I j)"

definition coproc_ok :: "'p exec_libs \<Rightarrow> intake_config \<Rightarrow> coproc \<Rightarrow> bool" where
  "coproc_ok L I c \<longleftrightarrow> node_ok L I (cp_node c) \<and> (\<forall>(a, j) \<in> set (cp_spawned c). finished L I j)"

lemma ran_bt_insert: "\<forall>x \<in> ran (bt_get m). P x \<Longrightarrow> P v \<Longrightarrow> \<forall>x \<in> ran (bt_get (bt_insert k v m)). P x"
  by (auto simp: ran_def)

lemma ran_bt_remove: "bt_ok m \<Longrightarrow> \<forall>x \<in> ran (bt_get m). P x \<Longrightarrow> \<forall>x \<in> ran (bt_get (bt_remove k m)). P x"
  by (auto simp: ran_def)

lemma tables_ok_apply_write:
  assumes "tables_ok L I d" and "write_ok L I w"
  shows "tables_ok L I (apply_write (lib_sha256 L) w d)"
proof -
  from assms(1) have d: "db_ok d" "\<forall>j \<in> ran (bt_get (db_jobs d)). record_ok L I j"
    "\<forall>j \<in> ran (bt_get (db_relay_failures d)). finished L I j"
    "\<forall>k p. bt_get (db_programs d) k = Some p \<longrightarrow> known_program L I k (pm_program_bytes p)"
    by (simp_all add: tables_ok_def)
  note ok = db_ok_apply_write [OF d(1), of "lib_sha256 L" w]
  show ?thesis
  proof (cases w)
    case (WJobTable j)
    with assms(2) ran_bt_insert [OF d(2), of j] d(3,4) ok show ?thesis by (simp add: tables_ok_def)
  next
    case (WFailureJobs j)
    with assms(2) ran_bt_insert [OF d(3), of j] d(2,4) ok show ?thesis by (simp add: tables_ok_def)
  next
    case (WFailureJobsDelete i)
    with ran_bt_remove [OF db_okD(1) [OF d(1)] d(3)] d(2,4) ok show ?thesis by (simp add: tables_ok_def)
  qed (use d ok assms(2) in \<open>simp_all add: tables_ok_def\<close>)
qed

lemma tables_ok_fold:
  "tables_ok L I d \<Longrightarrow> list_all (write_ok L I) ws \<Longrightarrow> tables_ok L I (fold (apply_write (lib_sha256 L)) ws d)"
  by (induction ws arbitrary: d) (simp_all add: tables_ok_apply_write)

section \<open>Every part keeps it\<close>

lemma fresh_record_ok: "is_pending j \<Longrightarrow> relayable j \<Longrightarrow> record_ok L I j"
  by (auto simp: record_ok_def)

lemma node_ok_await_write:
  "node_ok L I n \<Longrightarrow> write_ok L I w \<Longrightarrow> node_ok L I (await_write (lib_sha256 L) w n)"
  by (simp add: node_ok_def await_write_def tables_ok_fold tables_ok_apply_write)

lemma node_ok_send_write: "node_ok L I n \<Longrightarrow> write_ok L I w \<Longrightarrow> node_ok L I (send_write w n)"
  by (simp add: node_ok_def send_write_def)

lemma node_ok_send_writes:
  "node_ok L I n \<Longrightarrow> list_all (write_ok L I) ws \<Longrightarrow> node_ok L I (fold send_write ws n)"
  by (induction ws arbitrary: n) (simp_all add: node_ok_send_write)

text \<open>What an event of an actor may carry, and what an actor sends then.\<close>

fun event_ok :: "'p exec_libs \<Rightarrow> intake_config \<Rightarrow> 'r exec_event \<Rightarrow> bool" where
  "event_ok L I (EvRecv (Some (MsgExec j))) \<longleftrightarrow> relayable j \<and> is_pending j"
| "event_ok L I (EvJoin (TaskReply (PoolOk j))) \<longleftrightarrow> finished L I j"
| "event_ok L I _ \<longleftrightarrow> True"

fun out_ok :: "'p exec_libs \<Rightarrow> intake_config \<Rightarrow> 'r exec_out \<Rightarrow> bool" where
  "out_ok L I (OutRelay (Relay j)) \<longleftrightarrow> finished L I j"
| "out_ok L I (OutPool j) \<longleftrightarrow> relayable j"
| "out_ok L I _ \<longleftrightarrow> True"

lemma relay_subsequent_ok:
  "bt_ok m \<Longrightarrow> \<forall>j \<in> ran (bt_get m). P j \<Longrightarrow> relay_subsequent f k m = (k', m', js) \<Longrightarrow>
     bt_ok m' \<and> (\<forall>j \<in> ran (bt_get m'). P j) \<and> list_all P js"
proof (induction f k m arbitrary: k' m' js rule: relay_subsequent.induct)
  case (2 f k m)
  show ?case
  proof (cases "bt_get m k")
    case None
    with 2 show ?thesis by simp
  next
    case (Some j)
    obtain js' where r: "relay_subsequent f (k + 1) (bt_remove k m) = (k', m', js')" and js: "js = j # js'"
      using "2.prems"(3) Some by (auto split: prod.splits)
    have "P j" using "2.prems"(2) Some by (auto simp: ran_def)
    with "2.IH" [OF Some bt_ok_remove [OF "2.prems"(1)] ran_bt_remove [OF "2.prems"(1,2)] r] js
    show ?thesis by simp
  qed
qed simp

lemma actor_step_ok:
  assumes "actor_ok L I s" and "event_ok L I e" and "exec_step s e = (s', os)"
  shows "actor_ok L I s' \<and> list_all (out_ok L I) os"
proof (cases "ev_completed e")
  case (Some j)
  then have e: "e = EvJoin (TaskReply (PoolOk j))" by (cases e rule: ev_completed.cases) auto
  have j: "finished L I j" using assms(2) e by simp
  let ?m = "ex_completed_tasks s"
  have m: "bt_ok ?m" "\<forall>j \<in> ran (bt_get ?m). finished L I j" using assms(1) by (simp_all add: actor_ok_def)
  obtain k' m' js where r: "relay_subsequent (length ?m) (ex_next_job_to_submit s + 1) ?m = (k', m', js)"
    by (cases "relay_subsequent (length ?m) (ex_next_job_to_submit s + 1) ?m")
  note rs = relay_subsequent_ok [OF m r]
  have map_ok: "list_all (out_ok L I) (map (\<lambda>j. OutRelay (Relay j)) js)"
    using rs by (induction js) simp_all
  show ?thesis
    using assms(1,3) j m rs map_ok ran_bt_insert [OF m(2) j, of "jb_nonce j"] r
    by (auto simp: e completed_ok_def actor_ok_def split: if_splits)
next
  case None
  then show ?thesis using assms
    by (cases "(L, I, e)" rule: event_ok.cases)
      (auto simp: exec_job_def actor_ok_def split: if_splits elim!: exec_recv.elims)
qed

lemma node_ok_deliver:
  "node_ok L I n \<Longrightarrow> out_ok L I out \<Longrightarrow> node_ok L I (deliver a out n)"
  by (cases "(L, I, out)" rule: out_ok.cases) (auto simp: node_ok_def)

lemma node_ok_deliver_all:
  "node_ok L I n \<Longrightarrow> list_all (out_ok L I) os \<Longrightarrow> node_ok L I (fold (deliver a) os n)"
  by (induction os arbitrary: n) (simp_all add: node_ok_deliver)

lemma node_ok_actor_event:
  assumes "node_ok L I n" and "event_ok L I e"
  shows "node_ok L I (actor_event a e n)"
proof (cases "nd_actors n a")
  case None
  with assms show ?thesis by (simp add: actor_event_def)
next
  case (Some s)
  obtain s' os where st: "exec_step s e = (s', os)" by force
  have "actor_ok L I s" using assms(1) Some by (auto simp: node_ok_def ran_def)
  from actor_step_ok [OF this assms(2) st] have ok: "actor_ok L I s'" "list_all (out_ok L I) os" by auto
  have "node_ok L I (n\<lparr>nd_actors := (nd_actors n)(a \<mapsto> s')\<rparr>)"
    using assms(1) ok(1) by (auto simp: node_ok_def ran_def)
  then show ?thesis using node_ok_deliver_all [OF _ ok(2)] by (simp add: actor_event_def Some st)
qed

lemma actor_ok_start [simp]: "actor_ok L I (exec_start k)"
  by (simp add: actor_ok_def exec_start_def)

lemma node_ok_start: "tables_ok L I d \<Longrightarrow> node_ok L I (node_start d)"
  by (simp add: node_ok_def node_start_def)

lemma ran_upd_ok: "\<forall>x \<in> ran m. P x \<Longrightarrow> P v \<Longrightarrow> \<forall>x \<in> ran (m(k \<mapsto> v)). P x"
  by (auto simp: ran_def)

lemma node_ok_spawn: "node_ok L I n \<Longrightarrow> get_or_spawn_actor ans a n = Inr n' \<Longrightarrow> node_ok L I n'"
  using ran_upd_ok [of "nd_actors n" "actor_ok L I"]
  by (auto simp: get_or_spawn_actor_def node_ok_def simp del: fun_upd_apply split: option.splits)

lemma node_ok_send_to_actor:
  assumes "node_ok L I n" and "is_pending j" and "relayable j"
  shows "node_ok L I (snd (send_to_actor a j n))"
proof -
  have "record_ok L I (j\<lparr>jb_status := status_of JFailed r\<rparr>)" for r
    using assms(3) by (simp add: record_ok_def job_predicates relayable_def)
  then show ?thesis using assms
    by (auto simp: send_to_actor_def intro!: node_ok_send_write node_ok_actor_event split: option.splits)
qed

lemma node_ok_submit_job:
  assumes "node_ok L I n" and "fresh_job j"
  shows "node_ok L I (snd (submit_job L cfg ans j n))"
proof -
  let ?w = "await_write (lib_sha256 L) (WJobTable j) n"
  have r: "record_ok L I j" using assms(2) by (simp add: fresh_record_ok)
  then have w: "node_ok L I ?w" using assms(1) by (simp add: node_ok_await_write)
  have last: "node_ok L I (snd (case get_or_spawn_actor ans a n1 of
      Inl e \<Rightarrow> (Some (Inl e), n1) | Inr n2 \<Rightarrow> send_to_actor a j n2))" if "node_ok L I n1" for a n1
    using that node_ok_spawn [OF that] node_ok_send_to_actor [of L I _ j a] assms(2) by (auto split: sum.splits)
  show ?thesis using assms(1) last [OF assms(1)] last [OF w] write_pending_job_fresh [OF assms(2), of "lib_sha256 L" n]
    by (auto simp: submit_job_def split: option.splits resubmission.splits)
qed

lemma node_ok_server_submit_job:
  assumes "node_ok L I n" and "server_submit_job L dec cfg ans req n = (r, n')"
  shows "node_ok L I n'"
proof (cases "request_job L dec req")
  case (Inl e)
  with assms show ?thesis by (simp add: server_submit_job_def)
next
  case (Inr j)
  have "node_ok L I (snd (submit_job L cfg ans j n))"
    using assms(1) request_job_fresh [OF Inr] by (rule node_ok_submit_job)
  with assms(2) Inr show ?thesis by (auto simp: server_submit_job_def split: prod.splits)
qed

lemma create_program_known:
  assumes "create_program L elf v = Inr bs"
    and "ic_unsafe_skip_program_id_check I \<or> create_elf L elf v = Inr pid"
  shows "known_program L I (sha256_key_new (lib_sha256 L) pid) bs"
  using assms by (cases v) (auto simp: known_program_def create_program_def create_elf_def sp1_derive_program_def
      sp1_derive_program_id_def split: option.splits sum.splits)

lemma node_ok_submit_elf: "node_ok L I n \<Longrightarrow> node_ok L I (snd (submit_elf L I elf vm pid n))"
  by (auto simp: submit_elf_def Let_def intro!: node_ok_send_write node_ok_await_write create_program_known
      split: option.splits sum.splits if_splits)

lemma node_ok_server_submit_program:
  "node_ok L I n \<Longrightarrow> server_submit_program L I elf vm pid n = (r, n') \<Longrightarrow> node_ok L I n'"
  using node_ok_submit_elf [of L I n elf vm pid]
  by (auto simp: server_submit_program_def split: if_splits prod.splits sum.splits)

lemma executed_finished:
  assumes "executed L d j j'" and "relayable j" and "tables_ok L I d"
  shows "finished L I j' \<and> is_done j'"
proof -
  note ex = assms(1) [unfolded executed_def]
  note j' = ex [THEN conjunct1]
  obtain p :: program_with_meta and raw where g: "get_program (lib_sha256 L) d (jb_program_id j) = Some p"
    and p: "sp1_execute L (pm_program_bytes p) (jb_onchain_input j)
      (program_offchain_input j) (jb_max_cycles j) = Inr raw"
    "jb_result_with_metadata j' = expected_result L j raw (expected_sidecar L j)"
    "lib_sign_message L (jb_result_with_metadata j') = Some (jb_zkvm_operator_signature j')"
    using ex [THEN conjunct2] by blast
  have known: "known_program L I (sha256_key_new (lib_sha256 L) (jb_program_id j)) (pm_program_bytes p)"
    using g assms(3) by (simp add: get_program_def tables_ok_def)
  have eqs: "jb_onchain_input j' = jb_onchain_input j" "jb_max_cycles j' = jb_max_cycles j"
    "program_offchain_input j' = program_offchain_input j" "jb_blobs_sidecar j' = expected_sidecar L j"
    "relayable j' = relayable j" "is_done j'" "expected_result L j' = expected_result L j"
    "jb_program_id j' = jb_program_id j"
    by (subst j', cases "jb_request_type j";
        simp add: program_offchain_input_def relayable_def job_predicates expected_result_def fun_eq_iff)+
  show ?thesis unfolding finished_def signed_result_def eqs(1-5,7,8) using p assms(2) eqs(6) known by blast
qed

lemma node_ok_pool_turn:
  assumes "node_ok L I n" and "nd_pool n = ps @ (a, j) # qs" and "executor_worker L (nd_db n) j = (reply, eff)"
  shows "node_ok L I (actor_event a (EvJoin (TaskReply reply)) (fold send_write (pe_writes eff) (n\<lparr>nd_pool := ps @ qs\<rparr>)))"
proof -
  have j: "relayable j" and n: "node_ok L I (n\<lparr>nd_pool := ps @ qs\<rparr>)" and d: "tables_ok L I (nd_db n)"
    using assms(1,2) by (auto simp: node_ok_def)
  have "list_all (write_ok L I) (pe_writes eff) \<and> event_ok L I (EvJoin (TaskReply reply) :: unit exec_event)"
  proof (cases reply)
    case (PoolOk j')
    with executor_worker_cases [of L "nd_db n" j] assms(3)
    have "executed L (nd_db n) j j'" and e: "pe_writes eff = [WJobTable j']" by auto
    from executed_finished [OF this(1) j d] PoolOk e show ?thesis by (simp add: record_ok_def finished_def)
  next
    case (PoolErr k)
    with executor_worker_cases [of L "nd_db n" j] assms(3)
    obtain r where "pe_writes eff = [WJobTable (j\<lparr>jb_status := status_of JFailed r\<rparr>)]" by auto
    with j PoolErr show ?thesis by (simp add: record_ok_def relayable_def job_predicates)
  qed
  with n show ?thesis by (intro node_ok_actor_event node_ok_send_writes) auto
qed

lemma finished_status:
  "finished L I (j\<lparr>jb_relay_tx_hash := h, jb_status := st\<rparr>) \<longleftrightarrow> finished L I j"
  "finished L I (j\<lparr>jb_status := st\<rparr>) \<longleftrightarrow> finished L I j"
  "finished L I (j\<lparr>jb_relay_tx_hash := h\<rparr>) \<longleftrightarrow> finished L I j"
  by (cases "jb_request_type j"; simp add: finished_def relayable_def signed_result_def
      program_offchain_input_def expected_result_def)+

lemma finished_record: "finished L I j \<Longrightarrow> record_ok L I j"
  by (simp add: finished_def record_ok_def)

lemma finished_relayed_job: "finished L I j \<Longrightarrow> record_ok L I (relayed_job j h)"
  unfolding relayed_job_def by (rule finished_record) (simp only: finished_status)

lemma finished_retried_job: "finished L I j \<Longrightarrow> record_ok L I (retried_job j h)"
  unfolding retried_job_def by (rule finished_record) (simp only: finished_status)

lemma finished_dlq_after: "finished L I j \<Longrightarrow> dlq_after m a j = Some j' \<Longrightarrow> finished L I j'"
  by (auto simp: dlq_after_def finished_status split: if_splits)

lemma relay_job_result_writes:
  assumes "finished L I j" and "relay_job_result L m j as = Some (r, eff)"
  shows "list_all (write_ok L I) (ro_writes r)"
  using assms finished_relayed_job [OF assms(1)]
  by (auto simp: relay_job_result_def split: option.splits loop_exit.splits relay_res.splits)

lemma relay_loop_calls:
  assumes "relayable j" and "relay_loop L m i j as = Some (x, eff)"
  shows "set (rl_calls eff) \<subseteq> {relay_call L j}"
  using assms(2)
proof (induction as arbitrary: i x eff)
  case (Cons a as)
  obtain e where once: "relay_once L j a = Some (attempt_res a, e)" "rl_calls e = [relay_call L j]"
    using relay_once_relayable [OF assms(1)] by blast
  show ?case
  proof (cases "m + 1 < i \<or> succeeds a")
    case True
    then show ?thesis using Cons.prems once by (auto simp: succeeds_def split: if_splits)
  next
    case False
    then obtain er where "attempt_res a = RelErr er" by (auto simp: not_succeeds)
    then obtain eff' where "relay_loop L m (i + 1) j as = Some (x, eff')"
      and "eff = then_effects (e\<lparr>rl_sleeps := [retry_backoff i]\<rparr>) eff'"
      using Cons.prems once False by auto
    with Cons.IH once(2) show ?thesis by (auto simp: then_effects_def)
  qed
qed simp

lemma relay_job_result_calls:
  assumes "relayable j" and "relay_job_result L m j as = Some (r, eff)"
  shows "set (rl_calls eff) \<subseteq> {relay_call L j}"
proof -
  obtain x where "relay_loop L m 1 j as = Some (x, eff)"
    using assms(2) by (auto simp: relay_job_result_def split: option.splits loop_exit.splits relay_res.splits)
  then show ?thesis by (rule relay_loop_calls [OF assms(1)])
qed

lemma node_ok_relay_done:
  "node_ok L I n \<Longrightarrow> list_all (write_ok L I) (ro_writes r) \<Longrightarrow> node_ok L I (relay_done a r n)"
proof -
  have "node_ok L I (fold (\<lambda>k. actor_event a (EvRecv (Some (MsgRelayed k)))) ks n)" if "node_ok L I n" for ks n
    using that by (induction ks arbitrary: n) (simp_all add: node_ok_actor_event)
  then show "node_ok L I n \<Longrightarrow> list_all (write_ok L I) (ro_writes r) \<Longrightarrow> node_ok L I (relay_done a r n)"
    by (simp add: relay_done_def node_ok_send_writes)
qed

lemma retry_jobs_writes_ok:
  assumes "\<forall>j \<in> set js. finished L I j" and "retry_jobs L m (map (\<lambda>j. (j, ans j)) js) = Some r"
  shows "list_all (write_ok L I) (rr_writes r @ map WFailureJobsDelete (rr_deletes r))"
proof -
  have one: "list_all (write_ok L I) (retry_writes m ans j)" if "finished L I j" for j
    using finished_retried_job [OF that] finished_dlq_after [OF that, of m "ans j"]
    by (auto simp: retry_writes_def split: relay_res.splits option.splits)
  from assms(1) have "\<forall>j \<in> set js. relayable j" by (simp add: finished_def)
  from retry_jobs_relayable [OF this, of L m ans] assms(2)
  have "rr_writes r = concat (map (retry_writes m ans) js)" by auto
  then show ?thesis using one assms(1) by (auto simp: list_all_iff)
qed

section \<open>Every reachable state\<close>

lemma node_ok_relay: "node_ok L I n \<Longrightarrow> Relay j \<in> set (nd_relay n a) \<Longrightarrow> finished L I j"
  unfolding node_ok_def by blast

lemma node_ok_pop:
  assumes "node_ok L I n" and "nd_relay n a = m # ms"
  shows "node_ok L I (n\<lparr>nd_relay := (nd_relay n)(a := ms)\<rparr>)"
proof -
  have "finished L I j" if "Relay j \<in> set (((nd_relay n)(a := ms)) b)" for b j
  proof -
    have "Relay j \<in> set (nd_relay n b)" using that assms(2) by (cases "b = a") simp_all
    with assms(1) show ?thesis by (rule node_ok_relay)
  qed
  with assms(1) show ?thesis unfolding node_ok_def by simp
qed

lemma tables_ok_empty [simp]: "tables_ok L I empty_db"
  by (simp add: tables_ok_def) (simp add: empty_db_def)

lemma coproc_ok_step:
  assumes "coproc_step L dec cfg c calls c'" and "coproc_ok L (nc_intake cfg) c"
  shows "coproc_ok L (nc_intake cfg) c' \<and> list_all (\<lambda>call. \<exists>j. call = relay_call L j \<and> finished L (nc_intake cfg) j) calls"
  using assms
proof (induction rule: coproc_step.induct)
  case (grpc_submit_job ans req n r n' sp)
  then show ?case using node_ok_server_submit_job [of L "nc_intake cfg" n dec "nc_intake cfg" ans req r n'] by (simp add: coproc_ok_def)
next
  case (grpc_submit_program elf vm pid n r n' sp)
  then show ?case
    using node_ok_server_submit_program [of L "nc_intake cfg" n elf vm pid r n'] by (simp add: coproc_ok_def)
next
  case (onchain_event ans ev n r n' sp)
  then show ?case using node_ok_submit_job [of L "nc_intake cfg" n "event_job ev" "nc_intake cfg" ans] by (simp add: coproc_ok_def)
next
  case (block_done n sp h)
  then show ?case by (simp add: coproc_ok_def node_ok_send_write)
next
  case (writer_turn n w ws sp)
  then show ?case by (simp add: coproc_ok_def node_ok_def tables_ok_apply_write)
next
  case (pool_turn n ps a j qs reply eff sp)
  then show ?case using node_ok_pool_turn [of L "nc_intake cfg" n ps a j qs reply eff] by (simp add: coproc_ok_def)
next
  case (relay_ordered n a j ms as r eff sp)
  then have n: "node_ok L (nc_intake cfg) n" by (simp add: coproc_ok_def)
  have "Relay j \<in> set (nd_relay n a)" using relay_ordered(1) by simp
  with n have j: "finished L (nc_intake cfg) j" by (rule node_ok_relay)
  from node_ok_relay_done [OF node_ok_pop [OF n relay_ordered(1)] relay_job_result_writes [OF j relay_ordered(3)]]
    relay_job_result_calls [OF _ relay_ordered(3)] j relay_ordered.prems
  show ?case by (auto simp: coproc_ok_def finished_def list_all_iff)
next
  case (relay_spawn n a j ms sp)
  then have n: "node_ok L (nc_intake cfg) n" by (simp add: coproc_ok_def)
  have "Relay j \<in> set (nd_relay n a)" using relay_spawn(1) by simp
  with n have "finished L (nc_intake cfg) j" by (rule node_ok_relay)
  moreover have "node_ok L (nc_intake cfg) (n\<lparr>nd_relay := (nd_relay n)(a := ms)\<rparr>)"
    using n relay_spawn(1) by (rule node_ok_pop)
  ultimately show ?case using relay_spawn.prems by (auto simp: coproc_ok_def)
next
  case (relay_unordered sp sp1 a j sp2 as r eff n)
  then have n: "node_ok L (nc_intake cfg) n" and j: "finished L (nc_intake cfg) j" by (auto simp: coproc_ok_def)
  from node_ok_relay_done [OF n relay_job_result_writes [OF j relay_unordered(2)]]
    relay_job_result_calls [OF _ relay_unordered(2)] j relay_unordered.prems relay_unordered(1)
  show ?case by (auto simp: coproc_ok_def finished_def list_all_iff)
next
  case (dlq_pass ans n r sp)
  then have n: "node_ok L (nc_intake cfg) n" by (simp add: coproc_ok_def)
  then have "\<forall>j \<in> set (get_all_failed_jobs (nd_db n)). finished L (nc_intake cfg) j"
    by (simp add: node_ok_def tables_ok_def set_failed_jobs)
  with retry_jobs_writes_ok [OF this dlq_pass(1)] n dlq_pass.prems show ?case
    by (auto simp: coproc_ok_def node_ok_def list_all_iff intro!: tables_ok_fold)
next
  case (task_panics n a s sp)
  then show ?case by (simp add: coproc_ok_def node_ok_actor_event)
next
  case (restart n sp)
  then have "tables_ok L (nc_intake cfg) (nd_db n)" by (simp add: coproc_ok_def node_ok_def)
  then show ?case by (simp add: coproc_ok_def node_ok_start)
qed

lemma coproc_reach_ok: "coproc_reach L dec cfg c \<Longrightarrow> coproc_ok L (nc_intake cfg) c"
proof (induction rule: coproc_reach.induct)
  case coproc_init
  then show ?case
    by (simp add: coproc_ok_def node_ok_start)
next
  case (coproc_next c calls c')
  then show ?case using coproc_ok_step by blast
qed

text \<open>
  C3. Every transaction the node sends, in any interleaving of its parts and over any restarts, submits
  a result signed by the operator, and that result comes from running, on the job's own inputs, a
  program that belongs to the job's program id: one built from an ELF whose derived id has the hash under
  which the job's program is looked up (unless the node was told to skip that check). A job whose
  record says that it was executed has such a result.
\<close>

theorem coproc_relays_signed_results:
  assumes "coproc_reach L dec cfg c" and "coproc_step L dec cfg c calls c'"
  shows "list_all (\<lambda>call. \<exists>j. call = relay_call L j \<and> relayable j \<and> signed_result L (nc_intake cfg) j) calls
    \<and> list_all (\<lambda>(i, j). if is_done j \<or> is_relayed j then signed_result L (nc_intake cfg) j else True)
         (db_jobs (nd_db (cp_node c')))"
proof -
  from coproc_ok_step [OF assms(2) coproc_reach_ok [OF assms(1)]]
  have c': "coproc_ok L (nc_intake cfg) c'"
    and "list_all (\<lambda>call. \<exists>j. call = relay_call L j \<and> finished L (nc_intake cfg) j) calls" by auto
  moreover from c' have "bt_ok (db_jobs (nd_db (cp_node c')))"
    and r: "\<forall>j \<in> ran (bt_get (db_jobs (nd_db (cp_node c')))). record_ok L (nc_intake cfg) j"
    by (simp_all add: coproc_ok_def node_ok_def tables_ok_def db_ok_def)
  moreover have "ran (bt_get (db_jobs (nd_db (cp_node c')))) = snd ` set (db_jobs (nd_db (cp_node c')))"
    using bt_ok_distinct [OF \<open>bt_ok (db_jobs (nd_db (cp_node c')))\<close>] by (rule ran_distinct)
  ultimately show ?thesis by (force simp: list_all_iff finished_def record_ok_def)
qed

text \<open>A run with one program and one onchain job, up to the transaction that submits its result.\<close>

definition run_event :: job_created where
  "run_event = \<lparr>jc_job_id = 3, jc_nonce = 1, jc_consumer = 8, jc_max_cycles = 5, jc_program_id = [3, 4],
     jc_onchain_input = [6]\<rparr>"

definition run_node1 :: node where
  "run_node1 = snd (server_submit_program sample_libs sample_config [3, 4] 0 [3, 4] (node_start empty_db))"

definition run_node2 :: node where
  "run_node2 = snd (submit_job sample_libs sample_config (Some 1) (event_job run_event) run_node1)"

definition run_done :: job where
  "run_done = (event_job run_event)\<lparr>jb_status := status_of JDone None, jb_result_with_metadata := [3, 4, 6],
     jb_zkvm_operator_signature := [5, 3, 4, 6]\<rparr>"

definition run_node3 :: node where
  "run_node3 = actor_event 8 (EvJoin (TaskReply (PoolOk run_done)))
     (fold send_write [WJobTable run_done] (run_node2\<lparr>nd_pool := []\<rparr>))"

definition run_config :: node_config where
  "run_config = \<lparr>nc_intake = sample_config, nc_initial_relay_max_retries = 2, nc_dlq_max_retries = 2\<rparr>"

lemma run_program: "get_program be_word (nd_db run_node1) [3, 4] = Some \<lparr>pm_vm_type = 0, pm_program_bytes = [0, 3, 4]\<rparr>"
  and run_node1_fields: "nd_actors run_node1 = Map.empty" "nd_pool run_node1 = []" "nd_writer run_node1 = []"
    "nd_relay run_node1 = (\<lambda>_. [])" "get_job (nd_db run_node1) i = None"
  by (simp_all add: run_node1_def server_submit_program_def submit_elf_def vm_type_try_from_def get_elf_def
      get_program_def get_job_def node_start_def empty_db_def sample_config_def create_elf_def
      sp1_derive_program_id_def create_program_def sp1_derive_program_def sample_libs_def Let_def await_write_def
      send_write_def)

lemma run_addr: "be_word (jb_consumer_address (event_job run_event)) = (8 :: address)"
  "try_into_address (jb_consumer_address (event_job run_event)) = Some 8"
  using be_word_be_bytes [of 20 "8 :: address"] by (simp_all add: event_job_def run_event_def)

lemma run_node2_eq:
  "run_node2 = (await_write be_word (WJobTable (event_job run_event)) run_node1)
     \<lparr>nd_actors := [8 \<mapsto> (exec_start 1)\<lparr>ex_pending_jobs := {1}, ex_join_set := 1\<rparr>], nd_pool := [(8, event_job run_event)]\<rparr>"
proof -
  have j: "jb_nonce (event_job run_event) = 1" "is_ordered (event_job run_event) = False" "is_pending (event_job run_event)"
    by (simp_all add: event_job_def run_event_def job_predicates)
  have "check_old_job run_node1 8 (event_job run_event) = WriteRecord"
    by (simp add: check_old_job_def run_node1_fields)
  moreover have "write_pending_job be_word (event_job run_event) run_node1 =
      (event_job run_event, await_write be_word (WJobTable (event_job run_event)) run_node1)"
    by (simp add: write_pending_job_fresh)
  moreover have "lib_sha256 sample_libs = be_word" "lib_compress sample_libs = (\<lambda>bs. bs)"
    by (simp_all add: sample_libs_def)
  moreover have "jb_offchain_input (event_job run_event) = []" by (simp add: event_job_def)
  ultimately show ?thesis
    by (simp add: run_node2_def submit_job_def run_addr get_or_spawn_actor_def run_node1_fields send_to_actor_def
        actor_event_def exec_job_def j) (simp add: exec_start_def)
qed

lemma run_worker:
  "executor_worker sample_libs (nd_db run_node2) (event_job run_event) =
     (PoolOk run_done, \<lparr>pe_writes = [WJobTable run_done], pe_job_errs = []\<rparr>)"
proof -
  have g: "get_program be_word (nd_db run_node2) [3, 4] = Some \<lparr>pm_vm_type = 0, pm_program_bytes = [0, 3, 4]\<rparr>"
    using run_program by (simp add: run_node2_eq await_write_def run_node1_fields get_program_apply_write del: apply_write.simps)
  have "execute_onchain_job sample_libs 3 5 [3, 4] [6] [0, 3, 4] Sp1 = Inr ([3, 4, 6], [5, 3, 4, 6])"
    unfolding execute_onchain_job_Inr by (simp add: sp1_execute_def) (simp add: sample_libs_def)
  then have "pool_execute_job sample_libs (event_job run_event) \<lparr>pm_vm_type = 0, pm_program_bytes = [0, 3, 4]\<rparr> =
      (Inr run_done, \<lparr>pe_writes = [WJobTable run_done], pe_job_errs = []\<rparr>)"
    by (simp add: pool_execute_job_def run_done_def event_job_def run_event_def Let_def)
  moreover have "pool_get_program sample_libs (nd_db run_node2) (event_job run_event) =
      (Inr \<lparr>pm_vm_type = 0, pm_program_bytes = [0, 3, 4]\<rparr>, event_job run_event, \<lparr>pe_writes = [], pe_job_errs = []\<rparr>)"
  proof -
    have "lib_sha256 sample_libs = be_word" "jb_program_id (event_job run_event) = [3, 4]"
      by (simp_all add: sample_libs_def event_job_def run_event_def)
    then show ?thesis by (simp add: pool_get_program_def g)
  qed
  ultimately show ?thesis by (simp add: executor_worker_def)
qed

lemma run_node3_relay: "nd_relay run_node3 8 = [Relay run_done]"
  by (simp add: run_node3_def run_node2_eq actor_event_def completed_ok_def run_node1_fields)
    (simp add: run_done_def event_job_def job_predicates exec_start_def send_write_def run_node1_fields)

lemma run_reach: "coproc_reach sample_libs (\<lambda>_. None) run_config \<lparr>cp_node = run_node3, cp_spawned = []\<rparr>"
proof -
  let ?r = "coproc_reach sample_libs (\<lambda>_. None) run_config"
  have c: "nc_intake run_config = sample_config" by (simp add: run_config_def)
  have 1: "coproc_step sample_libs (\<lambda>_. None) run_config \<lparr>cp_node = node_start empty_db, cp_spawned = []\<rparr> []
      \<lparr>cp_node = run_node1, cp_spawned = []\<rparr>"
    by (rule grpc_submit_program [where elf = "[3, 4]" and vm = 0 and pid = "[3, 4]"])
      (simp add: c run_node1_def, rule prod.collapse [symmetric])
  have 2: "coproc_step sample_libs (\<lambda>_. None) run_config \<lparr>cp_node = run_node1, cp_spawned = []\<rparr> []
      \<lparr>cp_node = run_node2, cp_spawned = []\<rparr>"
    by (rule onchain_event [where ans = "Some 1" and ev = run_event])
      (simp add: c run_node2_def, rule prod.collapse [symmetric])
  have p: "nd_pool run_node2 = [] @ (8, event_job run_event) # []" by (simp add: run_node2_eq)
  have 3: "coproc_step sample_libs (\<lambda>_. None) run_config \<lparr>cp_node = run_node2, cp_spawned = []\<rparr> []
      \<lparr>cp_node = run_node3, cp_spawned = []\<rparr>"
    using pool_turn [OF p run_worker] by (simp add: run_node3_def)
  show ?thesis by (rule coproc_next [OF coproc_next [OF coproc_next [OF coproc_init 1] 2] 3])
qed

text \<open>The relay task of the job, and its transaction.\<close>

definition run_attempt :: attempt where
  "run_attempt = \<lparr>at_outcome = Included 77, at_nonce_polls = []\<rparr>"

theorem coproc_relays_signed_results_witness:
  "\<exists>c'. coproc_step sample_libs (\<lambda>_. None) run_config
      \<lparr>cp_node = run_node3\<lparr>nd_relay := (nd_relay run_node3)(8 := [])\<rparr>, cp_spawned = [(8, run_done)]\<rparr>
      [relay_call sample_libs run_done] c'
    \<and> (\<exists>j. relay_call sample_libs run_done = relay_call sample_libs j \<and> relayable j
        \<and> signed_result sample_libs sample_config j)"
proof -
  let ?c = "\<lparr>cp_node = run_node3\<lparr>nd_relay := (nd_relay run_node3)(8 := [])\<rparr>, cp_spawned = [(8, run_done)]\<rparr>"
  have o: "\<not> is_ordered run_done" by (simp add: run_done_def event_job_def job_predicates)
  have "coproc_step sample_libs (\<lambda>_. None) run_config \<lparr>cp_node = run_node3, cp_spawned = []\<rparr> [] ?c"
    using relay_spawn [OF run_node3_relay o, where sp = "[]"] by simp
  with run_reach have r: "coproc_reach sample_libs (\<lambda>_. None) run_config ?c" by (rule coproc_next)
  have "relayable run_done" by (simp add: run_done_def event_job_def relayable_def)
  from relay_once_relayable [OF this, of sample_libs run_attempt]
  obtain eff where "relay_once sample_libs run_done run_attempt = Some (RelOk 77, eff)"
    and e: "rl_calls eff = [relay_call sample_libs run_done]"
    by (auto simp: attempt_res_def run_attempt_def)
  then have j: "\<exists>out. relay_job_result sample_libs (nc_initial_relay_max_retries run_config) run_done [run_attempt] = Some (out, eff)"
    by (simp add: relay_job_result_def)
  then obtain out where out: "relay_job_result sample_libs (nc_initial_relay_max_retries run_config) run_done [run_attempt]
      = Some (out, eff)" ..
  have sp: "[(8 :: address, run_done)] = [] @ (8, run_done) # []" by simp
  obtain c' where c': "coproc_step sample_libs (\<lambda>_. None) run_config ?c [relay_call sample_libs run_done] c'"
    using relay_unordered [OF sp out, where n = "run_node3\<lparr>nd_relay := (nd_relay run_node3)(8 := [])\<rparr>"] e by auto
  have "nc_intake run_config = sample_config" by (simp add: run_config_def)
  with coproc_relays_signed_results [OF r c'] c' show ?thesis by auto
qed

section \<open>Resubmission after a failed relay\<close>

lemma relay_done_failed_actors:
  "ro_relayed r = [] \<Longrightarrow> nd_actors (relay_done a r n) = nd_actors n"
proof -
  have "nd_actors (fold send_write ws n) = nd_actors n" for ws n
    by (induction ws arbitrary: n) simp_all
  then show "ro_relayed r = [] \<Longrightarrow> nd_actors (relay_done a r n) = nd_actors n"
    by (simp add: relay_done_def)
qed

text \<open>
  C38. A job whose relay failed stays pending at its actor, since neither the failure nor a later
  success of the dead letter queue is reported there: as long as the actor lives and the record does
  not say relayed, the node lists the nonce as pending and answers a resubmission with success
  without doing anything, even after the queue has given the job up.
\<close>

theorem failed_relay_blocks_resubmission:
  assumes "relay_job_result L m j as = Some (r, eff)" and "ro_result r \<noteq> None"
    and "nd_actors n a = Some s" and "\<not> ex_exited s" and "jb_nonce j \<in> ex_pending_jobs s"
    and "nd_actors n' a = nd_actors (relay_done a r n) a"
    and "get_job (nd_db n') (jb_id j') = Some old" and "\<not> is_relayed old"
    and "fresh_job j'" and "jb_nonce j' = jb_nonce j" and "be_word (jb_consumer_address j') = a"
    and "length (lib_compress L (jb_offchain_input j')) \<le> ic_max_da_per_job cfg"
  shows "submit_job L cfg ans j' n' = (Some (Inr ()), n')
    \<and> (\<exists>ps. get_pending_nonces n' a = Some ps \<and> jb_nonce j \<in> set ps)"
proof -
  have "ro_relayed r = []" using assms(1,2)
    by (auto simp: relay_job_result_def split: option.splits loop_exit.splits relay_res.splits)
  then have s: "nd_actors n' a = Some s" using assms(3,6) relay_done_failed_actors [of r a n] by simp
  then have p: "get_pending_nonces n' a = Some (sorted_list_of_set (ex_pending_jobs s))"
    using assms(4) by (simp add: get_pending_nonces_eq)
  have e: "jb_nonce j \<in> set (sorted_list_of_set (ex_pending_jobs s))"
    using assms(5) by simp
  have "old \<noteq> j' \<or> \<not> is_failed old" using assms(9) by auto
  then have "check_old_job n' a j' = Stop (Some (Inr ()))"
    using assms(7,8,10) p e by (auto simp: check_old_job_def Let_def)
  moreover have "try_into_address (jb_consumer_address j') = Some a"
    using assms(9,11) by (simp add: fresh_job_def try_into_address_def)
  ultimately show ?thesis using assms(12) p e by (simp add: submit_job_def)
qed

theorem failed_relay_blocks_resubmission_witness:
  "\<exists>r eff. relay_job_result sample_libs 0 run_done (replicate 2 (failing run_done)) = Some (r, eff)
    \<and> submit_job sample_libs sample_config None (event_job run_event) (relay_done 8 r run_node3)
       = (Some (Inr ()), relay_done 8 r run_node3)"
proof -
  have "relayable run_done" by (simp add: run_done_def event_job_def relayable_def)
  note cases = relay_job_result_cases [OF this, of 0 "replicate 2 (failing run_done)" sample_libs]
  have "takeWhile (\<lambda>a. \<not> succeeds a) (replicate 2 (failing run_done)) = replicate 2 (failing run_done)"
    by (intro takeWhile_eq_all_conv [THEN iffD2]) simp
  moreover have "attempt_res (failing run_done) = RelErr TxBroadcast" by (simp add: failing_def attempt_res_def)
  moreover have "replicate 2 (failing run_done) ! min 2 (unat (0 :: u32) + 1) = failing run_done" by simp
  ultimately obtain eff where x: "relay_job_result sample_libs 0 run_done (replicate 2 (failing run_done)) =
      Some (\<lparr>ro_result = Some RelayErr, ro_writes = [WFailureJobs run_done], ro_relayed = [], ro_panic = False\<rparr>, eff)"
    using cases by (simp add: Let_def) blast
  obtain r where r: "relay_job_result sample_libs 0 run_done (replicate 2 (failing run_done)) = Some (r, eff)"
    "ro_result r \<noteq> None" "ro_writes r = [WFailureJobs run_done]" "ro_relayed r = []"
    by (rule that [OF x]) simp_all
  have s: "\<exists>s. nd_actors run_node3 8 = Some s \<and> \<not> ex_exited s \<and> ex_pending_jobs s = {1}"
    by (simp add: run_node3_def run_node2_eq actor_event_actors completed_ok_def)
      (simp add: run_done_def event_job_def job_predicates exec_start_def)
  then obtain s where s: "nd_actors run_node3 8 = Some s" "\<not> ex_exited s" "ex_pending_jobs s = {1}" by blast
  have db: "nd_db (relay_done 8 r run_node3) = nd_db run_node2"
    using r(3,4) by (simp add: relay_done_def run_node3_def)
  have i: "jb_nonce run_done = 1" "jb_nonce (event_job run_event) = 1" "jb_id (event_job run_event) = 3"
    "jb_offchain_input (event_job run_event) = []" "\<not> is_relayed (event_job run_event)"
    by (simp_all add: run_done_def event_job_def run_event_def job_predicates)
  have g: "get_job (nd_db run_node2) 3 = Some (event_job run_event)"
    using get_job_await_write [of be_word "event_job run_event" run_node1] by (simp add: run_node2_eq i)
  have f: "length (lib_compress sample_libs (jb_offchain_input (event_job run_event))) \<le> ic_max_da_per_job sample_config"
    by (simp add: sample_libs_def i)
  have "submit_job sample_libs sample_config None (event_job run_event) (relay_done 8 r run_node3)
       = (Some (Inr ()), relay_done 8 r run_node3)"
    using failed_relay_blocks_resubmission [OF r(1,2) s(1,2) _ refl, of "event_job run_event" "event_job run_event"
        sample_config None] s(3) i g f db run_addr by simp
  with r(1) show ?thesis by blast
qed

end
