(* ===== verification/EndToEnd.thy ===== *)
theory EndToEnd
  imports ClobNode CoprocNode
begin

text \<open>
  A batch of the CLOB node on its way through the coprocessor node: the batcher's job (\<open>ClobNode\<close>)
  passes the checks of the gRPC server (\<open>Intake\<close>), a worker executes it (\<open>Executor\<close>) with the guest
  program (\<open>ClobNode\<close>), and the signed result carries the state root from which the next batch starts.
\<close>

section \<open>From the batcher to the server\<close>

text \<open>The message as the server receives it.\<close>

definition grpc_request :: "ClobNode.submit_job_request \<Rightarrow> Intake.submit_job_request" where
  "grpc_request req = \<lparr>sr_request = sj_request req, sr_signature = sj_signature req,
     sr_offchain_input = sj_offchain_input req, sr_relay_strategy = of_nat (sj_relay_strategy req)\<rparr>"

text \<open>The record that \<open>abi_encode_offchain_job_request\<close> encodes.\<close>

definition params_request :: "job_params \<Rightarrow> offchain_job_request" where
  "params_request p = \<lparr>ojr_nonce = jp_nonce p, ojr_max_cycles = jp_max_cycles p,
     ojr_consumer = jp_consumer_address p, ojr_program_id = jp_program_id p,
     ojr_onchain_input = jp_onchain_input p, ojr_offchain_input_hash = jp_offchain_input_hash p\<rparr>"

lemma sj_request_batch_job:
  "batch_job env nonce b = (params, req) \<Longrightarrow> sj_request req = be_encode_job env (params_request params)"
  by (auto simp: batch_job_def Let_def abi_encode_offchain_job_request_def params_request_def)

text \<open>The job that the server builds from the batcher's message.\<close>

lemma request_job_batch:
  assumes "batch_job env nonce b = (params, req)" and "dec (sj_request req) = Some (params_request params)"
    and "be_keccak256 env = lib_keccak256 L" and "sj_signature req \<noteq> []" and "be_program_id env \<noteq> []"
  obtains j where "request_job L dec (grpc_request req) = Inr j" "is_ordered j" "jb_nonce j = nonce"
    "jb_id j = get_job_id (lib_keccak256 L) nonce (be_consumer env)" "jb_program_id j = be_program_id env"
    "jb_max_cycles j = MAX_CYCLES" "jb_request_type j = Offchain (sj_signature req)"
    "jb_onchain_input j = jp_onchain_input params" "jb_offchain_input j = sj_offchain_input req"
proof -
  have p: "jp_nonce params = nonce" "jp_max_cycles params = MAX_CYCLES" "jp_consumer_address params = be_consumer env"
    "jp_program_id params = be_program_id env"
    "jp_offchain_input_hash params = lib_keccak256 L (sj_offchain_input req)" "sj_relay_strategy req = 1"
    using assms(1,3) by (auto simp: batch_job_def Let_def)
  have "MAX_CYCLES \<noteq> 0" by (simp add: MAX_CYCLES_def)
  then show thesis
    using that assms(2,4,5) p
    by (simp add: request_job_def grpc_request_def params_request_def relay_strategy_of_def is_ordered_def)
qed

section \<open>From the guest to the next batch\<close>

lemma chain_nth:
  "chain db a bs e \<Longrightarrow> i < length bs \<Longrightarrow> \<exists>a' e'. batch_ok db a' e' (bs ! i)"
  by (induction bs arbitrary: a i) (auto simp: nth_Cons split: nat.splits)

lemma submitted_batch_runs:
  assumes "node_reach n (e, db) outs bs" and "Suc n < 2 ^ 64" and "i < length bs"
  obtains post where "run_ticks (bat_requests (bs ! i)) (bat_state (bs ! i)) = Some post"
    "Suc i < length bs \<Longrightarrow> bat_state (bs ! Suc i) = post"
proof -
  have "node_inv n (e, db) outs bs" by (rule node_reach_inv [OF assms(1,2)])
  then obtain k where k: "chain db 0 bs k"
    using assms(3) by (auto simp: node_inv_def batches_ok_def split: option.splits)
  obtain post where "run_ticks (bat_requests (bs ! i)) (bat_state (bs ! i)) = Some post"
    using chain_nth [OF k assms(3)] by (auto simp: batch_ok_def)
  with chain_next [OF k, of i] that show thesis by auto
qed

text \<open>
  A worker completes an offchain job whose program is stored and runs to its end, when the blob sidecar
  can be built and the result can be signed.
\<close>

lemma worker_completes:
  assumes "jb_request_type j = Offchain sig" and "get_program (lib_sha256 L) d (jb_program_id j) = Some pm"
    and "sp1_execute L (pm_program_bytes pm) (jb_onchain_input j) (jb_offchain_input j) (jb_max_cycles j) = Inr raw"
    and "lib_build_sidecar L (lib_compress L (jb_offchain_input j)) \<noteq> None"
    and "\<And>m. lib_sign_message L m \<noteq> None"
  shows "\<exists>j' eff. executor_worker L d j = (PoolOk j', eff) \<and>
    jb_result_with_metadata j' = expected_result L j raw (expected_sidecar L j) \<and>
    lib_sign_message L (jb_result_with_metadata j') = Some (jb_zkvm_operator_signature j')"
proof -
  obtain sc where sc: "offchain_sidecar L (jb_offchain_input j) = Inr sc"
    using assms(4) by (cases "jb_offchain_input j = []") (auto simp: offchain_sidecar_def)
  obtain r s where "execute_offchain_job L (jb_id j) (jb_max_cycles j) (jb_program_id j) (jb_onchain_input j)
      (jb_offchain_input j) (pm_program_bytes pm) Sp1 = Inr (r, s, sc)"
    using assms(3,5) sc unfolding execute_offchain_job_Inr by (metis not_None_eq)
  then obtain j' eff where e: "pool_execute_job L j pm = (Inr j', eff)"
    using assms(1) by (simp add: pool_execute_job_def Let_def)
  with pool_execute_job_Inr [OF e assms(2)] assms(1,2,3) show ?thesis
    by (auto simp: executor_worker_def pool_get_program_def executed_def program_offchain_input_def)
qed

text \<open>
  Nothing in the guest ties the state it reads to the input state root: the output is the same for
  every onchain input.
\<close>

lemma guest_ignores_onchain_input:
  "guest_main parse_requests parse_state stf onchain off = guest_main parse_requests parse_state stf onchain' off"
  by (simp add: guest_main_def)

section \<open>A batch settles\<close>

text \<open>The result of an offchain job as the contract checks it, for a program that commits \<open>out\<close>.\<close>

lemma expected_result_offchain:
  "jb_request_type j = Offchain sig \<Longrightarrow> expected_result L j out sidecar = lib_encode_offchain_result L
     \<lparr>orm_job_id = jb_id j, orm_onchain_input_hash = lib_keccak256 L (jb_onchain_input j),
      orm_offchain_input_hash = lib_keccak256 L (jb_offchain_input j), orm_max_cycles = jb_max_cycles j,
      orm_program_id = jb_program_id j, orm_raw_output = out,
      orm_versioned_blob_hashes = (case sidecar of None \<Rightarrow> [] | Some s \<Rightarrow> lib_versioned_hashes L s)\<rparr>"
  by (simp add: expected_result_def)


text \<open>
  A node whose one batch is a deposit, and libraries with a zkVM that runs the guest program: the
  public values are the output state root, and Borsh is enough for this batch.
\<close>

definition settle_env :: batch_env where
  "settle_env = sample_env\<lparr>be_keccak256 := be_word, be_sign := (\<lambda>_. [1]), be_program_id := [3]\<rparr>"

definition settle_guest :: "bytes \<Rightarrow> bytes \<Rightarrow> stateful_app_result option" where
  "settle_guest = guest_main (\<lambda>_. Some [sample_deposit]) (\<lambda>_. Some default_clob_state)
     (zkvm_stf (\<lambda>s. be_keccak256 settle_env (be_state_borsh settle_env s)) (\<lambda>_. []) (\<lambda>xs. xs) (\<lambda>xs. xs) (\<lambda>xs. xs))"

definition settle_libs :: "bytes exec_libs" where
  "settle_libs = sample_libs\<lparr>lib_run_fast := (\<lambda>p c ins.
     map_option (\<lambda>r. be_bytes 32 (sar_output_state_root r)) (settle_guest (ins ! 0) (ins ! 1)))\<rparr>"

definition settle_db :: db where
  "settle_db = CoprocDb.empty_db\<lparr>db_programs := [(3, \<lparr>pm_vm_type = 0, pm_program_bytes = [0, 7]\<rparr>)]\<rparr>"


end
