(* ===== verification/JobManager.thy ===== *)
theory JobManager
  imports Frontend
begin

text \<open>
  The contracts the node talks to: the job manager (\<^verbatim>\<open>contracts/src/coprocessor/JobManager.sol\<close>) with
  the consumer contracts behind it (\<^verbatim>\<open>Consumer.sol\<close>, \<^verbatim>\<open>StatefulConsumer.sol\<close>,
  \<^verbatim>\<open>SingleOffchainSigner.sol\<close>). A function returns the new state or the reason of its revert. The
  job manager calls the consumer whose address a job carries; the consumers are those that
  registered this job manager, so \<open>onlyJobManager\<close> holds. What an application does with a result, the
  ABI decoders, Keccak and the recovery of signers are parameters.
\<close>

section \<open>State\<close>

definition JOB_STATE_PENDING :: u8 where "JOB_STATE_PENDING = 1"
definition JOB_STATE_CANCELLED :: u8 where "JOB_STATE_CANCELLED = 2"
definition JOB_STATE_COMPLETED :: u8 where "JOB_STATE_COMPLETED = 3"

lemmas job_states = JOB_STATE_PENDING_def JOB_STATE_CANCELLED_def JOB_STATE_COMPLETED_def

record job_metadata =
  md_program_id :: bytes
  md_max_cycles :: u64
  md_consumer :: address
  md_status :: u8

text \<open>An empty item of a mapping.\<close>

definition no_job :: job_metadata where
  "no_job = \<lparr>md_program_id = [], md_max_cycles = 0, md_consumer = 0, md_status = 0\<rparr>"

text \<open>A stateful consumer with one signer; \<open>'a\<close> is what its application stores.\<close>

record 'a consumer =
  cn_max_nonce :: u64
  cn_onchain_input :: "b256 \<Rightarrow> bytes"
  cn_offchain_input_hash :: "b256 \<Rightarrow> b256"
  cn_latest_state_root :: b256
  cn_offchain_signer :: address
  cn_app :: 'a

record 'a job_manager =
  jm_owner :: address
  jm_relayer :: address
  jm_operator :: address
  jm_jobs :: "b256 \<Rightarrow> job_metadata"
  jm_blobhashes :: "b256 \<Rightarrow> b256 list"
  jm_consumers :: "address \<Rightarrow> 'a consumer"

text \<open>
  \<open>cl_recover\<close> is \<open>tryRecover\<close> on the hash of the signed message; a decoder reverts with \<open>None\<close>.
\<close>

record contract_libs =
  cl_keccak256 :: "bytes \<Rightarrow> b256"
  cl_recover :: "bytes \<Rightarrow> bytes \<Rightarrow> address"
  cl_decode_request :: "bytes \<Rightarrow> offchain_job_request option"
  cl_decode_result :: "bytes \<Rightarrow> result_with_metadata option"
  cl_decode_offchain_result :: "bytes \<Rightarrow> offchain_result_with_metadata option"
  cl_decode_stateful_input :: "bytes \<Rightarrow> stateful_app_onchain_input option"
  cl_decode_stateful_result :: "bytes \<Rightarrow> stateful_app_result option"

section \<open>Consumers\<close>

definition update_latest_nonce :: "u64 \<Rightarrow> 'a consumer \<Rightarrow> 'a consumer" where
  "update_latest_nonce nonce c = (if nonce > cn_max_nonce c then c\<lparr>cn_max_nonce := nonce\<rparr> else c)"

definition set_inputs_for_job :: "b256 \<Rightarrow> bytes \<Rightarrow> b256 \<Rightarrow> 'a consumer \<Rightarrow> 'a consumer" where
  "set_inputs_for_job job_id onchain_input offchain_input_hash c =
     c\<lparr>cn_onchain_input := (cn_onchain_input c)(job_id := onchain_input),
       cn_offchain_input_hash := (cn_offchain_input_hash c)(job_id := offchain_input_hash)\<rparr>"

text \<open>\<open>maxNonce + 1\<close> is checked: \<open>None\<close> is its revert.\<close>

definition get_next_nonce :: "'a consumer \<Rightarrow> u64 option" where
  "get_next_nonce c = (if cn_max_nonce c = - 1 then None else Some (cn_max_nonce c + 1))"

definition is_valid_signature :: "contract_libs \<Rightarrow> 'a consumer \<Rightarrow> bytes \<Rightarrow> bytes \<Rightarrow> bool" where
  "is_valid_signature C c message signature \<longleftrightarrow> cl_recover C message signature = cn_offchain_signer c"

text \<open>\<open>StatefulConsumer.receiveResult\<close>; \<open>app\<close> is the application's \<open>_receiveResult\<close>.\<close>

definition stateful_receive_result :: "contract_libs \<Rightarrow> ('a \<Rightarrow> bytes \<Rightarrow> string + 'a) \<Rightarrow> 'a consumer \<Rightarrow> b256
    \<Rightarrow> bytes \<Rightarrow> string + 'a consumer" where
  "stateful_receive_result C app c job_id result =
     (case cl_decode_stateful_result C result of None \<Rightarrow> Inl ''abi.decode''
      | Some stateful_result \<Rightarrow>
          (case cl_decode_stateful_input C (cn_onchain_input c job_id) of None \<Rightarrow> Inl ''abi.decode''
           | Some stateful_input \<Rightarrow>
               if sai_input_state_root stateful_input \<noteq> cn_latest_state_root c
               then Inl ''Invalid state root passed as input''
               else case app (cn_app c) (sar_result stateful_result) of
                 Inl e \<Rightarrow> Inl e
               | Inr a \<Rightarrow> Inr (c\<lparr>cn_latest_state_root := sar_output_state_root stateful_result, cn_app := a\<rparr>)))"

section \<open>The job manager\<close>

text \<open>\<open>_createJob\<close>.\<close>

definition create_entry :: "u64 \<Rightarrow> b256 \<Rightarrow> bytes \<Rightarrow> u64 \<Rightarrow> address \<Rightarrow> 'a job_manager \<Rightarrow> string + 'a job_manager" where
  "create_entry nonce job_id program_id max_cycles consumer m =
     (if md_status (jm_jobs m job_id) \<noteq> 0
      then Inl ''JobManager.createJob: job already exists with this nonce and consumer''
      else Inr (m\<lparr>jm_jobs := (jm_jobs m)(job_id := \<lparr>md_program_id = program_id, md_max_cycles = max_cycles,
               md_consumer = consumer, md_status = JOB_STATE_PENDING\<rparr>),
             jm_consumers := (jm_consumers m)(consumer := update_latest_nonce nonce (jm_consumers m consumer))\<rparr>))"

text \<open>\<open>createJob\<close>, called by a consumer: the new state and the event.\<close>

definition create_job :: "contract_libs \<Rightarrow> address \<Rightarrow> u64 \<Rightarrow> bytes \<Rightarrow> bytes \<Rightarrow> u64 \<Rightarrow> 'a job_manager
    \<Rightarrow> string + 'a job_manager \<times> job_created" where
  "create_job C sender nonce program_id onchain_input max_cycles m =
     (let job_id = get_job_id (cl_keccak256 C) nonce sender in
      case create_entry nonce job_id program_id max_cycles sender m of
        Inl e \<Rightarrow> Inl e
      | Inr m' \<Rightarrow> Inr (m', \<lparr>jc_job_id = job_id, jc_nonce = nonce, jc_consumer = sender,
          jc_max_cycles = max_cycles, jc_program_id = program_id, jc_onchain_input = onchain_input\<rparr>))"

text \<open>\<open>Consumer.requestJob\<close> of the consumer \<open>a\<close>.\<close>

definition consumer_request_job :: "contract_libs \<Rightarrow> address \<Rightarrow> bytes \<Rightarrow> bytes \<Rightarrow> u64 \<Rightarrow> 'a job_manager
    \<Rightarrow> string + 'a job_manager \<times> job_created" where
  "consumer_request_job C a program_id onchain_input max_cycles m =
     (case get_next_nonce (jm_consumers m a) of
        None \<Rightarrow> Inl ''overflow''
      | Some nonce \<Rightarrow>
          (case create_job C a nonce program_id onchain_input max_cycles m of
             Inl e \<Rightarrow> Inl e
           | Inr (m', ev) \<Rightarrow>
               (let c = jm_consumers m' a in
                Inr (m'\<lparr>jm_consumers := (jm_consumers m')(a := c\<lparr>cn_onchain_input :=
                       (cn_onchain_input c)(jc_job_id ev := onchain_input)\<rparr>)\<rparr>, ev))))"

definition cancel_job :: "address \<Rightarrow> b256 \<Rightarrow> 'a job_manager \<Rightarrow> string + 'a job_manager" where
  "cancel_job sender job_id m =
     (let job = jm_jobs m job_id in
      if sender \<noteq> md_consumer job \<and> sender \<noteq> jm_owner m
      then Inl ''JobManager.cancelJob: caller is not the job consumer or JobManager owner''
      else if md_status job \<noteq> JOB_STATE_PENDING
      then Inl ''JobManager.cancelJob: job is not in pending state''
      else Inr (m\<lparr>jm_jobs := (jm_jobs m)(job_id := job\<lparr>md_status := JOB_STATE_CANCELLED\<rparr>)\<rparr>))"

text \<open>\<open>_submitResult\<close>; \<open>recv\<close> is the consumers' \<open>receiveResult\<close>.\<close>

definition finish_job :: "contract_libs \<Rightarrow> ('a consumer \<Rightarrow> b256 \<Rightarrow> bytes \<Rightarrow> string + 'a consumer) \<Rightarrow> b256 \<Rightarrow> u64
    \<Rightarrow> b256 \<Rightarrow> bytes \<Rightarrow> bytes \<Rightarrow> 'a job_manager \<Rightarrow> string + 'a job_manager" where
  "finish_job C recv job_id max_cycles onchain_input_hash program_id result m =
     (let job = jm_jobs m job_id; c = jm_consumers m (md_consumer job) in
      if md_status job \<noteq> JOB_STATE_PENDING then Inl ''JobManager.submitResult: job is not in pending state''
      else if cl_keccak256 C (cn_onchain_input c job_id) \<noteq> onchain_input_hash
      then Inl ''JobManager.submitResult: onchain input signed by coprocessor doesn't match onchain input submitted with job''
      else if cl_keccak256 C (md_program_id job) \<noteq> cl_keccak256 C program_id
      then Inl ''JobManager.submitResult: program ID signed by coprocessor doesn't match program ID submitted with job''
      else if md_max_cycles job \<noteq> max_cycles
      then Inl ''JobManager.submitResult: max cycles signed by coprocessor doesn't match max cycles submitted with job''
      else case recv c job_id result of
        Inl e \<Rightarrow> Inl e
      | Inr c' \<Rightarrow> Inr (m\<lparr>jm_jobs := (jm_jobs m)(job_id := job\<lparr>md_status := JOB_STATE_COMPLETED\<rparr>),
            jm_consumers := (jm_consumers m)(md_consumer job := c')\<rparr>))"

definition submit_result :: "contract_libs \<Rightarrow> ('a consumer \<Rightarrow> b256 \<Rightarrow> bytes \<Rightarrow> string + 'a consumer) \<Rightarrow> address
    \<Rightarrow> bytes \<Rightarrow> bytes \<Rightarrow> 'a job_manager \<Rightarrow> string + 'a job_manager" where
  "submit_result C recv sender result_with_metadata signature m =
     (if sender \<noteq> jm_relayer m then Inl ''JobManager.submitResult: caller is not the relayer''
      else if cl_recover C result_with_metadata signature \<noteq> jm_operator m
      then Inl ''JobManager.submitResult: Invalid signature''
      else case cl_decode_result C result_with_metadata of
        None \<Rightarrow> Inl ''abi.decode''
      | Some r \<Rightarrow> finish_job C recv (rm_job_id r) (rm_max_cycles r) (rm_onchain_input_hash r)
          (rm_program_id r) (rm_raw_output r) m)"

text \<open>The versioned hashes of a job are stored when there are any.\<close>

definition record_hashes :: "b256 \<Rightarrow> b256 list \<Rightarrow> 'a job_manager \<Rightarrow> 'a job_manager" where
  "record_hashes job_id hashes m =
     (if hashes \<noteq> [] then m\<lparr>jm_blobhashes := (jm_blobhashes m)(job_id := hashes)\<rparr> else m)"

text \<open>\<open>blobhash\<close> is the opcode: the versioned hashes of the transaction's blobs, and 0 beyond them.\<close>

definition submit_result_for_offchain_job :: "contract_libs
    \<Rightarrow> ('a consumer \<Rightarrow> b256 \<Rightarrow> bytes \<Rightarrow> string + 'a consumer) \<Rightarrow> (nat \<Rightarrow> b256)
    \<Rightarrow> bytes \<Rightarrow> bytes \<Rightarrow> bytes \<Rightarrow> bytes \<Rightarrow> 'a job_manager \<Rightarrow> string + 'a job_manager" where
  "submit_result_for_offchain_job C recv blobhash offchain_result_with_metadata signature_on_result
     job_request signature_on_request m =
     (case cl_decode_request C job_request of None \<Rightarrow> Inl ''abi.decode''
      | Some request \<Rightarrow>
          (let job_id = get_job_id (cl_keccak256 C) (ojr_nonce request) (ojr_consumer request) in
           if \<not> is_valid_signature C (jm_consumers m (ojr_consumer request)) job_request signature_on_request
           then Inl ''JobManager.submitResultForOffchainJob: Invalid signature on job request''
           else if cl_recover C offchain_result_with_metadata signature_on_result \<noteq> jm_operator m
           then Inl ''JobManager.submitResultForOffchainJob: Invalid signature on result''
           else case cl_decode_offchain_result C offchain_result_with_metadata of None \<Rightarrow> Inl ''abi.decode''
           | Some result \<Rightarrow>
               (let hashes = orm_versioned_blob_hashes result in
                if job_id \<noteq> orm_job_id result
                then Inl ''JobManager.submitResultForOffchainJob: job ID signed by coprocessor doesn't match job ID of job request''
                else if ojr_offchain_input_hash request \<noteq> orm_offchain_input_hash result
                then Inl ''JobManager.submitResultForOffchainJob: offchain input hash signed by coprocessor doesn't match offchain input hash of job request''
                else if \<not> (\<forall>i < length hashes. blobhash i = hashes ! i)
                then Inl ''JobManager.submitResultForOffchainJob: given blob hash does not match''
                else
                  (case create_entry (ojr_nonce request) job_id (ojr_program_id request)
                          (ojr_max_cycles request) (ojr_consumer request) (record_hashes job_id hashes m) of
                     Inl e \<Rightarrow> Inl e
                   | Inr m \<Rightarrow>
                       (let a = ojr_consumer request;
                            m = m\<lparr>jm_consumers := (jm_consumers m)(a := set_inputs_for_job job_id
                              (ojr_onchain_input request) (ojr_offchain_input_hash request) (jm_consumers m a))\<rparr>
                        in finish_job C recv job_id (orm_max_cycles result) (orm_onchain_input_hash result)
                             (orm_program_id result) (orm_raw_output result) m)))))"

definition set_relayer :: "address \<Rightarrow> address \<Rightarrow> 'a job_manager \<Rightarrow> string + 'a job_manager" where
  "set_relayer sender relayer m = (if sender \<noteq> jm_owner m then Inl ''Ownable: caller is not the owner'' else Inr (m\<lparr>jm_relayer := relayer\<rparr>))"

definition set_coprocessor_operator :: "address \<Rightarrow> address \<Rightarrow> 'a job_manager \<Rightarrow> string + 'a job_manager" where
  "set_coprocessor_operator sender operator m =
     (if sender \<noteq> jm_owner m then Inl ''Ownable: caller is not the owner'' else Inr (m\<lparr>jm_operator := operator\<rparr>))"

section \<open>The life of a job\<close>

text \<open>
  The transactions that do not revert, with the ids of the jobs whose result was delivered to a
  consumer.
\<close>

inductive jm_step :: "contract_libs \<Rightarrow> ('a consumer \<Rightarrow> b256 \<Rightarrow> bytes \<Rightarrow> string + 'a consumer)
    \<Rightarrow> 'a job_manager \<Rightarrow> b256 list \<Rightarrow> 'a job_manager \<Rightarrow> bool"
  for C recv where
  jm_request: "consumer_request_job C a pid inp cyc m = Inr (m', ev) \<Longrightarrow> jm_step C recv m [] m'"
| jm_cancel: "cancel_job sender i m = Inr m' \<Longrightarrow> jm_step C recv m [] m'"
| jm_result: "submit_result C recv sender res sig m = Inr m' \<Longrightarrow> cl_decode_result C res = Some r \<Longrightarrow>
    jm_step C recv m [rm_job_id r] m'"
| jm_offchain: "submit_result_for_offchain_job C recv bh res sig req rsig m = Inr m' \<Longrightarrow>
    cl_decode_offchain_result C res = Some r \<Longrightarrow> jm_step C recv m [orm_job_id r] m'"
| jm_set_relayer: "set_relayer sender x m = Inr m' \<Longrightarrow> jm_step C recv m [] m'"
| jm_set_operator: "set_coprocessor_operator sender x m = Inr m' \<Longrightarrow> jm_step C recv m [] m'"

inductive_cases jm_stepE: "jm_step C recv m ds m'"

inductive jm_reach :: "contract_libs \<Rightarrow> ('a consumer \<Rightarrow> b256 \<Rightarrow> bytes \<Rightarrow> string + 'a consumer)
    \<Rightarrow> 'a job_manager \<Rightarrow> b256 list \<Rightarrow> bool"
  for C recv where
  jm_init: "jm_jobs m = (\<lambda>_. no_job) \<Longrightarrow> jm_reach C recv m []"
| jm_next: "jm_reach C recv m ds \<Longrightarrow> jm_step C recv m ds' m' \<Longrightarrow> jm_reach C recv m' (ds @ ds')"

text \<open>
  What holds of the jobs: a completed job is one whose result was delivered, and a job has the id of
  a nonce that its consumer has seen.
\<close>

definition jm_ok :: "contract_libs \<Rightarrow> 'a job_manager \<Rightarrow> b256 list \<Rightarrow> bool" where
  "jm_ok C m ds \<longleftrightarrow> distinct ds \<and> (\<forall>i. i \<in> set ds \<longleftrightarrow> md_status (jm_jobs m i) = JOB_STATE_COMPLETED)
     \<and> (\<forall>i. md_status (jm_jobs m i) \<noteq> 0 \<longrightarrow>
          (\<exists>n. i = get_job_id (cl_keccak256 C) n (md_consumer (jm_jobs m i))
             \<and> n \<le> cn_max_nonce (jm_consumers m (md_consumer (jm_jobs m i)))))"

lemma create_entry_Inr:
  "create_entry nonce i pid cyc a m = Inr m' \<longleftrightarrow> md_status (jm_jobs m i) = 0 \<and>
     m' = m\<lparr>jm_jobs := (jm_jobs m)(i := \<lparr>md_program_id = pid, md_max_cycles = cyc, md_consumer = a,
              md_status = JOB_STATE_PENDING\<rparr>),
            jm_consumers := (jm_consumers m)(a := update_latest_nonce nonce (jm_consumers m a))\<rparr>"
  by (auto simp: create_entry_def)

lemma finish_job_Inr:
  "finish_job C recv i cyc h pid r m = Inr m' \<longleftrightarrow>
     (let job = jm_jobs m i; c = jm_consumers m (md_consumer job) in
      md_status job = JOB_STATE_PENDING \<and> cl_keccak256 C (cn_onchain_input c i) = h
      \<and> cl_keccak256 C (md_program_id job) = cl_keccak256 C pid \<and> md_max_cycles job = cyc
      \<and> (\<exists>c'. recv c i r = Inr c' \<and>
           m' = m\<lparr>jm_jobs := (jm_jobs m)(i := job\<lparr>md_status := JOB_STATE_COMPLETED\<rparr>),
                  jm_consumers := (jm_consumers m)(md_consumer job := c')\<rparr>))"
  by (auto simp: finish_job_def Let_def split: sum.splits)

lemma submit_offchain_finish:
  assumes "submit_result_for_offchain_job C recv bh res sig req rsig m = Inr m'"
    and "cl_decode_offchain_result C res = Some r"
  obtains q :: offchain_job_request and m1 where "orm_job_id r = get_job_id (cl_keccak256 C) (ojr_nonce q) (ojr_consumer q)"
    and "create_entry (ojr_nonce q) (orm_job_id r) (ojr_program_id q) (ojr_max_cycles q) (ojr_consumer q)
      (record_hashes (orm_job_id r) (orm_versioned_blob_hashes r) m) = Inr m1"
    and "finish_job C recv (orm_job_id r) (orm_max_cycles r) (orm_onchain_input_hash r) (orm_program_id r)
      (orm_raw_output r) (m1\<lparr>jm_consumers := (jm_consumers m1)(ojr_consumer q := set_inputs_for_job (orm_job_id r)
        (ojr_onchain_input q) (ojr_offchain_input_hash q) (jm_consumers m1 (ojr_consumer q)))\<rparr>) = Inr m'"
proof -
  obtain q where q: "cl_decode_request C req = Some q"
    using assms by (auto simp: submit_result_for_offchain_job_def split: option.splits)
  then have i: "get_job_id (cl_keccak256 C) (ojr_nonce q) (ojr_consumer q) = orm_job_id r"
    using assms by (auto simp: submit_result_for_offchain_job_def Let_def split: if_splits)
  with q assms obtain m1 where "create_entry (ojr_nonce q) (orm_job_id r) (ojr_program_id q) (ojr_max_cycles q)
      (ojr_consumer q) (record_hashes (orm_job_id r) (orm_versioned_blob_hashes r) m) = Inr m1"
    by (auto simp: submit_result_for_offchain_job_def Let_def split: if_splits sum.splits)
  with q i assms that [of q m1] show thesis
    by (auto simp: submit_result_for_offchain_job_def Let_def split: if_splits)
qed

lemma update_latest_nonce_sel [simp]:
  "cn_max_nonce (update_latest_nonce n c) = max n (cn_max_nonce c)"
  "cn_onchain_input (update_latest_nonce n c) = cn_onchain_input c"
  "cn_offchain_signer (update_latest_nonce n c) = cn_offchain_signer c"
  "cn_latest_state_root (update_latest_nonce n c) = cn_latest_state_root c"
  "cn_app (update_latest_nonce n c) = cn_app c"
  by (auto simp: update_latest_nonce_def max_def)

text \<open>The contract between the job manager and a consumer: receiving a result touches neither the nonce nor the inputs.\<close>

locale consumer_contract =
  fixes recv :: "'a consumer \<Rightarrow> b256 \<Rightarrow> bytes \<Rightarrow> string + 'a consumer"
  assumes recv_frame: "recv c i r = Inr c' \<Longrightarrow> cn_max_nonce c' = cn_max_nonce c
      \<and> cn_onchain_input c' = cn_onchain_input c \<and> cn_offchain_signer c' = cn_offchain_signer c"
begin

lemma jm_ok_create:
  assumes "jm_ok C m ds" and "create_entry n (get_job_id (cl_keccak256 C) n a) pid cyc a m = Inr m'"
  shows "jm_ok C m' ds"
  using assms unfolding jm_ok_def create_entry_Inr
  by (auto simp: job_states le_max_iff_disj)

lemma jm_ok_finish:
  assumes "jm_ok C m ds" and "finish_job C recv i cyc h pid r m = Inr m'"
  shows "jm_ok C m' (ds @ [i])"
proof -
  let ?job = "jm_jobs m i"
  obtain c' where c: "md_status ?job = JOB_STATE_PENDING" "recv (jm_consumers m (md_consumer ?job)) i r = Inr c'"
    "m' = m\<lparr>jm_jobs := (jm_jobs m)(i := ?job\<lparr>md_status := JOB_STATE_COMPLETED\<rparr>),
            jm_consumers := (jm_consumers m)(md_consumer ?job := c')\<rparr>"
    using assms(2) by (auto simp: finish_job_Inr Let_def)
  have "cn_max_nonce c' = cn_max_nonce (jm_consumers m (md_consumer ?job))" using recv_frame [OF c(2)] by simp
  moreover have "i \<notin> set ds" using assms(1) c(1) by (auto simp: jm_ok_def job_states)
  ultimately show ?thesis using assms(1) c(1) unfolding jm_ok_def c(3)
    by (auto simp: job_states) metis
qed

lemma jm_ok_cong:
  assumes "jm_ok C m ds" and "jm_jobs m' = jm_jobs m"
    and "\<And>a. cn_max_nonce (jm_consumers m' a) = cn_max_nonce (jm_consumers m a)"
  shows "jm_ok C m' ds"
  using assms by (simp add: jm_ok_def)

lemma jm_ok_step:
  assumes "jm_step C recv m ds' m'" and "jm_ok C m ds"
  shows "jm_ok C m' (ds @ ds')"
  using assms
proof (induction rule: jm_step.induct)
  case (jm_request a pid inp cyc m m' ev)
  then obtain n m1 where "create_entry n (get_job_id (cl_keccak256 C) n a) pid cyc a m = Inr m1"
    and m': "m' = m1\<lparr>jm_consumers := (jm_consumers m1)(a := (jm_consumers m1 a)\<lparr>cn_onchain_input :=
               (cn_onchain_input (jm_consumers m1 a))(jc_job_id ev := inp)\<rparr>)\<rparr>"
    by (auto simp: consumer_request_job_def create_job_def Let_def split: option.splits sum.splits)
  with jm_ok_create [OF jm_request.prems] have "jm_ok C m1 ds" by blast
  then show ?case unfolding m' by (auto intro: jm_ok_cong [of C m1])
next
  case (jm_cancel sender i m m')
  then show ?case by (auto simp: cancel_job_def jm_ok_def job_states Let_def split: if_splits)
next
  case (jm_result sender res sig m m' r)
  then have "finish_job C recv (rm_job_id r) (rm_max_cycles r) (rm_onchain_input_hash r) (rm_program_id r)
      (rm_raw_output r) m = Inr m'"
    by (simp add: submit_result_def split: if_splits)
  with jm_result.prems show ?case by (rule jm_ok_finish)
next
  case (jm_offchain bh res sig req rsig m m' r)
  obtain q :: offchain_job_request and m1 where q: "orm_job_id r = get_job_id (cl_keccak256 C) (ojr_nonce q) (ojr_consumer q)"
    and c: "create_entry (ojr_nonce q) (orm_job_id r) (ojr_program_id q) (ojr_max_cycles q) (ojr_consumer q)
      (record_hashes (orm_job_id r) (orm_versioned_blob_hashes r) m) = Inr m1"
    and f: "finish_job C recv (orm_job_id r) (orm_max_cycles r) (orm_onchain_input_hash r) (orm_program_id r)
      (orm_raw_output r) (m1\<lparr>jm_consumers := (jm_consumers m1)(ojr_consumer q := set_inputs_for_job (orm_job_id r)
        (ojr_onchain_input q) (ojr_offchain_input_hash q) (jm_consumers m1 (ojr_consumer q)))\<rparr>) = Inr m'"
    by (rule submit_offchain_finish [OF jm_offchain.hyps])
  have "jm_ok C (record_hashes (orm_job_id r) (orm_versioned_blob_hashes r) m) ds"
    using jm_offchain.prems by (rule jm_ok_cong) (simp_all add: record_hashes_def)
  with c q have "jm_ok C m1 ds" using jm_ok_create [of C _ ds "ojr_nonce q" "ojr_consumer q"] by metis
  then have "jm_ok C (m1\<lparr>jm_consumers := (jm_consumers m1)(ojr_consumer q := set_inputs_for_job (orm_job_id r)
        (ojr_onchain_input q) (ojr_offchain_input_hash q) (jm_consumers m1 (ojr_consumer q)))\<rparr>) ds"
    by (rule jm_ok_cong) (simp_all add: set_inputs_for_job_def)
  from jm_ok_finish [OF this f] show ?case .
next
  case (jm_set_relayer sender x m m')
  then show ?case by (auto simp: set_relayer_def jm_ok_def split: if_splits)
next
  case (jm_set_operator sender x m m')
  then show ?case by (auto simp: set_coprocessor_operator_def jm_ok_def split: if_splits)
qed

lemma jm_reach_ok: "jm_reach C recv m ds \<Longrightarrow> jm_ok C m ds"
proof (induction rule: jm_reach.induct)
  case (jm_init m)
  then show ?case by (simp add: jm_ok_def no_job_def job_states)
next
  case (jm_next m ds ds' m')
  then show ?case by (blast intro: jm_ok_step)
qed

end

text \<open>The stateful consumers keep the contract, whatever their application does.\<close>

lemma stateful_receive_Inr:
  "stateful_receive_result C app c i r = Inr c' \<longleftrightarrow>
     (\<exists>res inp a. cl_decode_stateful_result C r = Some res
        \<and> cl_decode_stateful_input C (cn_onchain_input c i) = Some inp
        \<and> sai_input_state_root inp = cn_latest_state_root c \<and> app (cn_app c) (sar_result res) = Inr a
        \<and> c' = c\<lparr>cn_latest_state_root := sar_output_state_root res, cn_app := a\<rparr>)"
  by (auto simp: stateful_receive_result_def split: option.splits sum.splits if_splits)

interpretation stateful: consumer_contract "stateful_receive_result C app" for C app
  by unfold_locales (auto simp: stateful_receive_Inr)

section \<open>Properties\<close>

text \<open>
  C11. Every result is delivered once: in any run of the job manager, over all kinds of transactions and
  all consumers, the jobs whose result a consumer has received are pairwise different, and they are
  exactly the completed jobs; so a completed or cancelled job gets no further result.
\<close>

theorem results_delivered_once:
  assumes "jm_reach C (stateful_receive_result C app) m ds"
  shows "distinct ds \<and> {i. md_status (jm_jobs m i) = JOB_STATE_COMPLETED} = set ds"
  using stateful.jm_reach_ok [OF assms] by (auto simp: jm_ok_def)

text \<open>A consumer requests a job and gets its result.\<close>

definition sample_contracts :: contract_libs where
  "sample_contracts =
     \<lparr>cl_keccak256 = be_word, cl_recover = (\<lambda>_ _. 9), cl_decode_request = (\<lambda>_. None),
      cl_decode_result = (\<lambda>bs. Some \<lparr>rm_job_id = get_job_id be_word 1 8, rm_onchain_input_hash = be_word [6],
        rm_max_cycles = 5, rm_program_id = [3], rm_raw_output = bs\<rparr>),
      cl_decode_offchain_result = (\<lambda>_. None),
      cl_decode_stateful_input = (\<lambda>bs. Some \<lparr>sai_input_state_root = 0, sai_onchain_input = bs\<rparr>),
      cl_decode_stateful_result = (\<lambda>bs. Some \<lparr>sar_output_state_root = 1, sar_result = bs\<rparr>)\<rparr>"

definition sample_manager :: "unit job_manager" where
  "sample_manager = \<lparr>jm_owner = 1, jm_relayer = 2, jm_operator = 9, jm_jobs = (\<lambda>_. no_job), jm_blobhashes = (\<lambda>_. []),
     jm_consumers = (\<lambda>_. \<lparr>cn_max_nonce = 0, cn_onchain_input = (\<lambda>_. []), cn_offchain_input_hash = (\<lambda>_. 0),
       cn_latest_state_root = 0, cn_offchain_signer = 9, cn_app = ()\<rparr>)\<rparr>"

theorem results_delivered_once_witness:
  "\<exists>m :: unit job_manager. jm_reach sample_contracts (stateful_receive_result sample_contracts (\<lambda>a _. Inr a)) m [get_job_id be_word 1 8]
    \<and> {i. md_status (jm_jobs m i) = JOB_STATE_COMPLETED} = {get_job_id be_word 1 8}"
proof -
  let ?recv = "stateful_receive_result sample_contracts (\<lambda>a _. Inr a) :: unit consumer \<Rightarrow> _"
  have 0: "jm_reach sample_contracts ?recv sample_manager []" by (rule jm_init) (simp add: sample_manager_def)
  obtain m1 ev where 1: "consumer_request_job sample_contracts 8 [3] [6] 5 sample_manager = Inr (m1, ev)"
    and m1: "jm_jobs m1 = (\<lambda>_. no_job)(get_job_id be_word 1 8 := \<lparr>md_program_id = [3], md_max_cycles = 5,
      md_consumer = 8, md_status = JOB_STATE_PENDING\<rparr>)" "jm_relayer m1 = 2" "jm_operator m1 = 9"
      "cn_onchain_input (jm_consumers m1 8) (get_job_id be_word 1 8) = [6]"
      "cn_latest_state_root (jm_consumers m1 8) = 0"
    by (simp add: consumer_request_job_def get_next_nonce_def create_job_def create_entry_def Let_def
        sample_manager_def sample_contracts_def no_job_def)
  obtain m2 where 2: "submit_result sample_contracts ?recv 2 [] [] m1 = Inr m2"
    by (simp add: submit_result_def finish_job_def m1 sample_contracts_def stateful_receive_result_def Let_def)
  have "jm_step sample_contracts ?recv m1 [rm_job_id (the (cl_decode_result sample_contracts []))] m2"
    by (rule jm_result [OF 2]) (simp add: sample_contracts_def)
  with jm_next [OF 0 jm_request [OF 1]] have r: "jm_reach sample_contracts ?recv m2 [get_job_id be_word 1 8]"
    by (auto dest: jm_next simp: sample_contracts_def)
  from results_delivered_once [OF r] r show ?thesis by auto
qed

text \<open>
  A consumer can always request the next job: no job has the id of its next nonce, if Keccak does not
  collide on what job ids are hashed from.
\<close>

theorem next_nonce_is_free:
  assumes "\<And>xs ys. cl_keccak256 C xs = cl_keccak256 C ys \<Longrightarrow> length xs = 28 \<Longrightarrow> length ys = 28 \<Longrightarrow> xs = ys"
    and "jm_reach C (stateful_receive_result C app) m ds" and "get_next_nonce (jm_consumers m a) = Some n"
  shows "\<exists>m' ev. consumer_request_job C a pid inp cyc m = Inr (m', ev) \<and> jc_nonce ev = n"
proof -
  let ?i = "get_job_id (cl_keccak256 C) n a"
  have n: "cn_max_nonce (jm_consumers m a) < n"
  proof -
    have "cn_max_nonce (jm_consumers m a) \<noteq> - 1" and e: "n = cn_max_nonce (jm_consumers m a) + 1"
      using assms(3) by (auto simp: get_next_nonce_def split: if_splits)
    then show ?thesis unfolding e by (intro word_less_succ) (simp add: eq_neg_iff_add_eq_0 [symmetric])
  qed
  have "md_status (jm_jobs m ?i) = 0"
  proof (rule ccontr)
    assume "md_status (jm_jobs m ?i) \<noteq> 0"
    then obtain k b where k: "?i = get_job_id (cl_keccak256 C) k b" "k \<le> cn_max_nonce (jm_consumers m b)"
      using stateful.jm_reach_ok [OF assms(2), unfolded jm_ok_def, THEN conjunct2, THEN conjunct2] by meson
    have "n = k \<and> a = b" by (rule get_job_id_inj [OF assms(1) k(1)])
    with k(2) n show False by simp
  qed
  then show ?thesis
    using assms(3) by (simp add: consumer_request_job_def create_job_def create_entry_def Let_def)
qed

end
