(* ===== verification/Settlement.thy ===== *)
theory Settlement
  imports EndToEnd JobManager
begin

text \<open>
  The node and the contracts together: the job manager accepts what the node relays, for jobs that were
  requested offchain (\<open>server.rs\<close>) and onchain (\<open>event.rs\<close>), and the consumer of the CLOB accepts the
  results of the batches one after the other.
\<close>

section \<open>What the contract decodes\<close>

text \<open>The payload that the operator signs for an offchain job whose program commits \<open>raw\<close>.\<close>

definition offchain_result :: "'p exec_libs \<Rightarrow> job \<Rightarrow> bytes \<Rightarrow> offchain_result_with_metadata" where
  "offchain_result L j raw =
     \<lparr>orm_job_id = jb_id j, orm_onchain_input_hash = lib_keccak256 L (jb_onchain_input j),
      orm_offchain_input_hash = lib_keccak256 L (jb_offchain_input j), orm_max_cycles = jb_max_cycles j,
      orm_program_id = jb_program_id j, orm_raw_output = raw,
      orm_versioned_blob_hashes = (case expected_sidecar L j of None \<Rightarrow> [] | Some s \<Rightarrow> lib_versioned_hashes L s)\<rparr>"

definition onchain_result :: "'p exec_libs \<Rightarrow> job \<Rightarrow> bytes \<Rightarrow> result_with_metadata" where
  "onchain_result L j raw =
     \<lparr>rm_job_id = jb_id j, rm_onchain_input_hash = lib_keccak256 L (jb_onchain_input j),
      rm_max_cycles = jb_max_cycles j, rm_program_id = jb_program_id j, rm_raw_output = raw\<rparr>"

text \<open>The opcode \<open>blobhash\<close> in a transaction with this sidecar.\<close>

definition tx_blobhash :: "'p exec_libs \<Rightarrow> blob_sidecar option \<Rightarrow> nat \<Rightarrow> b256" where
  "tx_blobhash L sidecar i =
     (case sidecar of None \<Rightarrow> 0
      | Some sc \<Rightarrow> if i < length (lib_versioned_hashes L sc) then lib_versioned_hashes L sc ! i else 0)"

lemma request_job_fields:
  assumes "request_job L dec req = Inr j" and "dec (sr_request req) = Some r"
  shows "jb_id j = get_job_id (lib_keccak256 L) (ojr_nonce r) (ojr_consumer r)" "jb_nonce j = ojr_nonce r"
    "jb_max_cycles j = ojr_max_cycles r" "be_word (jb_consumer_address j) = ojr_consumer r"
    "jb_program_id j = ojr_program_id r" "jb_onchain_input j = ojr_onchain_input r"
    "lib_keccak256 L (jb_offchain_input j) = ojr_offchain_input_hash r" "jb_request_type j = Offchain (sr_signature req)"
    "relayable j"
  using assms be_word_be_bytes [of 20 "ojr_consumer r"] by (auto simp: request_job_def relayable_def split: if_splits)

text \<open>What a worker leaves of an offchain job, and the transaction that carries it.\<close>

lemma executed_offchain:
  assumes "executed L d j j'" and "jb_request_type j = Offchain rsig"
  obtains raw where "sp1_execute L (pm_program_bytes (the (get_program (lib_sha256 L) d (jb_program_id j))))
      (jb_onchain_input j) (jb_offchain_input j) (jb_max_cycles j) = Inr raw"
    "jb_result_with_metadata j' = lib_encode_offchain_result L (offchain_result L j raw)"
    "lib_sign_message L (jb_result_with_metadata j') = Some (jb_zkvm_operator_signature j')"
    "relay_call L j' = SubmitResultForOffchainJob (jb_result_with_metadata j') (jb_zkvm_operator_signature j')
       (lib_encode_request L \<lparr>ojr_nonce = jb_nonce j, ojr_max_cycles = jb_max_cycles j,
          ojr_consumer = be_word (jb_consumer_address j), ojr_program_id = jb_program_id j,
          ojr_onchain_input = jb_onchain_input j, ojr_offchain_input_hash = lib_keccak256 L (jb_offchain_input j)\<rparr>)
       rsig (case expected_sidecar L j of Some sc \<Rightarrow> if sc_blobs sc \<noteq> [] then Some sc else None | None \<Rightarrow> None)"
proof -
  note ex = assms(1) [unfolded executed_def]
  obtain p raw where p: "get_program (lib_sha256 L) d (jb_program_id j) = Some p"
    "sp1_execute L (pm_program_bytes p) (jb_onchain_input j) (jb_offchain_input j) (jb_max_cycles j) = Inr raw"
    "jb_result_with_metadata j' = expected_result L j raw (expected_sidecar L j)"
    using ex assms(2) by (auto simp: program_offchain_input_def)
  have "relay_call L j' = SubmitResultForOffchainJob (jb_result_with_metadata j') (jb_zkvm_operator_signature j')
       (lib_encode_request L \<lparr>ojr_nonce = jb_nonce j, ojr_max_cycles = jb_max_cycles j,
          ojr_consumer = be_word (jb_consumer_address j), ojr_program_id = jb_program_id j,
          ojr_onchain_input = jb_onchain_input j, ojr_offchain_input_hash = lib_keccak256 L (jb_offchain_input j)\<rparr>)
       rsig (case expected_sidecar L j of Some sc \<Rightarrow> if sc_blobs sc \<noteq> [] then Some sc else None | None \<Rightarrow> None)"
    using assms(2) by (subst ex [THEN conjunct1]) (simp add: relay_call_def)
  with p that [of raw] ex assms(2) show thesis
    by (simp add: expected_result_offchain offchain_result_def)
qed

text \<open>What the relayer sends for an executed job, whatever the chain answers.\<close>

lemma executed_relays:
  assumes "executed L d j j'" and "relayable j"
  shows "\<exists>eff. relay_once L j' a = Some (attempt_res a, eff) \<and> rl_calls eff = [relay_call L j']"
proof -
  have "relayable j'" using assms(2) by (subst assms(1) [unfolded executed_def, THEN conjunct1]) (simp add: relayable_def)
  from relay_once_relayable [OF this, of L a] show ?thesis by blast
qed

section \<open>Results of offchain jobs\<close>

text \<open>The state after a result of a new job was delivered to the consumer, which became \<open>c\<close>.\<close>

definition settled_job :: "b256 \<Rightarrow> bytes \<Rightarrow> u64 \<Rightarrow> address \<Rightarrow> 'a consumer \<Rightarrow> 'a job_manager \<Rightarrow> 'a job_manager" where
  "settled_job i pid cyc a c m =
     m\<lparr>jm_jobs := (jm_jobs m)(i := \<lparr>md_program_id = pid, md_max_cycles = cyc, md_consumer = a,
         md_status = JOB_STATE_COMPLETED\<rparr>), jm_consumers := (jm_consumers m)(a := c)\<rparr>"

lemma record_hashes_sel [simp]:
  "jm_jobs (record_hashes i hs m) = jm_jobs m" "jm_consumers (record_hashes i hs m) = jm_consumers m"
  "jm_operator (record_hashes i hs m) = jm_operator m"
  by (simp_all add: record_hashes_def)

text \<open>The checks of \<open>submitResultForOffchainJob\<close> on a request and a result that agree.\<close>

lemma submit_offchain_agreeing:
  fixes m :: "'a job_manager"
  assumes "cl_decode_request C payload = Some q" and "cl_decode_offchain_result C res = Some x"
    and "is_valid_signature C (jm_consumers m (ojr_consumer q)) payload rsig"
    and "cl_recover C res sig = jm_operator m"
    and i: "i = get_job_id (cl_keccak256 C) (ojr_nonce q) (ojr_consumer q)" and "orm_job_id x = i"
    and "orm_offchain_input_hash x = ojr_offchain_input_hash q"
    and "orm_onchain_input_hash x = cl_keccak256 C (ojr_onchain_input q)"
    and "orm_program_id x = ojr_program_id q" and "orm_max_cycles x = ojr_max_cycles q"
    and "\<forall>k < length (orm_versioned_blob_hashes x). bh k = orm_versioned_blob_hashes x ! k"
    and "md_status (jm_jobs m i) = 0"
  shows "submit_result_for_offchain_job C recv bh res sig payload rsig m =
    (case recv (set_inputs_for_job i (ojr_onchain_input q) (ojr_offchain_input_hash q)
            (update_latest_nonce (ojr_nonce q) (jm_consumers m (ojr_consumer q)))) i (orm_raw_output x) of
       Inl e \<Rightarrow> Inl e
     | Inr c \<Rightarrow> Inr (settled_job i (ojr_program_id q) (ojr_max_cycles q) (ojr_consumer q) c
         (record_hashes i (orm_versioned_blob_hashes x) m)))"
  using assms
  by (simp add: submit_result_for_offchain_job_def create_entry_def finish_job_def set_inputs_for_job_def
      settled_job_def Let_def split: sum.splits)

text \<open>
  C7. The contract accepts what the node relays for an offchain job: for a job that the gRPC server
  built from a request and a worker executed, the transaction that the relayer sends at each attempt passes every
  check of the job manager (both signatures, job id, input hashes, blob hashes, program id, cycles),
  and what becomes of it is decided by the consumer alone, which is given the output of the program.
  What is assumed: the codecs agree, the operator's and the requester's keys are those that the
  contracts know, and no job with this id is on chain.
\<close>

theorem offchain_result_accepted:
  fixes jm :: "'a job_manager"
  assumes job: "request_job L dec req = Inr j" "dec (sr_request req) = Some r" and run: "executed L d j j'"
    and codecs: "cl_decode_request C (lib_encode_request L r) = Some r"
      "\<And>raw. cl_decode_offchain_result C (lib_encode_offchain_result L (offchain_result L j raw)) =
         Some (offchain_result L j raw)"
      "cl_keccak256 C = lib_keccak256 L"
      "\<And>sc. sc_blobs sc = [] \<Longrightarrow> lib_versioned_hashes L sc = []"
    and keys: "\<And>m s. lib_sign_message L m = Some s \<Longrightarrow> cl_recover C m s = jm_operator jm"
      "cl_recover C (lib_encode_request L r) (sr_signature req) = cn_offchain_signer (jm_consumers jm (ojr_consumer r))"
    and fresh: "md_status (jm_jobs jm (jb_id j)) = 0"
  shows "\<exists>raw res sig payload rsig sidecar hashes.
    sp1_execute L (pm_program_bytes (the (get_program (lib_sha256 L) d (jb_program_id j)))) (jb_onchain_input j)
      (jb_offchain_input j) (jb_max_cycles j) = Inr raw
    \<and> (\<forall>a. \<exists>eff. relay_once L j' a = Some (attempt_res a, eff) \<and> rl_calls eff = [SubmitResultForOffchainJob res sig payload rsig sidecar])
    \<and> submit_result_for_offchain_job C recv (tx_blobhash L sidecar) res sig payload rsig jm =
        (case recv (set_inputs_for_job (jb_id j) (jb_onchain_input j) (lib_keccak256 L (jb_offchain_input j))
                (update_latest_nonce (jb_nonce j) (jm_consumers jm (ojr_consumer r)))) (jb_id j) raw of
           Inl e \<Rightarrow> Inl e
         | Inr c \<Rightarrow> Inr (settled_job (jb_id j) (jb_program_id j) (jb_max_cycles j) (ojr_consumer r) c
             (record_hashes (jb_id j) hashes jm)))"
proof -
  note f = request_job_fields [OF job]
  have q: "\<lparr>ojr_nonce = jb_nonce j, ojr_max_cycles = jb_max_cycles j, ojr_consumer = be_word (jb_consumer_address j),
      ojr_program_id = jb_program_id j, ojr_onchain_input = jb_onchain_input j,
      ojr_offchain_input_hash = lib_keccak256 L (jb_offchain_input j)\<rparr> = r"
    by (simp add: f)
  let ?sc = "case expected_sidecar L j of Some sc \<Rightarrow> if sc_blobs sc \<noteq> [] then Some sc else None | None \<Rightarrow> None"
  obtain raw where e: "sp1_execute L (pm_program_bytes (the (get_program (lib_sha256 L) d (jb_program_id j))))
      (jb_onchain_input j) (jb_offchain_input j) (jb_max_cycles j) = Inr raw"
    "jb_result_with_metadata j' = lib_encode_offchain_result L (offchain_result L j raw)"
    "lib_sign_message L (jb_result_with_metadata j') = Some (jb_zkvm_operator_signature j')"
    "relay_call L j' = SubmitResultForOffchainJob (jb_result_with_metadata j') (jb_zkvm_operator_signature j')
       (lib_encode_request L r) (sr_signature req) ?sc"
    by (rule executed_offchain [OF run f(8), unfolded q])
  let ?x = "offchain_result L j raw"
  have bh: "\<forall>k < length (orm_versioned_blob_hashes ?x). tx_blobhash L ?sc k = orm_versioned_blob_hashes ?x ! k"
    using codecs(4) by (auto simp: offchain_result_def tx_blobhash_def split: option.splits)
  have s: "is_valid_signature C (jm_consumers jm (ojr_consumer r)) (lib_encode_request L r) (sr_signature req)"
    using keys(2) by (simp add: is_valid_signature_def)
  have x: "cl_decode_offchain_result C (jb_result_with_metadata j') = Some ?x"
    using codecs(2) e(2) by simp
  have [simp]: "orm_job_id ?x = jb_id j" "orm_onchain_input_hash ?x = lib_keccak256 L (jb_onchain_input j)"
    "orm_offchain_input_hash ?x = lib_keccak256 L (jb_offchain_input j)" "orm_max_cycles ?x = jb_max_cycles j"
    "orm_program_id ?x = jb_program_id j" "orm_raw_output ?x = raw"
    by (simp_all add: offchain_result_def)
  have i: "jb_id j = get_job_id (cl_keccak256 C) (ojr_nonce r) (ojr_consumer r)" by (simp add: f(1) codecs(3))
  have "submit_result_for_offchain_job C recv (tx_blobhash L ?sc) (jb_result_with_metadata j')
      (jb_zkvm_operator_signature j') (lib_encode_request L r) (sr_signature req) jm =
    (case recv (set_inputs_for_job (jb_id j) (jb_onchain_input j) (lib_keccak256 L (jb_offchain_input j))
          (update_latest_nonce (jb_nonce j) (jm_consumers jm (ojr_consumer r)))) (jb_id j) raw of
       Inl e \<Rightarrow> Inl e
     | Inr c \<Rightarrow> Inr (settled_job (jb_id j) (jb_program_id j) (jb_max_cycles j) (ojr_consumer r) c
         (record_hashes (jb_id j) (orm_versioned_blob_hashes ?x) jm)))"
    unfolding f(2,3,5,6,7)
    using submit_offchain_agreeing [OF codecs(1) x s keys(1) [OF e(3)] i, of "tx_blobhash L ?sc" recv] bh fresh
    by (simp add: f(2,3,5,6,7) codecs(3))
  with e(1) executed_relays [OF run f(9), unfolded e(4)] show ?thesis by blast
qed

section \<open>Results of onchain jobs\<close>

lemma executed_onchain:
  assumes "executed L d j j'" and "jb_request_type j = Onchain"
  obtains raw where "sp1_execute L (pm_program_bytes (the (get_program (lib_sha256 L) d (jb_program_id j))))
      (jb_onchain_input j) [] (jb_max_cycles j) = Inr raw"
    "jb_result_with_metadata j' = lib_encode_result L (onchain_result L j raw)"
    "lib_sign_message L (jb_result_with_metadata j') = Some (jb_zkvm_operator_signature j')"
    "relay_call L j' = SubmitResult (jb_result_with_metadata j') (jb_zkvm_operator_signature j')"
proof -
  note ex = assms(1) [unfolded executed_def]
  obtain p raw where p: "get_program (lib_sha256 L) d (jb_program_id j) = Some p"
    "sp1_execute L (pm_program_bytes p) (jb_onchain_input j) [] (jb_max_cycles j) = Inr raw"
    "jb_result_with_metadata j' = expected_result L j raw (expected_sidecar L j)"
    using ex assms(2) by (auto simp: program_offchain_input_def)
  have "relay_call L j' = SubmitResult (jb_result_with_metadata j') (jb_zkvm_operator_signature j')"
    using assms(2) by (subst ex [THEN conjunct1]) (simp add: relay_call_def)
  with p that [of raw] ex assms(2) show thesis
    by (simp add: expected_result_def onchain_result_def)
qed

text \<open>
  C20. The contract accepts what the node relays for an onchain job: when a consumer requested the job, the
  listener built a job from the event and a worker executed it, the transaction that the relayer
  sends passes every check of the job manager in every state in which the job is still as it was
  created, and the consumer is given the output of its program on its input. What is assumed: the
  codecs agree, and the job manager knows the operator's and the relayer's keys.
\<close>

theorem onchain_result_accepted:
  fixes jm :: "'a job_manager"
  assumes request: "consumer_request_job C a pid inp cyc jm0 = Inr (jm1, ev)" and run: "executed L d (event_job ev) j'"
    and kept: "jm_jobs jm (jc_job_id ev) = jm_jobs jm1 (jc_job_id ev)"
      "cn_onchain_input (jm_consumers jm a) (jc_job_id ev) = cn_onchain_input (jm_consumers jm1 a) (jc_job_id ev)"
    and codecs: "\<And>raw. cl_decode_result C (lib_encode_result L (onchain_result L (event_job ev) raw)) =
        Some (onchain_result L (event_job ev) raw)"
      "cl_keccak256 C = lib_keccak256 L"
    and keys: "\<And>m s. lib_sign_message L m = Some s \<Longrightarrow> cl_recover C m s = jm_operator jm"
  shows "\<exists>raw res sig. sp1_execute L (pm_program_bytes (the (get_program (lib_sha256 L) d pid))) inp [] cyc = Inr raw
    \<and> (\<forall>a. \<exists>eff. relay_once L j' a = Some (attempt_res a, eff) \<and> rl_calls eff = [SubmitResult res sig])
    \<and> submit_result C recv (jm_relayer jm) res sig jm =
        (case recv (jm_consumers jm a) (jc_job_id ev) raw of
           Inl e \<Rightarrow> Inl e
         | Inr c \<Rightarrow> Inr (settled_job (jc_job_id ev) pid cyc a c jm))"
proof -
  let ?j = "event_job ev"
  obtain n m1 where n: "create_entry n (jc_job_id ev) pid cyc a jm0 = Inr m1"
    and ev: "ev = \<lparr>jc_job_id = get_job_id (cl_keccak256 C) n a, jc_nonce = n, jc_consumer = a,
      jc_max_cycles = cyc, jc_program_id = pid, jc_onchain_input = inp\<rparr>"
    and jm1: "jm1 = m1\<lparr>jm_consumers := (jm_consumers m1)(a := (jm_consumers m1 a)\<lparr>cn_onchain_input :=
        (cn_onchain_input (jm_consumers m1 a))(jc_job_id ev := inp)\<rparr>)\<rparr>"
    using request by (auto simp: consumer_request_job_def create_job_def Let_def split: option.splits sum.splits)
  have job: "jm_jobs jm (jc_job_id ev) = \<lparr>md_program_id = pid, md_max_cycles = cyc, md_consumer = a,
      md_status = JOB_STATE_PENDING\<rparr>"
    using n kept(1) by (auto simp: jm1 create_entry_Inr)
  have input: "cn_onchain_input (jm_consumers jm a) (jc_job_id ev) = inp" using kept(2) by (simp add: jm1)
  have j: "jb_request_type ?j = Onchain" "jb_program_id ?j = pid" "jb_onchain_input ?j = inp" "jb_max_cycles ?j = cyc"
    "jb_id ?j = jc_job_id ev"
    by (simp_all add: event_job_def ev)
  obtain raw where e: "sp1_execute L (pm_program_bytes (the (get_program (lib_sha256 L) d pid))) inp [] cyc = Inr raw"
    "jb_result_with_metadata j' = lib_encode_result L (onchain_result L ?j raw)"
    "lib_sign_message L (jb_result_with_metadata j') = Some (jb_zkvm_operator_signature j')"
    "relay_call L j' = SubmitResult (jb_result_with_metadata j') (jb_zkvm_operator_signature j')"
    by (rule executed_onchain [OF run j(1), unfolded j])
  have "cl_decode_result C (jb_result_with_metadata j') = Some (onchain_result L ?j raw)"
    using codecs(1) e(2) by simp
  then have "submit_result C recv (jm_relayer jm) (jb_result_with_metadata j') (jb_zkvm_operator_signature j') jm =
      finish_job C recv (jc_job_id ev) cyc (cl_keccak256 C inp) pid raw jm"
    using keys [OF e(3)] by (simp add: submit_result_def onchain_result_def j codecs(2))
  also have "\<dots> = (case recv (jm_consumers jm a) (jc_job_id ev) raw of
      Inl e \<Rightarrow> Inl e | Inr c \<Rightarrow> Inr (settled_job (jc_job_id ev) pid cyc a c jm))"
    by (simp add: finish_job_def job input settled_job_def Let_def split: sum.splits)
  finally have "submit_result C recv (jm_relayer jm) (jb_result_with_metadata j') (jb_zkvm_operator_signature j') jm = \<dots>" .
  moreover have "relayable ?j" by (simp add: relayable_def j)
  ultimately show ?thesis using e(1) executed_relays [OF run, unfolded e(4)] by blast
qed

section \<open>Batches on chain\<close>

text \<open>The consumer takes the results one after the other: the job's id, its onchain input and the program's output.\<close>

fun receive_all :: "contract_libs \<Rightarrow> ('a \<Rightarrow> bytes \<Rightarrow> string + 'a) \<Rightarrow> (b256 \<times> bytes \<times> bytes) list \<Rightarrow> 'a consumer
    \<Rightarrow> string + 'a consumer" where
  "receive_all C app [] c = Inr c"
| "receive_all C app ((i, inp, raw) # rs) c =
     (case stateful_receive_result C app (c\<lparr>cn_onchain_input := (cn_onchain_input c)(i := inp)\<rparr>) i raw of
        Inl e \<Rightarrow> Inl e
      | Inr c' \<Rightarrow> receive_all C app rs c')"

fun chained :: "clob_state \<Rightarrow> batch list \<Rightarrow> clob_state \<Rightarrow> bool" where
  "chained s [] t \<longleftrightarrow> s = t"
| "chained s (b # bs) t \<longleftrightarrow> bat_state b = s \<and> (\<exists>m. run_ticks (bat_requests b) s = Some m \<and> chained m bs t)"

lemma chain_chained:
  "chain db a bs e \<Longrightarrow> db_clob_state db (of_nat a) = Some s \<Longrightarrow>
     \<exists>t. chained s bs t \<and> run_ticks (concat (map bat_requests bs)) s = Some t"
proof (induction bs arbitrary: a s)
  case (Cons b bs)
  then obtain k post where k: "chain db k bs e" "bat_state b = s" "run_ticks (bat_requests b) s = Some post"
    "db_clob_state db (of_nat k) = Some post"
    by (auto simp: batch_ok_def)
  with Cons.IH [OF k(1,4)] show ?case by (auto simp: run_ticks_append)
qed simp

lemma submitted_chained:
  assumes "node_reach n (e, db) outs bs" and "Suc n < 2 ^ 64"
  shows "\<exists>t. chained default_clob_state bs t \<and> run_ticks (concat (map bat_requests bs)) default_clob_state = Some t"
proof (cases "bs = []")
  case False
  have ni: "node_inv n (e, db) outs bs" by (rule node_reach_inv [OF assms])
  with False obtain k where k: "chain db 0 bs k" "0 < unat (processed_index db)"
    by (auto simp: node_inv_def batches_ok_def split: option.splits)
  obtain p where p: "ClobNode.tables_ok db p" "p \<le> n"
    using ni engine_inv_index [of n e db outs] by (auto simp: node_inv_def)
  then have "db_clob_state db (of_nat 0) = Some default_clob_state"
    using k(2) by (auto simp: ClobNode.tables_ok_def)
  from chain_chained [OF k(1) this] show ?thesis .
qed simp

text \<open>
  The results of the batches as the consumer gets them: each with the onchain input of its batch and the
  encoded output of the guest program.
\<close>

definition results_of :: "batch_env \<Rightarrow> (request list \<Rightarrow> clob_state \<Rightarrow> stateful_app_result option)
    \<Rightarrow> (stateful_app_result \<Rightarrow> bytes) \<Rightarrow> batch list \<Rightarrow> (b256 \<times> bytes \<times> bytes) list \<Rightarrow> bool" where
  "results_of env stf encode bs rs \<longleftrightarrow> list_all2 (\<lambda>b (i, inp, raw). \<exists>nonce res.
     inp = jp_onchain_input (fst (batch_job env nonce b))
     \<and> stf (bat_requests b) (bat_state b) = Some res \<and> raw = encode res) bs rs"

lemma batch_job_onchain_input:
  "jp_onchain_input (fst (batch_job env nonce b)) = be_encode_onchain env
     \<lparr>sai_input_state_root = be_keccak256 env (be_state_borsh env (bat_state b)), sai_onchain_input = []\<rparr>"
  by (simp add: batch_job_def Let_def)

text \<open>What both codecs must do for the results of the batches.\<close>

definition codecs_agree :: "contract_libs \<Rightarrow> batch_env \<Rightarrow> (stateful_app_result \<Rightarrow> bytes) \<Rightarrow> bool" where
  "codecs_agree C env encode \<longleftrightarrow>
     (\<forall>x. cl_decode_stateful_input C (be_encode_onchain env x) = Some x) \<and>
     (\<forall>x. cl_decode_stateful_result C (encode x) = Some x)"

lemma receive_batch_result:
  assumes "codecs_agree C env encode"
  shows "stateful_receive_result C app (c\<lparr>cn_onchain_input := (cn_onchain_input c)(i :=
      jp_onchain_input (fst (batch_job env nonce b)))\<rparr>) i (encode res) =
    (if be_keccak256 env (be_state_borsh env (bat_state b)) \<noteq> cn_latest_state_root c
     then Inl ''Invalid state root passed as input''
     else case app (cn_app c) (sar_result res) of Inl e \<Rightarrow> Inl e
       | Inr a \<Rightarrow> Inr (c\<lparr>cn_onchain_input := (cn_onchain_input c)(i := jp_onchain_input (fst (batch_job env nonce b))),
           cn_latest_state_root := sar_output_state_root res, cn_app := a\<rparr>))"
  using assms by (simp add: stateful_receive_result_def codecs_agree_def batch_job_onchain_input split: sum.split)

text \<open>
  What a consumer promises: the application's state stays related to the state of the CLOB when it
  takes the result of a good batch. The root in a result is that of the state after the batch.
\<close>

locale result_app =
  fixes env :: batch_env and stf :: "request list \<Rightarrow> clob_state \<Rightarrow> stateful_app_result option"
    and app :: "'a \<Rightarrow> bytes \<Rightarrow> string + 'a" and good :: "request list \<Rightarrow> clob_state \<Rightarrow> bool"
    and R :: "'a \<Rightarrow> clob_state \<Rightarrow> bool"
  assumes stf_root: "map_option sar_output_state_root (stf reqs s) =
      map_option (\<lambda>s'. be_keccak256 env (be_state_borsh env s')) (run_ticks reqs s)"
    and app_step: "good reqs s \<Longrightarrow> R a s \<Longrightarrow> stf reqs s = Some res \<Longrightarrow> run_ticks reqs s = Some s' \<Longrightarrow>
      app a (sar_result res) = Inr a' \<Longrightarrow> R a' s'"
begin

lemma receive_chained:
  assumes "chained s bs t" and "results_of env stf encode bs rs" and C: "codecs_agree C env encode"
    and "cn_latest_state_root c = be_keccak256 env (be_state_borsh env s)"
    and "R (cn_app c) s" and "\<forall>b \<in> set bs. good (bat_requests b) (bat_state b)"
  shows "case receive_all C app rs c of
      Inl e \<Rightarrow> \<exists>a r. app a r = Inl e
    | Inr c' \<Rightarrow> cn_latest_state_root c' = be_keccak256 env (be_state_borsh env t) \<and> R (cn_app c') t"
  using assms(1,2,4-)
proof (induction bs arbitrary: s rs c)
  case Nil
  then show ?case by (simp add: results_of_def)
next
  case (Cons b bs)
  then obtain m i nonce res rs' where m: "bat_state b = s" "run_ticks (bat_requests b) s = Some m" "chained m bs t"
    and res: "stf (bat_requests b) s = Some res" "results_of env stf encode bs rs'"
    and rs: "rs = (i, jp_onchain_input (fst (batch_job env nonce b)), encode res) # rs'"
    by (auto simp: results_of_def list_all2_Cons1)
  have root: "sar_output_state_root res = be_keccak256 env (be_state_borsh env m)"
    using stf_root [of "bat_requests b" s] res(1) m(2) by simp
  show ?case
  proof (cases "app (cn_app c) (sar_result res)")
    case (Inl e)
    then show ?thesis
      using Cons.prems(3) m(1) by (auto simp: rs receive_batch_result [OF C])
  next
    case (Inr a)
    have "good (bat_requests b) s" using Cons.prems(5) m(1) by simp
    from app_step [OF this Cons.prems(4) res(1) m(2) Inr] have "R a m" .
    with Cons.IH [OF m(3) res(2)] Cons.prems(3,5) m(1) Inr root show ?thesis
      by (simp add: rs receive_batch_result [OF C])
  qed
qed

end

text \<open>Every application promises this with the trivial relation.\<close>

interpretation any_app: result_app env
  "zkvm_stf (\<lambda>s. be_keccak256 env (be_state_borsh env s)) enc iter_o iter_w iter_d" app "\<lambda>_ _. True" "\<lambda>_ _. True"
  for env enc iter_o iter_w iter_d app
  by unfold_locales (simp_all add: zkvm_stf_root)

text \<open>
  C8. The batches settle one after the other: the consumer of the CLOB, which starts with the root of
  the empty state, takes the results of all batches that the node submits, in their order; no result
  is refused for its state root, and after the last one the consumer's root is that of the state
  that all requests of these batches lead to. Only the application's own code can revert.
\<close>

theorem batches_settle_onchain:
  assumes reach: "node_reach n (e, db) outs bs" "Suc n < 2 ^ 64"
    and results: "results_of env (zkvm_stf (\<lambda>s. be_keccak256 env (be_state_borsh env s)) enc iter_o iter_w iter_d)
        encode bs rs"
    and codecs: "codecs_agree C env encode"
    and start: "cn_latest_state_root c = be_keccak256 env (be_state_borsh env default_clob_state)"
  shows "\<exists>t. run_ticks (concat (map bat_requests bs)) default_clob_state = Some t \<and>
    (case receive_all C app rs c of
       Inl e \<Rightarrow> \<exists>a r. app a r = Inl e
     | Inr c' \<Rightarrow> cn_latest_state_root c' = be_keccak256 env (be_state_borsh env t))"
proof -
  obtain t where t: "chained default_clob_state bs t" "run_ticks (concat (map bat_requests bs)) default_clob_state = Some t"
    using submitted_chained [OF reach] by blast
  with any_app.receive_chained [OF t(1) results codecs start, of app] show ?thesis by (auto split: sum.splits)
qed

text \<open>
  One missing result blocks all later ones: when the result of a batch is not delivered, the
  consumer refuses the next one for its state root, if the state roots before and after the missing batch differ.
\<close>

theorem missing_batch_blocks:
  assumes reach: "node_reach n (e, db) outs (bs1 @ b # b' # bs2)" "Suc n < 2 ^ 64"
    and results: "results_of env (zkvm_stf (\<lambda>s. be_keccak256 env (be_state_borsh env s)) enc iter_o iter_w iter_d)
        encode bs1 rs1"
      "results_of env (zkvm_stf (\<lambda>s. be_keccak256 env (be_state_borsh env s)) enc iter_o iter_w iter_d)
        encode (b' # bs2) rs2"
    and codecs: "codecs_agree C env encode"
    and start: "cn_latest_state_root c = be_keccak256 env (be_state_borsh env default_clob_state)"
    and moved: "be_keccak256 env (be_state_borsh env (bat_state b)) \<noteq> be_keccak256 env (be_state_borsh env (bat_state b'))"
    and taken: "receive_all C app rs1 c = Inr c1"
  shows "receive_all C app (rs1 @ rs2) c = Inl ''Invalid state root passed as input''"
proof -
  have split: "chained s (bs1 @ b # b' # bs2) t \<Longrightarrow> chained s bs1 (bat_state b)" for s t
    by (induction bs1 arbitrary: s) auto
  have append: "receive_all C app (rs1 @ rs2) c = (case receive_all C app rs1 c of Inl e \<Rightarrow> Inl e
      | Inr c \<Rightarrow> receive_all C app rs2 c)" for c
    by (induction C app rs1 c rule: receive_all.induct) (auto split: sum.split)
  have "chained default_clob_state bs1 (bat_state b)" using submitted_chained [OF reach] split by blast
  from any_app.receive_chained [OF this results(1) codecs start, of app] taken
  have "cn_latest_state_root c1 = be_keccak256 env (be_state_borsh env (bat_state b))" by simp
  with results(2) moved show ?thesis
    by (auto simp: append taken results_of_def list_all2_Cons1 receive_batch_result [OF codecs])
qed

section \<open>Sample runs\<close>

lemma global_index_idem:
  "db_global_index db k = Some v \<Longrightarrow> db\<lparr>db_global_index := (db_global_index db)(k \<mapsto> v)\<rparr> = db"
  by (simp add: fun_upd_idem)

text \<open>One more request, which the batcher submits at once.\<close>

lemma one_more_batch:
  assumes "node_reach n (Idle g s, db) outs bs" and "tick req s = Some (resp, s', ds)" and "g \<noteq> - 1"
    and "db_clob_state db g = Some s"
    and "db_global_index db NEXT_BATCH_GLOBAL_INDEX_KEY = (if g = 0 then None else Some (g + 1))"
  shows "\<exists>db' outs'. node_reach (Suc n) (Idle (g + 1) s', db') outs'
      (bs @ [\<lparr>bat_start = g + 1, bat_end = g + 1, bat_state = s, bat_requests = [req]\<rparr>])
    \<and> db_clob_state db' (g + 1) = Some s' \<and> db_global_index db' NEXT_BATCH_GLOBAL_INDEX_KEY = Some (g + 2)"
proof -
  let ?g = "g + 1" and ?b = "\<lparr>bat_start = g + 1, bat_end = g + 1, bat_state = s, bat_requests = [req]\<rparr>"
  let ?db1 = "write_results ?g resp s' ds (write_request ?g req db)"
  have ne: "g \<noteq> ?g" by simp
  have "engine_step (Idle g s, db) (Recv req) = Some ((Seen ?g s req, write_request ?g req db), [])"
    by (simp add: Let_def)
  from node_reach.engine [OF assms(1) this]
  have 1: "node_reach (Suc n) (Seen ?g s req, write_request ?g req db) outs bs" by simp
  have "engine_step (Seen ?g s req, write_request ?g req db) Process =
      Some ((Idle ?g s', ?db1), [\<lparr>api_response = resp, api_global_index = ?g\<rparr>])"
    using assms(2) by simp
  from node_reach.engine [OF 1 this] have 2: "node_reach (Suc n) (Idle ?g s', ?db1)
      (outs @ [\<lparr>api_response = resp, api_global_index = ?g\<rparr>]) bs" by simp
  let ?db2 = "?db1\<lparr>db_global_index := (db_global_index ?db1)(NEXT_BATCH_GLOBAL_INDEX_KEY \<mapsto> ?g)\<rparr>"
  have f: "db_global_index ?db1 PROCESSED_GLOBAL_INDEX_KEY = Some ?g" "db_clob_state ?db1 g = Some s"
    "db_global_index ?db1 NEXT_BATCH_GLOBAL_INDEX_KEY = db_global_index db NEXT_BATCH_GLOBAL_INDEX_KEY"
    "db_request ?db1 ?g = Some req" "db_clob_state ?db1 ?g = Some s'"
    using assms(4) ne by (simp_all add: write_results_def write_request_def Let_def key_defs)
  have i: "ensure_initialized ?db1 = Some ?db2"
    using assms(5) f(1,3) by (auto simp: ensure_initialized_def INIT_INDEX_def global_index_idem)
  have "read_batch ?db2 = Batch ?b"
    using f by (simp add: read_batch_def read_all_def key_defs)
  moreover from this have "batcher_turn sample_env (\<lambda>_. True) ?db2 1 = (Some (snd (batch_job sample_env 1 ?b)),
      Some (?db2\<lparr>db_global_index := (db_global_index ?db2)(NEXT_BATCH_GLOBAL_INDEX_KEY \<mapsto> ?g + 1)\<rparr>, 1 + 1))"
    by (simp add: batcher_turn_def submit_job_with_backoff_def numeral_3_eq_3 Let_def)
  ultimately have "node_reach (Suc n) (Idle ?g s',
      ?db2\<lparr>db_global_index := (db_global_index ?db2)(NEXT_BATCH_GLOBAL_INDEX_KEY \<mapsto> ?g + 1)\<rparr>)
      (outs @ [\<lparr>api_response = resp, api_global_index = ?g\<rparr>]) (bs @ [?b])"
    by (rule node_reach.batcher [OF node_reach.batcher_init [OF 2 i]])
  then show ?thesis
    using f(5) by (intro exI conjI) (assumption, simp_all add: add.assoc)
qed

text \<open>Two batches of one deposit each.\<close>

lemma two_batches:
  "\<exists>e db outs b1 b2. node_reach 2 (e, db) outs [b1, b2] \<and> bat_requests b1 = [sample_deposit]
    \<and> bat_state b1 = default_clob_state \<and> bat_requests b2 = [sample_deposit]
    \<and> run_ticks [sample_deposit] default_clob_state = Some (bat_state b2)"
proof -
  obtain resp1 s1 ds1 where t1: "tick sample_deposit default_clob_state = Some (resp1, s1, ds1)"
    using tick_total [OF state_ok_default] .
  then have "state_ok s1" using state_ok_tick [OF state_ok_default _ t1] by (simp add: default_clob_state_def)
  then obtain resp2 s2 ds2 where t2: "tick sample_deposit s1 = Some (resp2, s2, ds2)" by (rule tick_total)
  from one_more_batch [OF sample_reach t1] obtain db1 outs1 where 1: "node_reach 1 (Idle 1 s1, db1) outs1
      [\<lparr>bat_start = 1, bat_end = 1, bat_state = default_clob_state, bat_requests = [sample_deposit]\<rparr>]"
    "db_clob_state db1 1 = Some s1" "db_global_index db1 NEXT_BATCH_GLOBAL_INDEX_KEY = Some 2"
    by (auto simp: ClobNode.empty_db_def)
  from one_more_batch [OF 1(1) t2] 1(2,3) obtain db2 outs2 where "node_reach 2 (Idle 2 s2, db2) outs2
      [\<lparr>bat_start = 1, bat_end = 1, bat_state = default_clob_state, bat_requests = [sample_deposit]\<rparr>,
       \<lparr>bat_start = 2, bat_end = 2, bat_state = s1, bat_requests = [sample_deposit]\<rparr>]"
    by (auto simp: numeral_2_eq_2)
  with t1 show ?thesis by (intro exI conjI) (assumption, simp_all del: tick.simps)
qed

text \<open>
  Codecs that write a root and the rest; the operator signs with a leading 5 and has the address 9; a
  state is encoded by one balance. The decoders of requests and offchain results know the sample job.
\<close>

definition bridge_env :: batch_env where
  "bridge_env = settle_env\<lparr>be_encode_onchain := (\<lambda>x. be_bytes 32 (sai_input_state_root x) @ sai_onchain_input x),
     be_state_borsh := (\<lambda>s. be_bytes 32 (ucast (balance s FreeQuote 1) :: u256))\<rparr>"

definition encode_app_result :: "stateful_app_result \<Rightarrow> bytes" where
  "encode_app_result r = be_bytes 32 (sar_output_state_root r) @ sar_result r"

definition bridge_request :: offchain_job_request where
  "bridge_request = \<lparr>ojr_nonce = 4, ojr_max_cycles = 5, ojr_consumer = 8, ojr_program_id = [3],
     ojr_onchain_input = [6], ojr_offchain_input_hash = be_word [7]\<rparr>"

definition bridge_contracts :: "job \<Rightarrow> contract_libs" where
  "bridge_contracts j =
     \<lparr>cl_keccak256 = be_word, cl_recover = (\<lambda>m s. if s = 5 # m then 9 else 0),
      cl_decode_request = (\<lambda>_. Some bridge_request),
      cl_decode_result = (\<lambda>bs. Some (onchain_result sample_libs j bs)),
      cl_decode_offchain_result = (\<lambda>bs. Some (offchain_result sample_libs j bs)),
      cl_decode_stateful_input = (\<lambda>bs. Some \<lparr>sai_input_state_root = be_word (take 32 bs), sai_onchain_input = drop 32 bs\<rparr>),
      cl_decode_stateful_result = (\<lambda>bs. Some \<lparr>sar_output_state_root = be_word (take 32 bs), sar_result = drop 32 bs\<rparr>)\<rparr>"

definition bridge_consumer :: "unit consumer" where
  "bridge_consumer = \<lparr>cn_max_nonce = 0, cn_onchain_input = (\<lambda>_. []), cn_offchain_input_hash = (\<lambda>_. 0),
     cn_latest_state_root = 0, cn_offchain_signer = 9, cn_app = ()\<rparr>"

definition bridge_manager :: "unit job_manager" where
  "bridge_manager = \<lparr>jm_owner = 1, jm_relayer = 2, jm_operator = 9, jm_jobs = (\<lambda>_. no_job),
     jm_blobhashes = (\<lambda>_. []), jm_consumers = (\<lambda>_. bridge_consumer)\<rparr>"

lemma bridge_codecs: "codecs_agree (bridge_contracts j) bridge_env encode_app_result"
  using be_word_be_bytes [where n = 32 and 'a = 256]
  by (simp add: codecs_agree_def bridge_contracts_def bridge_env_def encode_app_result_def)

lemma bridge_root: "be_keccak256 bridge_env (be_state_borsh bridge_env s) = ucast (balance s FreeQuote 1)"
  using be_word_be_bytes [where n = 32 and 'a = 256] by (simp add: bridge_env_def settle_env_def)

lemma results_exist:
  "chained s bs t \<Longrightarrow> \<exists>rs. results_of env (zkvm_stf keccak enc iter_o iter_w iter_d) encode bs rs"
proof (induction bs arbitrary: s)
  case (Cons b bs)
  then obtain m where m: "run_ticks (bat_requests b) (bat_state b) = Some m" "chained m bs t" by auto
  with Cons.IH obtain rs where rs: "results_of env (zkvm_stf keccak enc iter_o iter_w iter_d) encode bs rs" by blast
  from m zkvm_stf_root [of keccak enc iter_o iter_w iter_d "bat_requests b" "bat_state b"]
  obtain res where "zkvm_stf keccak enc iter_o iter_w iter_d (bat_requests b) (bat_state b) = Some res" by auto
  with rs have "results_of env (zkvm_stf keccak enc iter_o iter_w iter_d) encode (b # bs)
      ((0, jp_onchain_input (fst (batch_job env 0 b)), encode res) # rs)"
    by (auto simp: results_of_def)
  then show ?case by blast
qed (auto simp: results_of_def)

abbreviation bridge_stf :: "request list \<Rightarrow> clob_state \<Rightarrow> stateful_app_result option" where
  "bridge_stf \<equiv> zkvm_stf (\<lambda>s. be_keccak256 bridge_env (be_state_borsh bridge_env s)) (\<lambda>_. []) (\<lambda>xs. xs) (\<lambda>xs. xs) (\<lambda>xs. xs)"

lemma bridge_start:
  "cn_latest_state_root bridge_consumer = be_keccak256 bridge_env (be_state_borsh bridge_env default_clob_state)"
  by (simp add: bridge_root bridge_consumer_def balance_def default_clob_state_def default_balance_def)

theorem batches_settle_onchain_witness:
  "\<exists>e db outs bs rs t c. node_reach 2 (e, db) outs bs \<and> length bs = 2 \<and> results_of bridge_env bridge_stf encode_app_result bs rs
    \<and> run_ticks (concat (map bat_requests bs)) default_clob_state = Some t
    \<and> receive_all (bridge_contracts (event_job run_event)) (\<lambda>_ _. Inr ()) rs bridge_consumer = Inr c
    \<and> cn_latest_state_root c = ucast (balance t FreeQuote 1)"
proof -
  obtain e db outs b1 b2 where b: "node_reach 2 (e, db) outs [b1, b2]" using two_batches by blast
  then obtain t where "chained default_clob_state [b1, b2] t" using submitted_chained [OF b] by auto
  then obtain rs where rs: "results_of bridge_env bridge_stf encode_app_result [b1, b2] rs" using results_exist by blast
  from batches_settle_onchain [OF b _ rs bridge_codecs [of "event_job run_event"] bridge_start,
      where app = "\<lambda>_ _. Inr ()"]
  obtain t where t: "run_ticks (concat (map bat_requests [b1, b2])) default_clob_state = Some t"
    and c: "case receive_all (bridge_contracts (event_job run_event)) (\<lambda>_ _. Inr ()) rs bridge_consumer of
       Inl e \<Rightarrow> \<exists>(a :: unit) (r :: bytes). (Inr () :: string + unit) = Inl e | Inr c' \<Rightarrow> cn_latest_state_root c' = ucast (balance t FreeQuote 1)"
    unfolding bridge_root by auto
  then obtain c where "receive_all (bridge_contracts (event_job run_event)) (\<lambda>_ _. Inr ()) rs bridge_consumer = Inr c"
    "cn_latest_state_root c = ucast (balance t FreeQuote 1)"
    by (cases "receive_all (bridge_contracts (event_job run_event)) (\<lambda>_ _. Inr ()) rs bridge_consumer") simp_all
  moreover have "length [b1, b2] = 2" by simp
  ultimately show ?thesis using b rs t by blast
qed

theorem missing_batch_blocks_witness:
  "\<exists>e db outs b1 b2 rs. node_reach 2 (e, db) outs [b1, b2] \<and> results_of bridge_env bridge_stf encode_app_result [b2] rs
    \<and> receive_all (bridge_contracts (event_job run_event)) (\<lambda>_ _. Inr ()) rs bridge_consumer =
        Inl ''Invalid state root passed as input''"
proof -
  obtain e db outs b1 b2 where b: "node_reach 2 (e, db) outs [b1, b2]" "bat_state b1 = default_clob_state"
    "run_ticks [sample_deposit] default_clob_state = Some (bat_state b2)"
    using two_batches by blast
  then obtain m t where "chained m [b2] t" using submitted_chained [OF b(1)] by auto
  then obtain rs where rs: "results_of bridge_env bridge_stf encode_app_result [b2] rs" using results_exist by blast
  have "bat_state b2 = fst (snd (deposit \<lparr>dep_address = 1, dep_base_free = 2, dep_quote_free = 3\<rparr> default_clob_state))"
    using b(3) by (simp add: sample_deposit_def split: prod.splits)
  then have "balance (bat_state b1) FreeQuote 1 = 0" "balance (bat_state b2) FreeQuote 1 = 3"
    using b(2) by (simp_all add: balance_def default_clob_state_def default_balance_def deposit_eq and_modify_or_insert_def)
  then have "be_keccak256 bridge_env (be_state_borsh bridge_env (bat_state b1)) \<noteq>
      be_keccak256 bridge_env (be_state_borsh bridge_env (bat_state b2))"
    by (simp add: bridge_root)
  with missing_batch_blocks [of 2 e db outs "[]" b1 b2 "[]" bridge_env "\<lambda>_. []" "\<lambda>xs. xs" "\<lambda>xs. xs" "\<lambda>xs. xs"
      encode_app_result "[]" rs "bridge_contracts (event_job run_event)" bridge_consumer "\<lambda>_ _. Inr ()" bridge_consumer]
    b(1) rs bridge_codecs bridge_start
  have "receive_all (bridge_contracts (event_job run_event)) (\<lambda>_ _. Inr ()) rs bridge_consumer =
        Inl ''Invalid state root passed as input''"
    by (simp add: results_of_def)
  with b(1) rs show ?thesis by blast
qed

lemma sample_executed:
  assumes "jb_program_id j = [3]"
  shows "\<exists>j'. executed sample_libs settle_db j j'"
proof -
  let ?raw = "[7] @ concat [jb_onchain_input j, program_offchain_input j]"
  let ?r = "expected_result sample_libs j ?raw (expected_sidecar sample_libs j)"
  have "get_program be_word settle_db [3] = Some \<lparr>pm_vm_type = 0, pm_program_bytes = [0, 7]\<rparr>"
    by (simp add: get_program_def settle_db_def sha256_key_new_def be_word_def)
  moreover have "sp1_execute sample_libs [0, 7] (jb_onchain_input j) (program_offchain_input j) (jb_max_cycles j) = Inr ?raw"
    by (simp add: sp1_execute_def) (simp add: sample_libs_def)
  moreover have "lib_sha256 sample_libs = be_word" "lib_sign_message sample_libs m = Some (5 # m)" for m
    by (simp_all add: sample_libs_def)
  ultimately have "executed sample_libs settle_db j (j\<lparr>jb_status := status_of JDone None, jb_result_with_metadata := ?r,
      jb_zkvm_operator_signature := 5 # ?r, jb_blobs_sidecar := expected_sidecar sample_libs j\<rparr>)"
    using assms by (simp add: executed_def)
  then show ?thesis ..
qed

lemma bridge_simps [simp]:
  "cl_keccak256 (bridge_contracts j) = be_word" "cl_recover (bridge_contracts j) m s = (if s = 5 # m then 9 else 0)"
  "cl_decode_request (bridge_contracts j) p = Some bridge_request"
  "cl_decode_result (bridge_contracts j) bs = Some (onchain_result sample_libs j bs)"
  "cl_decode_offchain_result (bridge_contracts j) bs = Some (offchain_result sample_libs j bs)"
  "jm_jobs bridge_manager i = no_job" "jm_consumers bridge_manager a = bridge_consumer"
  "jm_operator bridge_manager = 9" "cn_offchain_signer bridge_consumer = 9" "cn_max_nonce bridge_consumer = 0"
  by (simp_all add: bridge_contracts_def bridge_manager_def bridge_consumer_def)

lemma sample_libs_encoders:
  "lib_keccak256 sample_libs = be_word" "lib_encode_request sample_libs bridge_request = [3]"
  "lib_encode_result sample_libs x = rm_raw_output x" "lib_encode_offchain_result sample_libs y = orm_raw_output y"
  "lib_sign_message sample_libs m = Some (5 # m)"
  by (simp_all add: sample_libs_def bridge_request_def)

theorem offchain_result_accepted_witness:
  "\<exists>j j' res sig payload rsig sidecar m. request_job sample_libs (\<lambda>_. Some bridge_request)
      \<lparr>sr_request = [3], sr_signature = [5, 3], sr_offchain_input = [7], sr_relay_strategy = 1\<rparr> = Inr j
    \<and> executed sample_libs settle_db j j' \<and> (\<forall>a. \<exists>eff. relay_once sample_libs j' a = Some (attempt_res a, eff) \<and>
        rl_calls eff = [SubmitResultForOffchainJob res sig payload rsig sidecar])
    \<and> submit_result_for_offchain_job (bridge_contracts j) (\<lambda>c _ _. Inr c) (tx_blobhash sample_libs sidecar)
        res sig payload rsig bridge_manager = Inr m"
proof -
  let ?req = "\<lparr>sr_request = [3], sr_signature = [5, 3], sr_offchain_input = [7], sr_relay_strategy = 1\<rparr>"
  obtain j where j: "request_job sample_libs (\<lambda>_. Some bridge_request) ?req = Inr j"
    by (simp add: request_job_def bridge_request_def sample_libs_encoders)
  have "jb_program_id j = [3]" using request_job_fields(5) [OF j refl] by (simp add: bridge_request_def)
  then obtain j' where j': "executed sample_libs settle_db j j'" using sample_executed by blast
  have "lib_versioned_hashes sample_libs sc = []" if "sc_blobs sc = []" for sc using that by (simp add: sample_libs_def)
  then have "\<exists>raw res sig payload rsig sidecar hashes.
    sp1_execute sample_libs (pm_program_bytes (the (get_program (lib_sha256 sample_libs) settle_db (jb_program_id j))))
      (jb_onchain_input j) (jb_offchain_input j) (jb_max_cycles j) = Inr raw
    \<and> (\<forall>a. \<exists>eff. relay_once sample_libs j' a = Some (attempt_res a, eff) \<and>
        rl_calls eff = [SubmitResultForOffchainJob res sig payload rsig sidecar])
    \<and> submit_result_for_offchain_job (bridge_contracts j) (\<lambda>c _ _. Inr c) (tx_blobhash sample_libs sidecar) res sig
        payload rsig bridge_manager = Inr (settled_job (jb_id j) (jb_program_id j) (jb_max_cycles j) (ojr_consumer bridge_request)
        (set_inputs_for_job (jb_id j) (jb_onchain_input j) (lib_keccak256 sample_libs (jb_offchain_input j))
          (update_latest_nonce (jb_nonce j) bridge_consumer)) (record_hashes (jb_id j) hashes bridge_manager))"
    using offchain_result_accepted [OF j refl j', of "bridge_contracts j" bridge_manager "\<lambda>c _ _. Inr c"]
    by (simp add: sample_libs_encoders offchain_result_def no_job_def)
  with j j' show ?thesis by blast
qed

text \<open>The event of the sample consumer's first job.\<close>

definition bridge_event :: job_created where
  "bridge_event = \<lparr>jc_job_id = get_job_id be_word 1 8, jc_nonce = 1, jc_consumer = 8, jc_max_cycles = 5,
     jc_program_id = [3], jc_onchain_input = [6]\<rparr>"

lemma bridge_requests:
  "\<exists>jm1. consumer_request_job (bridge_contracts j) 8 [3] [6] 5 bridge_manager = Inr (jm1, bridge_event)"
  by (simp add: consumer_request_job_def get_next_nonce_def create_job_def create_entry_def no_job_def bridge_event_def Let_def)

theorem onchain_result_accepted_witness:
  "\<exists>j' res sig jm1 m. consumer_request_job (bridge_contracts (event_job bridge_event)) 8 [3] [6] 5 bridge_manager =
      Inr (jm1, bridge_event)
    \<and> executed sample_libs settle_db (event_job bridge_event) j' \<and> (\<forall>a. \<exists>eff. relay_once sample_libs j' a = Some (attempt_res a, eff) \<and>
        rl_calls eff = [SubmitResult res sig])
    \<and> submit_result (bridge_contracts (event_job bridge_event)) (\<lambda>c _ _. Inr c) (jm_relayer jm1) res sig jm1 = Inr m"
proof -
  let ?C = "bridge_contracts (event_job bridge_event)"
  obtain jm1 where r: "consumer_request_job ?C 8 [3] [6] 5 bridge_manager = Inr (jm1, bridge_event)"
    using bridge_requests by blast
  then have o: "jm_operator jm1 = 9"
    by (auto simp: consumer_request_job_def create_job_def create_entry_def Let_def split: option.splits sum.splits if_splits)
  have "jb_program_id (event_job bridge_event) = [3]" by (simp add: event_job_def bridge_event_def)
  then obtain j' where j': "executed sample_libs settle_db (event_job bridge_event) j'" using sample_executed by blast
  have "\<exists>raw res sig. sp1_execute sample_libs (pm_program_bytes (the (get_program (lib_sha256 sample_libs) settle_db [3]))) [6] [] 5 = Inr raw
    \<and> (\<forall>a. \<exists>eff. relay_once sample_libs j' a = Some (attempt_res a, eff) \<and>
        rl_calls eff = [SubmitResult res sig])
    \<and> submit_result ?C (\<lambda>c _ _. Inr c) (jm_relayer jm1) res sig jm1 = Inr (settled_job (jc_job_id bridge_event) [3] 5 8 (jm_consumers jm1 8) jm1)"
    using onchain_result_accepted [OF r j' refl refl, of "\<lambda>c _ _. Inr c"]
    by (simp add: sample_libs_encoders onchain_result_def o)
  with r j' show ?thesis by blast
qed

end
