(* ===== verification/ClobConsumer.thy ===== *)
theory ClobConsumer
  imports Settlement
begin

text \<open>
  The contract of the CLOB (\<^verbatim>\<open>contracts/src/clob/ClobConsumer.sol\<close>): what users deposit, and how it
  applies the deltas in the result of a batch. Its balances follow those of the CLOB node. The two
  tokens are parameters: whether a transfer succeeds.
\<close>

section \<open>State and operations\<close>

record clob_consumer =
  cc_deposited_base :: "address \<Rightarrow> u256"
  cc_deposited_quote :: "address \<Rightarrow> u256"
  cc_free_base :: "address \<Rightarrow> u256"
  cc_free_quote :: "address \<Rightarrow> u256"
  cc_locked_base :: "address \<Rightarrow> u256"
  cc_locked_quote :: "address \<Rightarrow> u256"

text \<open>Checked arithmetic on one entry of a mapping; \<open>None\<close> reverts.\<close>

definition add_at :: "address \<Rightarrow> u256 \<Rightarrow> (address \<Rightarrow> u256) \<Rightarrow> (address \<Rightarrow> u256) option" where
  "add_at a v m = (if m a + v < m a then None else Some (m(a := m a + v)))"

definition sub_at :: "address \<Rightarrow> u256 \<Rightarrow> (address \<Rightarrow> u256) \<Rightarrow> (address \<Rightarrow> u256) option" where
  "sub_at a v m = (if m a < v then None else Some (m(a := m a - v)))"

text \<open>\<open>applyDelta\<close> on an entry; the delta is an \<open>int256\<close>, whose negation is checked.\<close>

definition delta_at :: "address \<Rightarrow> u256 \<Rightarrow> (address \<Rightarrow> u256) \<Rightarrow> (address \<Rightarrow> u256) option" where
  "delta_at a i m =
     (if 0 \<le> sint i then add_at a i m
      else if sint i = - (2 ^ 255) then None else sub_at a (- i) m)"

definition contract_deposit :: "bool \<Rightarrow> bool \<Rightarrow> address \<Rightarrow> u256 \<Rightarrow> u256 \<Rightarrow> clob_consumer
    \<Rightarrow> string + clob_consumer \<times> deposit_event" where
  "contract_deposit base_paid quote_paid sender base_amount quote_amount c =
     (if \<not> base_paid \<or> \<not> quote_paid then Inl ''Transfer failed''
      else case add_at sender base_amount (cc_deposited_base c) of None \<Rightarrow> Inl ''overflow''
      | Some db \<Rightarrow>
          (case add_at sender quote_amount (cc_deposited_quote c) of None \<Rightarrow> Inl ''overflow''
           | Some dq \<Rightarrow> Inr (c\<lparr>cc_deposited_base := db, cc_deposited_quote := dq\<rparr>,
               \<lparr>de_user = sender, de_base_amount = base_amount, de_quote_amount = quote_amount\<rparr>)))"

definition apply_deposit :: "deposit_delta \<Rightarrow> clob_consumer \<Rightarrow> clob_consumer option" where
  "apply_deposit d c = (let user = dd_account d in
     Option.bind (sub_at user (dd_base d) (cc_deposited_base c)) (\<lambda>db.
     Option.bind (sub_at user (dd_quote d) (cc_deposited_quote c)) (\<lambda>dq.
     Option.bind (add_at user (dd_base d) (cc_free_base c)) (\<lambda>fb.
     Option.bind (add_at user (dd_quote d) (cc_free_quote c)) (\<lambda>fq.
     Some (c\<lparr>cc_deposited_base := db, cc_deposited_quote := dq, cc_free_base := fb, cc_free_quote := fq\<rparr>))))))"

definition apply_order :: "order_delta \<Rightarrow> clob_consumer \<Rightarrow> clob_consumer option" where
  "apply_order d c = (let user = od_account d in
     Option.bind (delta_at user (od_free_base d) (cc_free_base c)) (\<lambda>fb.
     Option.bind (delta_at user (od_locked_base d) (cc_locked_base c)) (\<lambda>lb.
     Option.bind (delta_at user (od_free_quote d) (cc_free_quote c)) (\<lambda>fq.
     Option.bind (delta_at user (od_locked_quote d) (cc_locked_quote c)) (\<lambda>lq.
     Some (c\<lparr>cc_free_base := fb, cc_locked_base := lb, cc_free_quote := fq, cc_locked_quote := lq\<rparr>))))))"

text \<open>\<open>pay\<close>: whether the two tokens transfer these amounts to the user.\<close>

definition apply_withdraw :: "(address \<Rightarrow> u256 \<Rightarrow> u256 \<Rightarrow> bool) \<Rightarrow> withdraw_delta \<Rightarrow> clob_consumer
    \<Rightarrow> clob_consumer option" where
  "apply_withdraw pay d c = (let user = wdd_account d in
     Option.bind (sub_at user (wdd_base d) (cc_free_base c)) (\<lambda>fb.
     Option.bind (sub_at user (wdd_quote d) (cc_free_quote c)) (\<lambda>fq.
     if pay user (wdd_base d) (wdd_quote d) then Some (c\<lparr>cc_free_base := fb, cc_free_quote := fq\<rparr>) else None)))"

fun apply_each :: "('d \<Rightarrow> 'c \<Rightarrow> 'c option) \<Rightarrow> 'd list \<Rightarrow> 'c \<Rightarrow> 'c option" where
  "apply_each f [] c = Some c"
| "apply_each f (d # ds) c = Option.bind (f d c) (apply_each f ds)"

definition contract_receive_result :: "(bytes \<Rightarrow> clob_result_deltas option) \<Rightarrow> (address \<Rightarrow> u256 \<Rightarrow> u256 \<Rightarrow> bool)
    \<Rightarrow> clob_consumer \<Rightarrow> bytes \<Rightarrow> string + clob_consumer" where
  "contract_receive_result decode pay c result =
     (case decode result of None \<Rightarrow> Inl ''abi.decode''
      | Some deltas \<Rightarrow>
          (case Option.bind (apply_each apply_deposit (crd_deposit_deltas deltas) c) (\<lambda>c.
                Option.bind (apply_each apply_order (crd_order_deltas deltas) c)
                  (apply_each (apply_withdraw pay) (crd_withdraw_deltas deltas))) of
             None \<Rightarrow> Inl ''revert'' | Some c \<Rightarrow> Inr c))"

section \<open>What the deltas do to the balances\<close>

definition held_by :: "clob_consumer \<Rightarrow> field \<Rightarrow> address \<Rightarrow> u256" where
  "held_by c fd = (case fd of FreeBase \<Rightarrow> cc_free_base c | LockedBase \<Rightarrow> cc_locked_base c
     | FreeQuote \<Rightarrow> cc_free_quote c | LockedQuote \<Rightarrow> cc_locked_quote c)"

definition deposit_part :: "field \<Rightarrow> deposit_delta \<Rightarrow> u256" where
  "deposit_part fd d = (case fd of FreeBase \<Rightarrow> dd_base d | FreeQuote \<Rightarrow> dd_quote d | _ \<Rightarrow> 0)"

definition order_part :: "field \<Rightarrow> order_delta \<Rightarrow> u256" where
  "order_part fd d = (case fd of FreeBase \<Rightarrow> od_free_base d | LockedBase \<Rightarrow> od_locked_base d
     | FreeQuote \<Rightarrow> od_free_quote d | LockedQuote \<Rightarrow> od_locked_quote d)"

definition withdraw_part :: "field \<Rightarrow> withdraw_delta \<Rightarrow> u256" where
  "withdraw_part fd d = (case fd of FreeBase \<Rightarrow> - wdd_base d | FreeQuote \<Rightarrow> - wdd_quote d | _ \<Rightarrow> 0)"

lemmas part_defs = held_by_def deposit_part_def order_part_def withdraw_part_def

lemma checked_at:
  "add_at a v m = Some m' \<Longrightarrow> m' = m(a := m a + v)" "sub_at a v m = Some m' \<Longrightarrow> m' = m(a := m a - v)"
  "delta_at a v m = Some m' \<Longrightarrow> m' = m(a := m a + v)"
  by (auto simp: add_at_def sub_at_def delta_at_def split: if_splits)

lemma apply_deposit_held:
  "apply_deposit d c = Some c' \<Longrightarrow> held_by c' fd a = held_by c fd a + (if dd_account d = a then deposit_part fd d else 0)"
  by (cases fd) (auto simp: apply_deposit_def part_defs Let_def Option.bind_eq_Some_conv dest!: checked_at)

lemma apply_order_held:
  "apply_order d c = Some c' \<Longrightarrow> held_by c' fd a = held_by c fd a + (if od_account d = a then order_part fd d else 0)"
  by (cases fd) (auto simp: apply_order_def part_defs Let_def Option.bind_eq_Some_conv dest!: checked_at)

lemma apply_withdraw_held:
  "apply_withdraw pay d c = Some c' \<Longrightarrow>
     held_by c' fd a = held_by c fd a + (if wdd_account d = a then withdraw_part fd d else 0)"
  by (cases fd) (auto simp: apply_withdraw_def part_defs Let_def Option.bind_eq_Some_conv
    split: if_splits dest!: checked_at)

lemma apply_each_sum:
  fixes g :: "'d \<Rightarrow> 'v::comm_monoid_add"
  assumes "apply_each f ds c = Some c'"
    and "\<And>d c c'. f d c = Some c' \<Longrightarrow> h c' = h c + g d"
  shows "h c' = h c + (\<Sum>d \<leftarrow> ds. g d)"
  using assms(1)
proof (induction ds arbitrary: c)
  case (Cons d ds)
  then show ?case by (auto simp: Option.bind_eq_Some_conv assms(2) add.assoc)
qed simp

text \<open>Sums over the values of a delta map.\<close>

lemma filed_sum:
  fixes g :: "'d \<Rightarrow> 'v::comm_monoid_add"
  assumes "filed account m"
  shows "(\<Sum>v \<leftarrow> map snd m. if account v = a then g v else 0) =
    (case map_of m a of None \<Rightarrow> 0 | Some v \<Rightarrow> g v)"
  using assms
proof (induction m)
  case (Cons x m)
  obtain k v where x: "x = (k, v)" by force
  have m: "filed account m" "account v = k" "k \<notin> dom (map_of m)"
    using Cons.prems by (auto simp: filed_def x dom_map_of_conv_image_fst)
  then have "map_of m k = None" by blast
  with Cons.IH [OF m(1)] m(2) show ?case by (auto simp: x)
qed simp

lemma sum_list_mset:
  fixes g :: "'d \<Rightarrow> 'v::comm_monoid_add"
  shows "mset xs = mset ys \<Longrightarrow> (\<Sum>x \<leftarrow> xs. g x) = (\<Sum>x \<leftarrow> ys. g x)"
  by (metis mset_map sum_mset_sum_list)

lemma contract_receive_held:
  assumes "contract_receive_result decode pay c r = Inr c'" and "decode r = Some ds"
  shows "held_by c' fd a = held_by c fd a
    + (\<Sum>d \<leftarrow> crd_deposit_deltas ds. if dd_account d = a then deposit_part fd d else 0)
    + (\<Sum>d \<leftarrow> crd_order_deltas ds. if od_account d = a then order_part fd d else 0)
    + (\<Sum>d \<leftarrow> crd_withdraw_deltas ds. if wdd_account d = a then withdraw_part fd d else 0)"
proof -
  obtain c1 c2 where c: "apply_each apply_deposit (crd_deposit_deltas ds) c = Some c1"
    "apply_each apply_order (crd_order_deltas ds) c1 = Some c2"
    "apply_each (apply_withdraw pay) (crd_withdraw_deltas ds) c2 = Some c'"
    using assms by (auto simp: contract_receive_result_def Option.bind_eq_Some_conv split: option.splits)
  note each = apply_each_sum [where h = "\<lambda>c. held_by c fd a"]
  show ?thesis
    using each [OF c(1) apply_deposit_held] each [OF c(2) apply_order_held] each [OF c(3) apply_withdraw_held]
    by simp
qed

text \<open>What the contract needs of the codec and of the order in which hash maps yield.\<close>

definition result_codec :: "(bytes \<Rightarrow> clob_result_deltas option) \<Rightarrow> (clob_result_deltas \<Rightarrow> bytes)
    \<Rightarrow> (order_delta list \<Rightarrow> order_delta list) \<Rightarrow> (withdraw_delta list \<Rightarrow> withdraw_delta list)
    \<Rightarrow> (deposit_delta list \<Rightarrow> deposit_delta list) \<Rightarrow> bool" where
  "result_codec decode enc iter_o iter_w iter_d \<longleftrightarrow> (\<forall>d. decode (enc d) = Some d) \<and>
     (\<forall>xs. mset (iter_o xs) = mset xs) \<and> (\<forall>xs. mset (iter_w xs) = mset xs) \<and> (\<forall>xs. mset (iter_d xs) = mset xs)"

text \<open>The contract's balances, in 64 bits, are those of the state.\<close>

definition mirrors :: "clob_consumer \<Rightarrow> clob_state \<Rightarrow> bool" where
  "mirrors c s \<longleftrightarrow> (\<forall>fd a. ucast (held_by c fd a) = balance s fd a)"

lemma receive_batch_held:
  assumes "result_codec decode enc iter_o iter_w iter_d"
    and "zkvm_stf keccak enc iter_o iter_w iter_d reqs s = Some res"
    and "contract_receive_result decode pay c (sar_result res) = Inr c'"
  obtains s' ds where "stf_loop reqs s empty_deltas = Some (s', ds)"
    "\<And>fd a. held_by c' fd a = held_by c fd a + delta_value ds fd a"
proof -
  obtain s' ds where l: "stf_loop reqs s empty_deltas = Some (s', ds)"
    using assms(2) by (auto simp: zkvm_stf_def split: option.splits)
  let ?r = "\<lparr>crd_deposit_deltas = sort (iter_d (map snd (dm_deposits ds))),
    crd_order_deltas = sort (iter_o (map snd (dm_orders ds))), crd_withdraw_deltas = sort (iter_w (map snd (dm_withdraws ds)))\<rparr>"
  have r: "decode (sar_result res) = Some ?r"
    using assms(1,2) by (auto simp: zkvm_stf_def l Let_def result_codec_def)
  have f: "filed dd_account (dm_deposits ds)" "filed od_account (dm_orders ds)" "filed wdd_account (dm_withdraws ds)"
    using filed_stf_loop [OF l] by (simp_all add: deltas_filed_def empty_deltas_def filed_def)
  have m: "mset (sort (iter_d xs)) = mset xs" "mset (sort (iter_o ys)) = mset ys" "mset (sort (iter_w zs)) = mset zs"
    for xs ys zs using assms(1) by (simp_all add: result_codec_def)
  have "held_by c' fd a = held_by c fd a + delta_value ds fd a" for fd a
    using contract_receive_held [OF assms(3) r, of fd a]
    unfolding clob_result_deltas.simps sum_list_mset [OF m(1)] sum_list_mset [OF m(2)] sum_list_mset [OF m(3)]
      filed_sum [OF f(1)] filed_sum [OF f(2)] filed_sum [OF f(3)]
    by (cases fd) (auto simp: delta_value_def part_defs split: option.split)
  with l that show thesis by blast
qed

lemma ucast_add: "ucast (x + y) = (ucast x + ucast y :: u64)" for x y :: u256
proof -
  have c: "ucast (of_int n :: u256) = (of_int n :: u64)" for n by (rule bit_word_eqI) (simp add: bit_simps)
  have "x + y = of_int (uint x + uint y)" "x = of_int (uint x)" "y = of_int (uint y)" by simp_all
  then show ?thesis using c [of "uint x + uint y"] c [of "uint x"] c [of "uint y"] by simp
qed

interpretation clob_app: result_app env
  "zkvm_stf (\<lambda>s. be_keccak256 env (be_state_borsh env s)) enc iter_o iter_w iter_d"
  "contract_receive_result decode pay"
  "\<lambda>reqs s. clean_run reqs s \<and> result_codec decode enc iter_o iter_w iter_d" mirrors
  for env enc iter_o iter_w iter_d decode pay
proof (unfold_locales, goal_cases)
  case 1
  then show ?case by (rule zkvm_stf_root)
next
  case (2 reqs s c res s' c')
  obtain s2 ds where l: "stf_loop reqs s empty_deltas = Some (s2, ds)"
    and held: "\<And>fd a. held_by c' fd a = held_by c fd a + delta_value ds fd a"
    by (rule receive_batch_held [OF conjunct2 [OF 2(1)] 2(3,5)]) blast
  have "s2 = s'" using stf_loop_state [of reqs s empty_deltas] 2(4) by (simp add: l)
  with l have "stf_loop reqs s empty_deltas = Some (s', ds)" by simp
  from stf_loop_balance [OF conjunct1 [OF 2(1)] this] 2(2) show ?case
    by (simp add: mirrors_def held ucast_add)
qed

text \<open>Deposits of users move nothing that mirrors the state.\<close>

lemma contract_deposit_held:
  "contract_deposit p q a x y c = Inr (c', ev) \<Longrightarrow> held_by c' fd = held_by c fd"
  by (cases fd) (auto simp: contract_deposit_def held_by_def split: if_splits option.splits)

lemma contract_deposit_mirrors:
  "contract_deposit p q a x y c = Inr (c', ev) \<Longrightarrow> mirrors c s \<Longrightarrow> mirrors c' s"
  by (simp add: mirrors_def contract_deposit_held)

section \<open>The contract follows the node\<close>

text \<open>
  C9. The contract of the CLOB mirrors the node: once it has taken the results of all batches that the
  node submitted, its state root is that of the state after their requests, and each free and locked
  balance of each user is the balance in this state (modulo 64 bits), provided that no batch cancels
  a partly filled order and every order that trades has an account.
\<close>

theorem contract_mirrors_node:
  assumes reach: "node_reach n (e, db) outs bs" "Suc n < 2 ^ 64"
    and results: "results_of env (zkvm_stf (\<lambda>s. be_keccak256 env (be_state_borsh env s)) enc iter_o iter_w iter_d)
        encode bs rs"
    and codecs: "codecs_agree C env encode" "result_codec decode enc iter_o iter_w iter_d"
    and start: "cn_latest_state_root c = be_keccak256 env (be_state_borsh env default_clob_state)"
      "\<And>fd a. held_by (cn_app c) fd a = 0"
    and clean: "\<forall>b \<in> set bs. clean_run (bat_requests b) (bat_state b)"
    and taken: "receive_all C (contract_receive_result decode pay) rs c = Inr c'"
  shows "\<exists>t. run_ticks (concat (map bat_requests bs)) default_clob_state = Some t
    \<and> cn_latest_state_root c' = be_keccak256 env (be_state_borsh env t)
    \<and> (\<forall>fd a. ucast (held_by (cn_app c') fd a) = balance t fd a)"
proof -
  obtain t where t: "chained default_clob_state bs t" "run_ticks (concat (map bat_requests bs)) default_clob_state = Some t"
    using submitted_chained [OF reach] by blast
  have m: "mirrors (cn_app c) default_clob_state"
    by (auto simp: mirrors_def start(2) balance_def default_clob_state_def default_balance_def Let_def split: field.split)
  from clob_app.receive_chained [OF t(1) results codecs(1) start(1) m, of decode pay] clean codecs(2) taken t(2)
  show ?thesis by (simp add: mirrors_def)
qed

text \<open>A codec for the deltas: a stream of tagged items of five words.\<close>

definition item_bytes :: "u8 \<times> u256 list \<Rightarrow> bytes" where
  "item_bytes x = fst x # concat (map (be_bytes 32) (snd x))"

definition item_words :: "bytes \<Rightarrow> u256 list" where
  "item_words bs = map (\<lambda>i. be_word (take 32 (drop (32 * i) bs))) [0 ..< 5]"

fun read_items :: "nat \<Rightarrow> bytes \<Rightarrow> (u8 \<times> u256 list) list" where
  "read_items 0 bs = []"
| "read_items (Suc n) [] = []"
| "read_items (Suc n) (t # bs) = (t, item_words bs) # read_items n (drop 160 bs)"

definition delta_items :: "clob_result_deltas \<Rightarrow> (u8 \<times> u256 list) list" where
  "delta_items r = map (\<lambda>d. (1, [ucast (dd_account d), dd_base d, dd_quote d, 0, 0])) (crd_deposit_deltas r)
     @ map (\<lambda>d. (2, [ucast (od_account d), od_free_base d, od_locked_base d, od_free_quote d, od_locked_quote d])) (crd_order_deltas r)
     @ map (\<lambda>d. (3, [ucast (wdd_account d), wdd_base d, wdd_quote d, 0, 0])) (crd_withdraw_deltas r)"

definition encode_deltas :: "clob_result_deltas \<Rightarrow> bytes" where
  "encode_deltas r = concat (map item_bytes (delta_items r))"

definition items_of :: "u8 \<Rightarrow> (u8 \<times> u256 list) list \<Rightarrow> u256 list list" where
  "items_of t xs = map snd (filter (\<lambda>x. fst x = t) xs)"

definition decode_deltas :: "bytes \<Rightarrow> clob_result_deltas option" where
  "decode_deltas bs = (let xs = read_items (length bs) bs in
     Some \<lparr>crd_deposit_deltas = map (\<lambda>ws. DepositDelta (ucast (ws ! 0)) (ws ! 1) (ws ! 2)) (items_of 1 xs),
       crd_order_deltas = map (\<lambda>ws. OrderDelta (ucast (ws ! 0)) (ws ! 1) (ws ! 2) (ws ! 3) (ws ! 4)) (items_of 2 xs),
       crd_withdraw_deltas = map (\<lambda>ws. WithdrawDelta (ucast (ws ! 0)) (ws ! 1) (ws ! 2)) (items_of 3 xs)\<rparr>)"

lemma item_words_bytes:
  assumes "length ws = 5"
  shows "item_words (concat (map (be_bytes 32) ws) @ rest) = ws" "length (concat (map (be_bytes 32) ws)) = 160"
proof -
  obtain a b c d e where ws: "ws = [a, b, c, d, e]"
    using assms by (auto simp: length_Suc_conv numeral_eq_Suc)
  have u: "[0 ..< 5] = [0, 1, 2, 3, 4 :: nat]" by (simp add: upt_rec)
  show "item_words (concat (map (be_bytes 32) ws) @ rest) = ws"
    using be_word_be_bytes [where n = 32 and 'a = 256] by (simp add: ws item_words_def u)
  show "length (concat (map (be_bytes 32) ws)) = 160" by (simp add: ws)
qed

lemma read_items_bytes:
  "\<forall>x \<in> set xs. length (snd x) = 5 \<Longrightarrow> length (concat (map item_bytes xs)) \<le> n \<Longrightarrow>
     read_items n (concat (map item_bytes xs)) = xs"
proof (induction xs arbitrary: n)
  case Nil
  then show ?case by (cases n) simp_all
next
  case (Cons x xs)
  note w = item_words_bytes [of "snd x"]
  from Cons.prems obtain k where "n = Suc k" by (cases n) (auto simp: item_bytes_def)
  with Cons show ?case by (simp add: item_bytes_def w)
qed

lemma decode_encode_deltas: "decode_deltas (encode_deltas r) = Some r"
proof -
  have u: "ucast (ucast a :: u256) = a" for a :: address by (rule bit_word_eqI) (simp add: bit_simps)
  have "read_items (length (encode_deltas r)) (encode_deltas r) = delta_items r"
    unfolding encode_deltas_def by (rule read_items_bytes) (auto simp: delta_items_def)
  moreover have "items_of 1 (delta_items r) = map (\<lambda>d. [ucast (dd_account d), dd_base d, dd_quote d, 0, 0]) (crd_deposit_deltas r)"
    "items_of 2 (delta_items r) = map (\<lambda>d. [ucast (od_account d), od_free_base d, od_locked_base d, od_free_quote d,
      od_locked_quote d]) (crd_order_deltas r)"
    "items_of 3 (delta_items r) = map (\<lambda>d. [ucast (wdd_account d), wdd_base d, wdd_quote d, 0, 0]) (crd_withdraw_deltas r)"
    by (simp_all add: items_of_def delta_items_def filter_map comp_def)
  ultimately show ?thesis by (simp add: decode_deltas_def u comp_def)
qed

text \<open>User 1 has deposited what the sample batch credits.\<close>

definition start_consumer :: "clob_consumer consumer" where
  "start_consumer = \<lparr>cn_max_nonce = 0, cn_onchain_input = (\<lambda>_. []), cn_offchain_input_hash = (\<lambda>_. 0),
     cn_latest_state_root = 0, cn_offchain_signer = 9,
     cn_app = \<lparr>cc_deposited_base = (\<lambda>_. 0)(1 := 2), cc_deposited_quote = (\<lambda>_. 0)(1 := 3), cc_free_base = (\<lambda>_. 0),
       cc_free_quote = (\<lambda>_. 0), cc_locked_base = (\<lambda>_. 0), cc_locked_quote = (\<lambda>_. 0)\<rparr>\<rparr>"

lemma start_consumer_zero:
  "cn_latest_state_root start_consumer = be_keccak256 bridge_env (be_state_borsh bridge_env default_clob_state)"
  "held_by (cn_app start_consumer) fd a = 0"
  using bridge_start by (simp_all add: start_consumer_def bridge_consumer_def held_by_def split: field.split)

lemma deltas_codec: "result_codec decode_deltas encode_deltas (\<lambda>xs. xs) (\<lambda>xs. xs) (\<lambda>xs. xs)"
  by (simp add: result_codec_def decode_encode_deltas)

abbreviation mirror_stf :: "request list \<Rightarrow> clob_state \<Rightarrow> stateful_app_result option" where
  "mirror_stf \<equiv> zkvm_stf (\<lambda>s. be_keccak256 bridge_env (be_state_borsh bridge_env s)) encode_deltas
     (\<lambda>xs. xs) (\<lambda>xs. xs) (\<lambda>xs. xs)"

lemma sample_result:
  obtains res where "mirror_stf [sample_deposit] default_clob_state = Some res"
    "sar_result res = encode_deltas \<lparr>crd_deposit_deltas = [DepositDelta 1 2 3], crd_order_deltas = [], crd_withdraw_deltas = []\<rparr>"
  using that by (simp add: zkvm_stf_def sample_deposit_def deposit_eq empty_deltas_def entry_update_def Let_def)

theorem contract_mirrors_node_witness:
  "\<exists>e db b outs rs c t. node_reach 1 (e, db) outs [b] \<and> results_of bridge_env mirror_stf encode_app_result [b] rs
    \<and> receive_all (bridge_contracts (event_job run_event)) (contract_receive_result decode_deltas (\<lambda>_ _ _. True)) rs
        start_consumer = Inr c
    \<and> run_ticks [sample_deposit] default_clob_state = Some t
    \<and> ucast (held_by (cn_app c) FreeQuote 1) = balance t FreeQuote 1"
proof -
  let ?C = "bridge_contracts (event_job run_event)" and ?app = "contract_receive_result decode_deltas (\<lambda>_ _ _. True)"
  obtain e db b outs where b: "node_reach 1 (e, db) outs [b]" "bat_requests b = [sample_deposit]"
    "bat_state b = default_clob_state"
    using sample_batch by blast
  obtain res where res: "mirror_stf [sample_deposit] default_clob_state = Some res"
    "sar_result res = encode_deltas \<lparr>crd_deposit_deltas = [DepositDelta 1 2 3], crd_order_deltas = [], crd_withdraw_deltas = []\<rparr>"
    by (rule sample_result)
  let ?rs = "[(0 :: b256, jp_onchain_input (fst (batch_job bridge_env 0 b)), encode_app_result res)]"
  have rs: "results_of bridge_env mirror_stf encode_app_result [b] ?rs"
    using b(2,3) res(1) by (auto simp: results_of_def)
  note codec = deltas_codec and start = start_consumer_zero
  have "\<exists>c'. ?app (cn_app start_consumer) (sar_result res) = Inr c'"
    by (simp add: contract_receive_result_def res(2) decode_encode_deltas start_consumer_def apply_deposit_def
        sub_at_def add_at_def)
  then obtain c where c: "receive_all ?C ?app ?rs start_consumer = Inr c"
    using start(1) b(3) by (auto simp: receive_batch_result [OF bridge_codecs])
  obtain resp t ds where t: "tick sample_deposit default_clob_state = Some (resp, t, ds)"
    using tick_total [OF state_ok_default] .
  then have clean: "\<forall>b' \<in> set [b]. clean_run (bat_requests b') (bat_state b')"
    using b(2,3) state_ok_default
    by (simp add: clean_cancel_def sample_deposit_def makers_funded_def default_clob_state_def default_book_def book_orders_def
        del: tick.simps)
  have r: "run_ticks (concat (map bat_requests [b])) default_clob_state = Some t" using t b(2) by simp
  with contract_mirrors_node [OF b(1) _ rs bridge_codecs codec start clean c]
  have "ucast (held_by (cn_app c) FreeQuote 1) = balance t FreeQuote 1" by simp
  with b(1) rs c r show ?thesis unfolding b(2) list.map concat.simps append_Nil2 by blast
qed

end
