(* ===== verification/ClobClient.thy ===== *)
theory ClobClient
  imports ClobConsumer "HOL-Library.Countable" "HOL-Library.Char_ord"
begin

text \<open>
  The HTTP client of the CLOB node (\<^verbatim>\<open>examples/clob/client/src/client.rs\<close>) and its command line
  (\<^verbatim>\<open>cli.rs\<close>), with the routes of the node (\<^verbatim>\<open>examples/clob/node/src/app.rs\<close>) that they call. The HTTP
  library, the hex and Borsh codecs, the keys of the development accounts and the chain are parameters;
  what is printed is left out.
\<close>

section \<open>Routes of the node\<close>

definition DEPOSIT :: string where "DEPOSIT = ''/deposit''"
definition WITHDRAW :: string where "WITHDRAW = ''/withdraw''"
definition ORDERS :: string where "ORDERS = ''/orders''"
definition CANCEL :: string where "CANCEL = ''/cancel''"
definition CLOB_STATE :: string where "CLOB_STATE = ''/clob-state''"

lemmas route_defs = DEPOSIT_def WITHDRAW_def ORDERS_def CANCEL_def CLOB_STATE_def

text \<open>The bodies of the \<open>POST\<close> requests, and \<open>GET\<close>.\<close>

datatype body = DepositBody deposit_request | WithdrawBody withdraw_request | OrderBody add_order_request
  | CancelBody cancel_order_request

datatype http_request = Post body | Get

datatype reply = AppReply app_response | StateReply "u64 + string"

text \<open>\<open>None\<close>: the library's own answer to an unknown route, another method or another body.\<close>

definition app :: "(request \<Rightarrow> channel_result) \<Rightarrow> (u64 + string) \<Rightarrow> string \<Rightarrow> http_request \<Rightarrow> reply option" where
  "app engine state route req =
     (case req of
        Post (DepositBody r) \<Rightarrow> if route = DEPOSIT then Some (AppReply (app_deposit engine r)) else None
      | Post (WithdrawBody r) \<Rightarrow> if route = WITHDRAW then Some (AppReply (app_withdraw engine r)) else None
      | Post (OrderBody r) \<Rightarrow> if route = ORDERS then Some (AppReply (app_add_order engine r)) else None
      | Post (CancelBody r) \<Rightarrow> if route = CANCEL then Some (AppReply (app_cancel engine r)) else None
      | Get \<Rightarrow> if route = CLOB_STATE then Some (StateReply state) else None)"

text \<open>\<open>into_good\<close>: \<open>None\<close> is its panic.\<close>

definition into_good :: "app_response \<Rightarrow> api_response option" where
  "into_good r = (case r of Success r \<Rightarrow> Some r | Failure _ \<Rightarrow> None)"

section \<open>The client\<close>

record client =
  clt_base_url :: string

definition client_new :: "string \<Rightarrow> client" where
  "client_new base_url = \<lparr>clt_base_url = base_url\<rparr>"

definition path :: "client \<Rightarrow> string \<Rightarrow> string" where
  "path self route = clt_base_url self @ route"

datatype client_error = UnexpectedAppResponse string | UnexpectedApiResponse response
  | RequestError string | HexError | BorshError

text \<open>\<open>Panicked\<close> is an \<open>unwrap\<close> of a failed \<open>POST\<close>.\<close>

datatype 'a client_result = Panicked | Bailed client_error | Returned 'a

text \<open>\<open>http url body\<close>: the decoded answer, or a failure of the transport or of the decoding.\<close>

definition post :: "(string \<Rightarrow> body \<Rightarrow> app_response option) \<Rightarrow> string \<Rightarrow> body \<Rightarrow> app_response option" where
  "post http url req = http url req"

definition client_cancel :: "(string \<Rightarrow> body \<Rightarrow> app_response option) \<Rightarrow> client \<Rightarrow> cancel_order_request
    \<Rightarrow> (cancel_order_response \<times> u64) client_result" where
  "client_cancel http self req =
     (case post http (path self CANCEL) (CancelBody req) of
        None \<Rightarrow> Panicked
      | Some (Failure e) \<Rightarrow> Bailed (UnexpectedAppResponse e)
      | Some (Success api_resp) \<Rightarrow>
          (case api_response api_resp of
             CancelOrderResp resp \<Rightarrow> Returned (resp, api_global_index api_resp)
           | x \<Rightarrow> Bailed (UnexpectedApiResponse x)))"

definition client_order :: "(string \<Rightarrow> body \<Rightarrow> app_response option) \<Rightarrow> client \<Rightarrow> add_order_request
    \<Rightarrow> (add_order_response \<times> u64) client_result" where
  "client_order http self req =
     (case post http (path self ORDERS) (OrderBody req) of
        None \<Rightarrow> Panicked
      | Some (Failure e) \<Rightarrow> Bailed (UnexpectedAppResponse e)
      | Some (Success api_resp) \<Rightarrow>
          (case api_response api_resp of
             AddOrderResp resp \<Rightarrow> Returned (resp, api_global_index api_resp)
           | x \<Rightarrow> Bailed (UnexpectedApiResponse x)))"

definition client_withdraw :: "(string \<Rightarrow> body \<Rightarrow> app_response option) \<Rightarrow> client \<Rightarrow> withdraw_request
    \<Rightarrow> (withdraw_response \<times> u64) client_result" where
  "client_withdraw http self req =
     (case post http (path self WITHDRAW) (WithdrawBody req) of
        None \<Rightarrow> Panicked
      | Some (Failure e) \<Rightarrow> Bailed (UnexpectedAppResponse e)
      | Some (Success api_resp) \<Rightarrow>
          (case api_response api_resp of
             WithdrawResp resp \<Rightarrow> Returned (resp, api_global_index api_resp)
           | x \<Rightarrow> Bailed (UnexpectedApiResponse x)))"

text \<open>\<open>get_state\<close>: the answer is a hex string of the encoded state.\<close>

definition get_state :: "(string \<Rightarrow> string + string) \<Rightarrow> (string \<Rightarrow> bytes option) \<Rightarrow> (bytes \<Rightarrow> clob_state option) \<Rightarrow> string
    \<Rightarrow> clob_state client_result" where
  "get_state http_get hex_decode borsh_decode url =
     (case http_get url of
        Inl e \<Rightarrow> Bailed (RequestError e)
      | Inr borsh_hex_clob_state \<Rightarrow>
          (case hex_decode borsh_hex_clob_state of
             None \<Rightarrow> Bailed HexError
           | Some borsh \<Rightarrow>
               (case borsh_decode borsh of None \<Rightarrow> Bailed BorshError | Some s \<Rightarrow> Returned s)))"

definition client_clob_state :: "(string \<Rightarrow> string + string) \<Rightarrow> (string \<Rightarrow> bytes option) \<Rightarrow> (bytes \<Rightarrow> clob_state option)
    \<Rightarrow> client \<Rightarrow> clob_state client_result" where
  "client_clob_state http_get hex_decode borsh_decode self =
     get_state http_get hex_decode borsh_decode (path self CLOB_STATE)"

section \<open>The command line\<close>

record cancel_args =
  ca_oid :: u64

record order_args =
  oa_anvil_account :: u32
  oa_is_buy :: bool
  oa_limit_price :: u64
  oa_size :: u64

record withdraw_args =
  wa_anvil_account :: u32
  wa_base_free :: u64
  wa_quote_free :: u64

record deposit_args =
  da_anvil_account :: u32
  da_quote :: u64
  da_base :: u64
  da_eth_rpc :: string

record mint_and_approve_args =
  ma_eth_rpc :: string
  ma_coproc_grpc :: string
  ma_account_count :: nat

record query_args =
  qa_anvil_account :: u32
  qa_eth_rpc :: string

datatype commands = CliCancel cancel_args | CliClobState | CliOrder order_args | CliWithdraw withdraw_args
  | CliDeposit deposit_args | CliMintAndApprove mint_and_approve_args | CliQuery query_args

record cli =
  cli_clob_endpoint :: string
  cli_commands :: commands

record deploy_info =
  di_job_manager :: address
  di_quote_erc20 :: address
  di_base_erc20 :: address
  di_clob_consumer :: address
  di_mock_consumer :: address

text \<open>\<open>get_default_deploy_info\<close>: the file, read and decoded.\<close>

definition get_default_deploy_info :: "(string \<Rightarrow> bytes option) \<Rightarrow> (bytes \<Rightarrow> deploy_info option) \<Rightarrow> deploy_info option" where
  "get_default_deploy_info read_file from_json =
     (case read_file ''./logs/deploy_info.json'' of None \<Rightarrow> None | Some raw_json \<Rightarrow> from_json raw_json)"

text \<open>\<open>print_onchain_balances\<close>: the six getters of the contract, in the order in which they are called.\<close>

definition onchain_balances :: "clob_consumer \<Rightarrow> address \<Rightarrow> u256 list" where
  "onchain_balances c account = [cc_deposited_base c account, cc_deposited_quote c account, cc_free_base c account,
     cc_locked_base c account, cc_free_quote c account, cc_locked_quote c account]"

text \<open>
  What the commands call: the node through the client, the contract's \<open>deposit\<close> (the \<open>u64\<close> amounts
  always fit into 256 bits), its six balances, and the tokens.
\<close>

record cli_env =
  ce_http :: "string \<Rightarrow> body \<Rightarrow> app_response option"
  ce_http_get :: "string \<Rightarrow> string + string"
  ce_hex_decode :: "string \<Rightarrow> bytes option"
  ce_borsh_decode :: "bytes \<Rightarrow> clob_state option"
  ce_account :: "nat \<Rightarrow> address"
  ce_deploy_info :: "deploy_info option"
  ce_deposit :: "string \<Rightarrow> address \<Rightarrow> address \<Rightarrow> u256 \<Rightarrow> u256 \<Rightarrow> bool"
  ce_onchain_balances :: "string \<Rightarrow> address \<Rightarrow> address \<Rightarrow> u256 list option"
  ce_mint_and_approve :: "string \<Rightarrow> deploy_info \<Rightarrow> nat \<Rightarrow> bool"

text \<open>The result of a command: what it prints, or that it panics or fails.\<close>

datatype cli_result =
    CliCancelled "(cancel_order_response \<times> u64) client_result"
  | CliState "clob_state client_result"
  | CliOrdered address "(add_order_response \<times> u64) client_result"
  | CliWithdrawn address "(withdraw_response \<times> u64) client_result"
  | CliDeposited address "u256 list"
  | CliQueried address "u256 list" asset_balance asset_balance
  | CliMinted
  | CliFailed string
  | CliStateFailed "clob_state client_result"

definition order_of_args :: "cli_env \<Rightarrow> order_args \<Rightarrow> add_order_request" where
  "order_of_args env a = \<lparr>ao_address = ce_account env (unat (oa_anvil_account a)), ao_is_buy = oa_is_buy a,
     ao_limit_price = oa_limit_price a, ao_size = oa_size a\<rparr>"

definition withdraw_of_args :: "cli_env \<Rightarrow> withdraw_args \<Rightarrow> withdraw_request" where
  "withdraw_of_args env a = \<lparr>wd_address = ce_account env (unat (wa_anvil_account a)),
     wd_base_free = wa_base_free a, wd_quote_free = wa_quote_free a\<rparr>"

definition cli_deposit :: "cli_env \<Rightarrow> deposit_args \<Rightarrow> cli_result" where
  "cli_deposit env a =
     (case ce_deploy_info env of
        None \<Rightarrow> CliFailed ''deploy info''
      | Some info \<Rightarrow>
          let user = ce_account env (unat (da_anvil_account a)) in
          if \<not> ce_deposit env (da_eth_rpc a) (di_clob_consumer info) user (ucast (da_base a)) (ucast (da_quote a))
          then CliFailed ''deposit''
          else (case ce_onchain_balances env (da_eth_rpc a) (di_clob_consumer info) user of
                  None \<Rightarrow> CliFailed ''balances'' | Some bs \<Rightarrow> CliDeposited user bs))"

definition cli_query :: "cli_env \<Rightarrow> client \<Rightarrow> query_args \<Rightarrow> cli_result" where
  "cli_query env client a =
     (let user = ce_account env (unat (qa_anvil_account a)) in
      case ce_deploy_info env of
        None \<Rightarrow> CliFailed ''deploy info''
      | Some info \<Rightarrow>
          (case ce_onchain_balances env (qa_eth_rpc a) (di_clob_consumer info) user of
             None \<Rightarrow> CliFailed ''balances''
           | Some bs \<Rightarrow>
               (case client_clob_state (ce_http_get env) (ce_hex_decode env) (ce_borsh_decode env) client of
                  Returned clob_state \<Rightarrow>
                    (case cs_base clob_state user of None \<Rightarrow> CliFailed ''missing clob base balance''
                     | Some clob_base \<Rightarrow>
                         (case cs_quote clob_state user of None \<Rightarrow> CliFailed ''missing clob quote balance''
                          | Some clob_quote \<Rightarrow> CliQueried user bs clob_base clob_quote))
                | r \<Rightarrow> CliStateFailed r)))"

definition cli_run :: "cli_env \<Rightarrow> cli \<Rightarrow> cli_result" where
  "cli_run env args =
     (let client = client_new (cli_clob_endpoint args) in
      case cli_commands args of
        CliCancel a \<Rightarrow> CliCancelled (client_cancel (ce_http env) client \<lparr>co_oid = ca_oid a\<rparr>)
      | CliClobState \<Rightarrow> CliState (client_clob_state (ce_http_get env) (ce_hex_decode env) (ce_borsh_decode env) client)
      | CliOrder a \<Rightarrow> (let order = order_of_args env a in CliOrdered (ao_address order) (client_order (ce_http env) client order))
      | CliWithdraw a \<Rightarrow> (let withdraw = withdraw_of_args env a
          in CliWithdrawn (wd_address withdraw) (client_withdraw (ce_http env) client withdraw))
      | CliDeposit a \<Rightarrow> cli_deposit env a
      | CliQuery a \<Rightarrow> cli_query env client a
      | CliMintAndApprove a \<Rightarrow>
          (case ce_deploy_info env of
             None \<Rightarrow> CliFailed ''deploy info''
           | Some info \<Rightarrow> if ce_mint_and_approve env (ma_eth_rpc a) info (ma_account_count a)
               then CliMinted else CliFailed ''mint and approve''))"

section \<open>Requests of a client on a running node\<close>

text \<open>The engine's answer to one request, and where it is then: it receives the request and processes it.\<close>

definition engine_answer :: "engine \<times> clob_db \<Rightarrow> request \<Rightarrow> channel_result \<times> engine \<times> clob_db" where
  "engine_answer c req =
     (case engine_step c (Recv req) of
        None \<Rightarrow> (SendFailed, c)
      | Some (c1, _) \<Rightarrow>
          (case engine_step c1 Process of
             Some (c2, [resp]) \<Rightarrow> (Answered resp, c2)
           | _ \<Rightarrow> (RecvFailed, c1)))"

text \<open>
  The node serves its routes under the client's URL: the client gets the answers of \<open>app\<close>, and of
  \<open>GET\<close> only the state, not the error.
\<close>

definition serves :: "client \<Rightarrow> (string \<Rightarrow> http_request \<Rightarrow> reply option) \<Rightarrow> (string \<Rightarrow> body \<Rightarrow> app_response option)
    \<Rightarrow> (string \<Rightarrow> string + string) \<Rightarrow> bool" where
  "serves self routes http http_get \<longleftrightarrow>
     (\<forall>route b r. routes route (Post b) = Some (AppReply r) \<longrightarrow> http (path self route) b = Some r) \<and>
     (\<forall>route x. routes route Get = Some (StateReply (Inr x)) \<longrightarrow> http_get (path self route) = Inr x)"

lemma engine_answers:
  assumes "node_reach n (Idle g s, db) outs bs" and "Suc (Suc n) < 2 ^ 64"
  obtains resp s' ds db' where "tick req s = Some (resp, s', ds)"
    "engine_answer (Idle g s, db) req = (Answered \<lparr>api_response = resp, api_global_index = g + 1\<rparr>, Idle (g + 1) s', db')"
    "node_reach (Suc n) (Idle (g + 1) s', db') (outs @ [\<lparr>api_response = resp, api_global_index = g + 1\<rparr>]) bs"
proof -
  let ?db = "write_request (g + 1) req db"
  have r: "engine_step (Idle g s, db) (Recv req) = Some ((Seen (g + 1) s req, ?db), [])" by (simp add: Let_def)
  from node_reach.engine [OF assms(1) r] have 1: "node_reach (Suc n) (Seen (g + 1) s req, ?db) outs bs" by simp
  have "engine_step (Seen (g + 1) s req, ?db) Process \<noteq> None"
    by (rule engine_inv_enabled [OF node_engine_inv [OF 1 assms(2)]]) (use assms(2) in simp_all)
  then obtain resp s' ds where t: "tick req s = Some (resp, s', ds)" by (auto split: option.splits)
  let ?db' = "write_results (g + 1) resp s' ds ?db"
  have p: "engine_step (Seen (g + 1) s req, ?db) Process =
      Some ((Idle (g + 1) s', ?db'), [\<lparr>api_response = resp, api_global_index = g + 1\<rparr>])"
    by (simp add: t)
  from node_reach.engine [OF 1 p]
  have "node_reach (Suc n) (Idle (g + 1) s', ?db') (outs @ [\<lparr>api_response = resp, api_global_index = g + 1\<rparr>]) bs" by simp
  with t show thesis
    using that [of resp s' ds ?db'] by (simp add: engine_answer_def r p del: engine_step.simps)
qed

text \<open>The response of each request is of its own kind.\<close>

lemma tick_kinds:
  "tick (AddOrder ao) s = Some (resp, s', ds) \<Longrightarrow> \<exists>r. resp = AddOrderResp r"
  "tick (CancelOrder co) s = Some (resp, s', ds) \<Longrightarrow> \<exists>r. resp = CancelOrderResp r"
  "tick (Withdraw wd) s = Some (resp, s', ds) \<Longrightarrow> \<exists>r. resp = WithdrawResp r"
  by (auto split: option.splits prod.splits)

lemma state_after:
  assumes "node_reach n (Idle g s, db) outs bs" and "Suc n < 2 ^ 64"
    and "serves self (app engine (app_clob_state borsh hex db)) http http_get"
    and "\<And>x. hex_decode (hex x) = Some x" and "\<And>x. borsh_decode (borsh x) = Some x"
  shows "client_clob_state http_get hex_decode borsh_decode self = Returned s"
  using assms clob_state_view_current [OF assms(1,2), of borsh hex]
  by (simp add: serves_def app_def client_clob_state_def get_state_def)

text \<open>
  C24. The client of a running node never gets an unexpected answer, and reads its own writes: an order,
  a cancellation and a withdrawal each return the engine's own response to this request, with the
  next index, and the state that the client reads after a request is the state after this request.
\<close>

theorem client_requests_answered:
  assumes reach: "node_reach n (Idle g s, db) outs bs" "Suc (Suc n) < 2 ^ 64"
    and node: "\<And>c. serves self (app (\<lambda>r. fst (engine_answer c r)) (app_clob_state borsh hex (snd c))) (http c) (http_get c)"
    and codec: "\<And>x. hex_decode (hex x) = Some x" "\<And>x. borsh_decode (borsh x) = Some x"
  shows "(\<exists>r s' ds. tick (AddOrder ao) s = Some (AddOrderResp r, s', ds)
      \<and> client_order (http (Idle g s, db)) self ao = Returned (r, g + 1)
      \<and> client_clob_state (http_get (snd (engine_answer (Idle g s, db) (AddOrder ao)))) hex_decode borsh_decode self = Returned s')
    \<and> (\<exists>r s' ds. tick (CancelOrder co) s = Some (CancelOrderResp r, s', ds)
      \<and> client_cancel (http (Idle g s, db)) self co = Returned (r, g + 1)
      \<and> client_clob_state (http_get (snd (engine_answer (Idle g s, db) (CancelOrder co)))) hex_decode borsh_decode self = Returned s')
    \<and> (\<exists>r s' ds. tick (Withdraw wd) s = Some (WithdrawResp r, s', ds)
      \<and> client_withdraw (http (Idle g s, db)) self wd = Returned (r, g + 1)
      \<and> client_clob_state (http_get (snd (engine_answer (Idle g s, db) (Withdraw wd)))) hex_decode borsh_decode self = Returned s')"
proof -
  let ?c = "(Idle g s, db)"
  have h: "http ?c (path self route) b = Some r"
    if "app (\<lambda>r. fst (engine_answer ?c r)) (app_clob_state borsh hex db) route (Post b) = Some (AppReply r)" for route b r
    using node [of ?c] that by (simp add: serves_def)
  have ex: "\<exists>resp s' ds. tick req s = Some (resp, s', ds)
      \<and> fst (engine_answer ?c req) = Answered \<lparr>api_response = resp, api_global_index = g + 1\<rparr>
      \<and> client_clob_state (http_get (snd (engine_answer ?c req))) hex_decode borsh_decode self = Returned s'" for req
  proof (rule engine_answers [OF reach, of req])
    fix resp s' ds db'
    assume a: "tick req s = Some (resp, s', ds)"
      "engine_answer ?c req = (Answered \<lparr>api_response = resp, api_global_index = g + 1\<rparr>, Idle (g + 1) s', db')"
      "node_reach (Suc n) (Idle (g + 1) s', db') (outs @ [\<lparr>api_response = resp, api_global_index = g + 1\<rparr>]) bs"
    from state_after [OF a(3) reach(2) _ codec, of self _ "http (Idle (g + 1) s', db')"] node [of "(Idle (g + 1) s', db')"]
    have "client_clob_state (http_get (Idle (g + 1) s', db')) hex_decode borsh_decode self = Returned s'" by simp
    with a show ?thesis by (intro exI [of _ resp] exI [of _ s'] exI [of _ ds]) simp
  qed
  note defs = post_def app_def route_defs handle_request_def
  show ?thesis
    using ex [of "AddOrder ao"] ex [of "CancelOrder co"] ex [of "Withdraw wd"]
    by (intro conjI)
      ((elim exE conjE, frule tick_kinds, force simp: h client_order_def app_add_order_def defs simp del: tick.simps),
       (elim exE conjE, frule tick_kinds, force simp: h client_cancel_def app_cancel_def defs simp del: tick.simps),
       (elim exE conjE, frule tick_kinds, force simp: h client_withdraw_def app_withdraw_def defs simp del: tick.simps))
qed

section \<open>A sample node\<close>

text \<open>States can be numbered, so they can be encoded.\<close>

instance asset_balance_ext :: (countable) countable
  by (rule countable_classI [of "\<lambda>r. to_nat (ab_free r, ab_locked r, asset_balance.more r)"]) auto

instance order_ext :: (countable) countable
  by (rule countable_classI [of "\<lambda>r. to_nat (ord_is_buy r, ord_limit_price r, ord_size r, ord_oid r, ord_address r, order.more r)"]) auto

instance order_fill_ext :: (countable) countable
  by (rule countable_classI [of "\<lambda>r. to_nat (fl_maker_oid r, fl_taker_oid r, fl_size r, fl_price r, fl_buyer r, fl_seller r,
    order_fill.more r)"]) auto

instance fill_status_ext :: (countable) countable
  by (rule countable_classI [of "\<lambda>r. to_nat (fs_oid r, fs_size r, fs_address r, fs_filled_size r, fs_fills r, fill_status.more r)"]) auto

instance order_book_ext :: (countable) countable
  by (rule countable_classI [of "\<lambda>r. to_nat (ob_bids r, ob_asks r, ob_oid_to_level r, order_book.more r)"]) auto

instance clob_state_ext :: (countable) countable
  by (rule countable_classI [of "\<lambda>r. to_nat (cs_oid r, cs_base r, cs_quote r, cs_book r, cs_status r, clob_state.more r)"]) auto

definition sample_borsh :: "clob_state \<Rightarrow> bytes" where
  "sample_borsh s = replicate (to_nat s) 0"

definition sample_unborsh :: "bytes \<Rightarrow> clob_state option" where
  "sample_unborsh bs = Some (from_nat (length bs))"

definition sample_hex :: "bytes \<Rightarrow> string" where
  "sample_hex bs = map (\<lambda>b. char_of (unat b)) bs"

definition sample_unhex :: "string \<Rightarrow> bytes option" where
  "sample_unhex cs = Some (map (\<lambda>c. of_nat (of_char c)) cs)"

lemma sample_codecs: "sample_unborsh (sample_borsh s) = Some s" "sample_unhex (sample_hex bs) = Some bs"
proof -
  show "sample_unborsh (sample_borsh s) = Some s" by (simp add: sample_unborsh_def sample_borsh_def)
  have "of_nat (of_char (char_of (unat b) :: char)) = b" for b :: u8
  proof -
    have "unat b < 256" using unsigned_less [of b] by simp
    then show ?thesis by simp
  qed
  then show "sample_unhex (sample_hex bs) = Some bs" by (simp add: sample_unhex_def sample_hex_def o_def)
qed

text \<open>A transport to the node that serves under the empty URL.\<close>

definition sample_client :: client where
  "sample_client = client_new []"

definition sample_routes :: "engine \<times> clob_db \<Rightarrow> string \<Rightarrow> http_request \<Rightarrow> reply option" where
  "sample_routes c = app (\<lambda>r. fst (engine_answer c r)) (app_clob_state sample_borsh sample_hex (snd c))"

definition sample_http :: "engine \<times> clob_db \<Rightarrow> string \<Rightarrow> body \<Rightarrow> app_response option" where
  "sample_http c url b = (case sample_routes c url (Post b) of Some (AppReply r) \<Rightarrow> Some r | _ \<Rightarrow> None)"

definition sample_http_get :: "engine \<times> clob_db \<Rightarrow> string \<Rightarrow> string + string" where
  "sample_http_get c url = (case sample_routes c url Get of Some (StateReply (Inr x)) \<Rightarrow> Inr x | _ \<Rightarrow> Inl ''no route'')"

lemma sample_serves:
  "serves sample_client (app (\<lambda>r. fst (engine_answer c r)) (app_clob_state sample_borsh sample_hex (snd c)))
     (sample_http c) (sample_http_get c)"
  unfolding serves_def sample_http_def sample_http_get_def sample_routes_def [symmetric]
  by (simp add: path_def sample_client_def client_new_def)

text \<open>An order without an account on a fresh node: refused, with index 1.\<close>

theorem client_requests_answered_witness:
  "client_order (sample_http (Idle 0 default_clob_state, ClobNode.empty_db\<lparr>db_clob_state := [0 \<mapsto> default_clob_state]\<rparr>)) sample_client
      \<lparr>ao_address = 1, ao_is_buy = True, ao_limit_price = 3, ao_size = 1\<rparr> = Returned (add_failed, 1)"
proof -
  have t: "tick (AddOrder \<lparr>ao_address = 1, ao_is_buy = True, ao_limit_price = 3, ao_size = 1\<rparr>) default_clob_state =
      Some (AddOrderResp add_failed, default_clob_state, [Noop])"
    by (simp add: add_order_def default_clob_state_def)
  show ?thesis
    using client_requests_answered [OF sample_reach _ sample_serves sample_codecs(2,1),
      of "\<lparr>ao_address = 1, ao_is_buy = True, ao_limit_price = 3, ao_size = 1\<rparr>"] t
    by (simp del: tick.simps)
qed

end
