(* ===== verification/ClobScenarios.thy ===== *)
theory ClobScenarios
  imports ClobCore
begin

text \<open>
  Concrete runs of the CLOB state machine that show where the accounting of
  \<^verbatim>\<open>examples/clob/core/src/lib.rs\<close> and \<^verbatim>\<open>examples/clob/core/src/orderbook.rs\<close> departs from the
  documented meaning of the balances (a locked amount belongs to a resting order and can be
  unlocked by cancelling it). Each theorem evaluates \<open>tick\<close> over a short list of requests from
  the empty state.
\<close>

definition dep :: "address \<Rightarrow> u64 \<Rightarrow> u64 \<Rightarrow> request" where
  "dep a b q = Deposit \<lparr>dep_address = a, dep_base_free = b, dep_quote_free = q\<rparr>"

definition sell :: "address \<Rightarrow> u64 \<Rightarrow> u64 \<Rightarrow> request" where
  "sell a price sz = AddOrder \<lparr>ao_address = a, ao_is_buy = False, ao_limit_price = price, ao_size = sz\<rparr>"

definition buy :: "address \<Rightarrow> u64 \<Rightarrow> u64 \<Rightarrow> request" where
  "buy a price sz = AddOrder \<lparr>ao_address = a, ao_is_buy = True, ao_limit_price = price, ao_size = sz\<rparr>"

lemmas scenario_defs = default_clob_state_def default_book_def deposit_eq add_order_def limit_eq_spec
  spec_limit_def spec_book_def crossing_makers_def spec_fills_def enqueue_order_alt level_at_def
  lock_funds_def settle_fill_def settle_balances_def fill_quote_size_def order_quote_size_def
  update_maker_status_def add_free_def sub_locked_def lock_amount_def unlock_amount_def
  and_modify_def and_modify_or_insert_def Let_def dep_def sell_def buy_def
  cancel_order_def cancel_def remove_from_level_def remove_nth_def to_order_def book_orders_def

text \<open>
  Cancelling a resting sell order of which 4 of 10 have been taken unlocks 2 instead of the
  remaining 6, although the order is gone: the size of the order in the book is already reduced,
  and \<open>cancel_order\<close> subtracts the filled size again. The diff reports 6.
\<close>

theorem cancel_after_partial_fill_keeps_funds_locked:
  "case run_ticks [dep 1 10 0, dep 2 0 100, sell 1 1 10, buy 2 1 4] default_clob_state of
     None \<Rightarrow> False
   | Some s \<Rightarrow> cs_base s 1 = Some \<lparr>ab_free = 0, ab_locked = 6\<rparr> \<and>
      (case tick (CancelOrder \<lparr>co_oid = 0\<rparr>) s of
         None \<Rightarrow> False
       | Some (resp, s', ds) \<Rightarrow> resp_success resp \<and> ds = [DCancel 1 6 0] \<and>
           cs_base s' 1 = Some \<lparr>ab_free = 2, ab_locked = 4\<rparr> \<and> book_orders (cs_book s') = [])"
  by (simp add: scenario_defs)

text \<open>
  A buyer whose order fills completely at a better price than its limit keeps the difference
  locked although it has no order left that could be cancelled.
\<close>

theorem price_improvement_stays_locked:
  "case run_ticks [dep 1 10 0, dep 2 0 100, sell 1 4 10, buy 2 6 10] default_clob_state of
     None \<Rightarrow> False
   | Some s \<Rightarrow> book_orders (cs_book s) = [] \<and> cs_quote s 2 = Some \<lparr>ab_free = 40, ab_locked = 20\<rparr>"
  by (simp add: scenario_defs)

text \<open>
  A taker that is partly filled rests with its original size, so it is filled for more than it
  ordered: account 2 ordered 8, received 13, and its locked balance wraps around below zero.
\<close>

theorem resting_taker_is_overfilled:
  "case run_ticks [dep 1 5 0, dep 2 0 8, dep 3 8 0, sell 1 1 5, buy 2 1 8, sell 3 1 8] default_clob_state of
     None \<Rightarrow> False
   | Some s \<Rightarrow> cs_base s 2 = Some \<lparr>ab_free = 13, ab_locked = 0\<rparr> \<and>
       cs_quote s 2 = Some \<lparr>ab_free = 0, ab_locked = 2 ^ 64 - 5\<rparr>"
  by (simp add: scenario_defs)

text \<open>
  The quote amount of an order is a wrapping product, so an account without any funds can place
  a buy order of size \<open>2 ^ 32\<close> at price \<open>2 ^ 32\<close>.
\<close>

theorem unfunded_order_is_accepted:
  "case run_ticks [dep 2 0 0] default_clob_state of
     None \<Rightarrow> False
   | Some s \<Rightarrow> cs_quote s 2 = Some default_balance \<and>
      (case tick (buy 2 4294967296 4294967296) s of
         None \<Rightarrow> False
       | Some (resp, s', ds) \<Rightarrow> resp_success resp \<and> length (book_orders (cs_book s')) = 1)"
  by (simp add: scenario_defs default_balance_def)

text \<open>
  An order at price 0 locks nothing, so its account can be withdrawn to nothing and disappears
  while the order rests: when the order is filled, the base asset that the seller pays is credited
  to nobody.
\<close>

theorem filled_for_missing_account:
  "case run_ticks [dep 1 5 0, dep 2 0 1, buy 2 0 5,
       Withdraw \<lparr>wd_address = 2, wd_base_free = 0, wd_quote_free = 1\<rparr>, sell 1 0 5] default_clob_state of
     None \<Rightarrow> False
   | Some s \<Rightarrow> cs_base s 2 = None \<and> cs_base s 1 = Some \<lparr>ab_free = 0, ab_locked = 0\<rparr> \<and>
       book_orders (cs_book s) = []"
  by (simp add: scenario_defs withdraw_def default_balance_def)

end
