(* ===== verification/Solvency.thy ===== *)
theory Solvency
  imports ClobScenarios ClobConsumer
begin

text \<open>
  When the results of the CLOB node settle. The arithmetic of \<^verbatim>\<open>ClobConsumer.sol\<close> is checked, so the
  balances move as integers and a result may be refused. Two directions: batches in which no balance of
  the node wraps around and whose deposits are backed by deposits on the contract all settle, and
  the contract follows the node exactly; an order that is filled for more than it asked for, and a deposit that was
  made on the node's HTTP route only, stop settlement for good.
\<close>

section \<open>The deltas of a run as integers\<close>

fun run_diffs :: "request list \<Rightarrow> clob_state \<Rightarrow> diff list" where
  "run_diffs [] s = []"
| "run_diffs (req # reqs) s = (case tick req s of None \<Rightarrow> [] | Some (_, s', ds) \<Rightarrow> ds @ run_diffs reqs s')"

lemma stf_loop_diffs: "stf_loop reqs s ds = Some (s', ds') \<Longrightarrow> ds' = fold apply_diff (run_diffs reqs s) ds"
  by (induction reqs arbitrary: s ds) (auto split: option.splits)

text \<open>What the diffs pay in and pay out, and what the deposit requests credit.\<close>

definition paid_in :: "diff list \<Rightarrow> field \<Rightarrow> address \<Rightarrow> int" where
  "paid_in dfs fd a = (\<Sum>d \<leftarrow> dfs. case d of DDeposit u b q \<Rightarrow> diff_effect d fd a | _ \<Rightarrow> 0)"

definition paid_out :: "diff list \<Rightarrow> field \<Rightarrow> address \<Rightarrow> int" where
  "paid_out dfs fd a = (\<Sum>d \<leftarrow> dfs. case d of DWithdraw u b q \<Rightarrow> - diff_effect d fd a | _ \<Rightarrow> 0)"

definition credited :: "request list \<Rightarrow> field \<Rightarrow> address \<Rightarrow> int" where
  "credited reqs fd a = (\<Sum>r \<leftarrow> reqs. case r of
     Deposit d \<Rightarrow> if dep_address d = a then move (uint (dep_base_free d)) 0 (uint (dep_quote_free d)) 0 fd else 0 | _ \<Rightarrow> 0)"

lemma paid_simps [simp]:
  "paid_in [] fd a = 0" "paid_in (d # ds) fd a = (case d of DDeposit u b q \<Rightarrow> diff_effect d fd a | _ \<Rightarrow> 0) + paid_in ds fd a"
  "paid_in (ds @ es) fd a = paid_in ds fd a + paid_in es fd a"
  "paid_out [] fd a = 0" "paid_out (d # ds) fd a = (case d of DWithdraw u b q \<Rightarrow> - diff_effect d fd a | _ \<Rightarrow> 0) + paid_out ds fd a"
  "paid_out (ds @ es) fd a = paid_out ds fd a + paid_out es fd a"
  "credited [] fd a = 0"
  by (simp_all add: paid_in_def paid_out_def credited_def)

lemma credited_append [simp]: "credited (xs @ ys) fd a = credited xs fd a + credited ys fd a"
  by (simp add: credited_def)

definition entry_value :: "('d \<Rightarrow> 'v::zero) \<Rightarrow> (address \<times> 'd) list \<Rightarrow> address \<Rightarrow> 'v" where
  "entry_value part m a = (case map_of m a of None \<Rightarrow> 0 | Some d \<Rightarrow> part d)"

lemma apply_diff_parts:
  "entry_value (deposit_part fd) (dm_deposits (apply_diff d ds)) a =
     entry_value (deposit_part fd) (dm_deposits ds) a + of_int (paid_in [d] fd a)"
  "entry_value (withdraw_part fd) (dm_withdraws (apply_diff d ds)) a =
     entry_value (withdraw_part fd) (dm_withdraws ds) a - of_int (paid_out [d] fd a)"
  by (cases d; cases fd; auto simp: entry_value_def deposit_part_def withdraw_part_def order_entry_def move_def Let_def
      split: option.splits)+

lemma fold_apply_diff_parts:
  "entry_value (deposit_part fd) (dm_deposits (fold apply_diff dfs ds)) a =
     entry_value (deposit_part fd) (dm_deposits ds) a + of_int (paid_in dfs fd a)"
  "entry_value (withdraw_part fd) (dm_withdraws (fold apply_diff dfs ds)) a =
     entry_value (withdraw_part fd) (dm_withdraws ds) a - of_int (paid_out dfs fd a)"
proof (induction dfs arbitrary: ds)
  case (Cons d dfs)
  {
    case 1
    show ?case using Cons(1) [of "apply_diff d ds"] apply_diff_parts(1) [of fd d ds a] by (simp add: algebra_simps)
  next
    case 2
    show ?case using Cons(2) [of "apply_diff d ds"] apply_diff_parts(2) [of fd d ds a] by (simp add: algebra_simps)
  }
qed simp_all

lemma delta_value_parts:
  "delta_value ds fd a = entry_value (order_part fd) (dm_orders ds) a
     + entry_value (deposit_part fd) (dm_deposits ds) a + entry_value (withdraw_part fd) (dm_withdraws ds) a"
  by (cases fd) (auto simp: delta_value_def entry_value_def part_defs split: option.splits)

lemma run_parts:
  assumes "stf_loop reqs s empty_deltas = Some (s', ds)"
  defines "dfs \<equiv> run_diffs reqs s"
  shows "entry_value (deposit_part fd) (dm_deposits ds) a = of_int (paid_in dfs fd a)"
    and "entry_value (withdraw_part fd) (dm_withdraws ds) a = - of_int (paid_out dfs fd a)"
    and "entry_value (order_part fd) (dm_orders ds) a =
      of_int (total_effect dfs fd a - paid_in dfs fd a + paid_out dfs fd a)"
proof -
  have ds: "ds = fold apply_diff dfs empty_deltas" unfolding dfs_def by (rule stf_loop_diffs [OF assms(1)])
  have e: "entry_value (deposit_part fd) (dm_deposits empty_deltas) a = 0"
    "entry_value (withdraw_part fd) (dm_withdraws empty_deltas) a = 0"
    by (simp_all add: entry_value_def empty_deltas_def)
  show i: "entry_value (deposit_part fd) (dm_deposits ds) a = of_int (paid_in dfs fd a)"
    and o: "entry_value (withdraw_part fd) (dm_withdraws ds) a = - of_int (paid_out dfs fd a)"
    by (simp_all add: ds fold_apply_diff_parts e)
  have "delta_value ds fd a = of_int (total_effect dfs fd a)" by (simp add: ds fold_apply_diff_value)
  with i o show "entry_value (order_part fd) (dm_orders ds) a =
      of_int (total_effect dfs fd a - paid_in dfs fd a + paid_out dfs fd a)"
    by (simp add: delta_value_parts algebra_simps)
qed

text \<open>Only a deposit pays in, only a withdrawal pays out, and neither more than 64 bits at a time.\<close>

lemma fills_paid [simp]: "paid_in (map (fill_diff r) fs) fd a = 0" "paid_out (map (fill_diff r) fs) fd a = 0"
  by (induction fs) (simp_all add: fill_diff_def)

lemma tick_paid:
  assumes "tick req s = Some (resp, s', ds)"
  shows "paid_in ds fd a = credited [req] fd a" and "0 \<le> paid_out ds fd a" and "paid_out ds fd a < 2 ^ 64"
proof -
  have lt: "uint w < 18446744073709551616" for w :: u64 using uint_lt2p [of w] by simp
  have "paid_in ds fd a = credited [req] fd a \<and> 0 \<le> paid_out ds fd a \<and> paid_out ds fd a < 2 ^ 64"
  proof (cases req)
    case (AddOrder r)
    have "paid_in [snd (lock_funds r x t)] fd a = 0 \<and> paid_out [snd (lock_funds r x t)] fd a = 0" for x t
      by (simp add: lock_funds_def)
    with AddOrder assms show ?thesis
      by (auto simp: add_order_def credited_def Let_def split_beta settle_fills_snd simp del: paid_simps(2,5)
        split: option.splits if_splits)
         (simp_all add: paid_simps(2,5))
  next
    case (CancelOrder r)
    with assms show ?thesis
      by (auto simp: cancel_order_def credited_def Let_def split: prod.splits option.splits if_splits)
  next
    case (Deposit r)
    with assms show ?thesis by (auto simp: deposit_eq credited_def)
  next
    case (Withdraw r)
    with assms show ?thesis
      by (cases fd) (auto simp: withdraw_def credited_def move_def Let_def lt split: option.splits if_splits)
  qed
  then show "paid_in ds fd a = credited [req] fd a" "0 \<le> paid_out ds fd a" "paid_out ds fd a < 2 ^ 64" by simp_all
qed

lemma credited_bounds: "0 \<le> credited reqs fd a \<and> credited reqs fd a \<le> int (length reqs) * 2 ^ 64"
proof (induction reqs)
  case (Cons r reqs)
  have "0 \<le> credited [r] fd a \<and> credited [r] fd a \<le> 2 ^ 64"
  proof (cases r)
    case (Deposit d)
    with uint_lt2p [of "dep_base_free d"] uint_lt2p [of "dep_quote_free d"] show ?thesis
      by (cases fd) (simp_all add: credited_def move_def)
  qed (simp_all add: credited_def)
  with Cons.IH credited_append [of "[r]" reqs fd a] show ?case by (simp add: algebra_simps)
qed simp

lemma run_paid:
  assumes "run_ticks reqs s = Some s'"
  shows "paid_in (run_diffs reqs s) fd a = credited reqs fd a"
    and "0 \<le> paid_out (run_diffs reqs s) fd a" and "paid_out (run_diffs reqs s) fd a \<le> int (length reqs) * 2 ^ 64"
proof -
  have "paid_in (run_diffs reqs s) fd a = credited reqs fd a \<and> 0 \<le> paid_out (run_diffs reqs s) fd a
      \<and> paid_out (run_diffs reqs s) fd a \<le> int (length reqs) * 2 ^ 64"
    using assms
  proof (induction reqs arbitrary: s)
    case (Cons req reqs)
    then obtain resp s1 d1 where t: "tick req s = Some (resp, s1, d1)" and "run_ticks reqs s1 = Some s'"
      by (auto split: option.splits)
    with Cons.IH [of s1] tick_paid [OF t, of fd a] credited_append [of "[req]" reqs fd a]
    show ?case by (simp add: t algebra_simps)
  qed simp
  then show "paid_in (run_diffs reqs s) fd a = credited reqs fd a" "0 \<le> paid_out (run_diffs reqs s) fd a"
    "paid_out (run_diffs reqs s) fd a \<le> int (length reqs) * 2 ^ 64" by simp_all
qed

text \<open>A run in which no request moves a balance below zero or over 64 bits: its balances move as integers.\<close>

fun exact_run :: "request list \<Rightarrow> clob_state \<Rightarrow> bool" where
  "exact_run [] s \<longleftrightarrow> True"
| "exact_run (req # reqs) s \<longleftrightarrow> (case tick req s of None \<Rightarrow> False
     | Some (_, s', ds) \<Rightarrow> (\<forall>fd a. 0 \<le> uint (balance s fd a) + total_effect ds fd a
         \<and> uint (balance s fd a) + total_effect ds fd a < 2 ^ 64) \<and> exact_run reqs s')"

lemma exact_run_balance:
  assumes "clean_run reqs s" and "exact_run reqs s" and "run_ticks reqs s = Some s'"
  shows "uint (balance s' fd a) = uint (balance s fd a) + total_effect (run_diffs reqs s) fd a"
  using assms
proof (induction reqs arbitrary: s)
  case (Cons req reqs)
  then obtain resp s1 d1 where t: "tick req s = Some (resp, s1, d1)" by (auto split: option.splits)
  let ?n = "uint (balance s fd a) + total_effect d1 fd a"
  have "balance s1 fd a = balance s fd a + of_int (total_effect d1 fd a)"
    using Cons.prems(1) t by (intro tick_effect) auto
  then have "balance s1 fd a = of_int ?n" by simp
  moreover have "0 \<le> ?n \<and> ?n < 2 ^ 64" using Cons.prems(2) t by simp
  ultimately have "uint (balance s1 fd a) = ?n"
    using take_bit_int_eq_self [of ?n 64] by (simp add: uint_word_of_int_eq del: of_int_add)
  with Cons.IH [of s1] Cons.prems t show ?case by simp
qed simp

section \<open>Results that the contract takes\<close>

text \<open>The contract's arithmetic is checked, so what it does not refuse moves as integers.\<close>

lemma uint_of_int: "0 \<le> n \<Longrightarrow> n < 2 ^ 256 \<Longrightarrow> uint (of_int n :: u256) = n"
  using take_bit_int_eq_self [of n 256] by (simp add: uint_word_of_int_eq)

lemma sint_of_int: "- (2 ^ 255) \<le> n \<Longrightarrow> n < 2 ^ 255 \<Longrightarrow> sint (of_int n :: u256) = n"
  using signed_take_bit_int_eq_self [of 255 n] by (simp add: sint_sbintrunc')

definition in_range :: "int \<Rightarrow> bool" where
  "in_range n \<longleftrightarrow> 0 \<le> n \<and> n < 2 ^ 256"

lemma uint_range: "in_range n \<Longrightarrow> x = of_int n \<Longrightarrow> uint x = n" for x :: u256
  by (simp add: in_range_def uint_of_int)

lemma add_at_ok:
  assumes "in_range (uint (m a) + uint v)"
  shows "add_at a v m = Some (m(a := m a + v))" and "uint (m a + v) = uint (m a) + uint v"
proof -
  show u: "uint (m a + v) = uint (m a) + uint v" by (rule uint_range [OF assms]) simp
  have "\<not> m a + v < m a" unfolding word_less_def u using uint_ge_0 [of v] by linarith
  then show "add_at a v m = Some (m(a := m a + v))" by (simp add: add_at_def)
qed

lemma sub_at_ok:
  assumes "in_range (uint (m a) - uint v)"
  shows "sub_at a v m = Some (m(a := m a - v))" and "uint (m a - v) = uint (m a) - uint v"
proof -
  show "uint (m a - v) = uint (m a) - uint v" by (rule uint_range [OF assms]) simp
  have "\<not> m a < v" using assms by (simp add: word_less_def in_range_def)
  then show "sub_at a v m = Some (m(a := m a - v))" by (simp add: sub_at_def)
qed

lemma delta_at_ok:
  assumes "in_range (uint (m a) + sint i)" and "sint i \<noteq> - (2 ^ 255)"
  shows "delta_at a i m = Some (m(a := m a + i))" and "uint (m a + i) = uint (m a) + sint i"
proof -
  show "uint (m a + i) = uint (m a) + sint i" by (rule uint_range [OF assms(1)]) simp
  show "delta_at a i m = Some (m(a := m a + i))"
  proof (cases "0 \<le> sint i")
    case True
    have "uint i = sint i" using True sint_less [of i] by (intro uint_range) (simp_all add: in_range_def)
    with assms(1) True add_at_ok(1) [of m a i] show ?thesis by (simp add: delta_at_def)
  next
    case False
    have "uint (- i) = - sint i"
      using False sint_greater_eq [of i] by (intro uint_range) (simp_all add: in_range_def)
    with assms False sub_at_ok(1) [of m a "- i"] show ?thesis by (simp add: delta_at_def)
  qed
qed

text \<open>All six balances of a user, and what a delta adds to each.\<close>

datatype pot = DepositedBase | DepositedQuote | Balance field

lemma pot_cases [case_names DepositedBase DepositedQuote FreeBase LockedBase FreeQuote LockedQuote]:
  "(p = DepositedBase \<Longrightarrow> P) \<Longrightarrow> (p = DepositedQuote \<Longrightarrow> P) \<Longrightarrow> (p = Balance FreeBase \<Longrightarrow> P) \<Longrightarrow>
     (p = Balance LockedBase \<Longrightarrow> P) \<Longrightarrow> (p = Balance FreeQuote \<Longrightarrow> P) \<Longrightarrow> (p = Balance LockedQuote \<Longrightarrow> P) \<Longrightarrow> P"
  by (metis field.exhaust pot.exhaust)

definition pots :: "clob_consumer \<Rightarrow> address \<Rightarrow> pot \<Rightarrow> int" where
  "pots c a p = (case p of DepositedBase \<Rightarrow> uint (cc_deposited_base c a) | DepositedQuote \<Rightarrow> uint (cc_deposited_quote c a)
     | Balance fd \<Rightarrow> uint (held_by c fd a))"

definition deposit_move :: "deposit_delta \<Rightarrow> pot \<Rightarrow> int" where
  "deposit_move d p = (case p of DepositedBase \<Rightarrow> - uint (dd_base d) | DepositedQuote \<Rightarrow> - uint (dd_quote d)
     | Balance fd \<Rightarrow> uint (deposit_part fd d))"

definition order_move :: "order_delta \<Rightarrow> pot \<Rightarrow> int" where
  "order_move d p = (case p of Balance fd \<Rightarrow> sint (order_part fd d) | _ \<Rightarrow> 0)"

definition withdraw_move :: "withdraw_delta \<Rightarrow> pot \<Rightarrow> int" where
  "withdraw_move d p = (case p of Balance FreeBase \<Rightarrow> - uint (wdd_base d) | Balance FreeQuote \<Rightarrow> - uint (wdd_quote d) | _ \<Rightarrow> 0)"

lemmas pot_defs = pots_def deposit_move_def order_move_def withdraw_move_def part_defs

definition moved :: "(address \<Rightarrow> pot \<Rightarrow> int) \<Rightarrow> address \<Rightarrow> (pot \<Rightarrow> int) \<Rightarrow> address \<Rightarrow> pot \<Rightarrow> int" where
  "moved v a f = v(a := \<lambda>p. v a p + f p)"

lemma apply_deposit_ok:
  assumes "\<And>p. in_range (pots c (dd_account d) p + deposit_move d p)"
  shows "\<exists>c'. apply_deposit d c = Some c' \<and> pots c' = moved (pots c) (dd_account d) (deposit_move d)"
proof -
  let ?a = "dd_account d"
  note r = assms [unfolded pot_defs]
  have 1: "in_range (uint (cc_deposited_base c ?a) - uint (dd_base d))" using r [of DepositedBase] by simp
  have 2: "in_range (uint (cc_deposited_quote c ?a) - uint (dd_quote d))" using r [of DepositedQuote] by simp
  have 3: "in_range (uint (cc_free_base c ?a) + uint (dd_base d))" using r [of "Balance FreeBase"] by simp
  have 4: "in_range (uint (cc_free_quote c ?a) + uint (dd_quote d))" using r [of "Balance FreeQuote"] by simp
  note ok = sub_at_ok [of "cc_deposited_base c" ?a "dd_base d", OF 1] sub_at_ok [of "cc_deposited_quote c" ?a "dd_quote d", OF 2]
    add_at_ok [of "cc_free_base c" ?a "dd_base d", OF 3] add_at_ok [of "cc_free_quote c" ?a "dd_quote d", OF 4]
  show ?thesis
    by (auto simp: apply_deposit_def Let_def ok pot_defs moved_def fun_eq_iff split: pot.split field.split)
qed

lemma apply_order_ok:
  assumes "\<And>p. in_range (pots c (od_account d) p + order_move d p)" and "\<And>fd. sint (order_part fd d) \<noteq> - (2 ^ 255)"
  shows "\<exists>c'. apply_order d c = Some c' \<and> pots c' = moved (pots c) (od_account d) (order_move d)"
proof -
  let ?a = "od_account d"
  note r = assms(1) [unfolded pot_defs] and e = assms(2) [unfolded order_part_def]
  have 1: "in_range (uint (cc_free_base c ?a) + sint (od_free_base d))" using r [of "Balance FreeBase"] by simp
  have 2: "in_range (uint (cc_locked_base c ?a) + sint (od_locked_base d))" using r [of "Balance LockedBase"] by simp
  have 3: "in_range (uint (cc_free_quote c ?a) + sint (od_free_quote d))" using r [of "Balance FreeQuote"] by simp
  have 4: "in_range (uint (cc_locked_quote c ?a) + sint (od_locked_quote d))" using r [of "Balance LockedQuote"] by simp
  have n: "sint (od_free_base d) \<noteq> - (2 ^ 255)" "sint (od_locked_base d) \<noteq> - (2 ^ 255)"
    "sint (od_free_quote d) \<noteq> - (2 ^ 255)" "sint (od_locked_quote d) \<noteq> - (2 ^ 255)"
    using e [of FreeBase] e [of LockedBase] e [of FreeQuote] e [of LockedQuote] by simp_all
  note ok = delta_at_ok [of "cc_free_base c" ?a, OF 1 n(1)] delta_at_ok [of "cc_locked_base c" ?a, OF 2 n(2)]
    delta_at_ok [of "cc_free_quote c" ?a, OF 3 n(3)] delta_at_ok [of "cc_locked_quote c" ?a, OF 4 n(4)]
  show ?thesis
    by (auto simp: apply_order_def Let_def ok pot_defs moved_def fun_eq_iff split: pot.split field.split)
qed

lemma apply_withdraw_ok:
  assumes "\<And>p. in_range (pots c (wdd_account d) p + withdraw_move d p)" and "\<And>x y. pay (wdd_account d) x y"
  shows "\<exists>c'. apply_withdraw pay d c = Some c' \<and> pots c' = moved (pots c) (wdd_account d) (withdraw_move d)"
proof -
  let ?a = "wdd_account d"
  note r = assms(1) [unfolded pot_defs]
  have 1: "in_range (uint (cc_free_base c ?a) - uint (wdd_base d))" using r [of "Balance FreeBase"] by simp
  have 2: "in_range (uint (cc_free_quote c ?a) - uint (wdd_quote d))" using r [of "Balance FreeQuote"] by simp
  note ok = sub_at_ok [of "cc_free_base c" ?a, OF 1] sub_at_ok [of "cc_free_quote c" ?a, OF 2]
  show ?thesis
    by (auto simp: apply_withdraw_def Let_def assms(2) ok pot_defs moved_def fun_eq_iff split: pot.split field.split)
qed

text \<open>Deltas of distinct users are all applied when each one alone could be.\<close>

lemma apply_each_ok:
  assumes "distinct (map acct ds)" and "\<forall>d \<in> set ds. ok d (pots c (acct d))"
    and step: "\<And>d c. ok d (pots c (acct d)) \<Longrightarrow> \<exists>c'. f d c = Some c' \<and> pots c' = moved (pots c) (acct d) (amount d)"
  shows "\<exists>c'. apply_each f ds c = Some c' \<and>
    (\<forall>a p. pots c' a p = pots c a p + (\<Sum>d \<leftarrow> ds. if acct d = a then amount d p else 0))"
  using assms(1,2)
proof (induction ds arbitrary: c)
  case (Cons d ds)
  then obtain c1 where c1: "f d c = Some c1" "pots c1 = moved (pots c) (acct d) (amount d)"
    using step [of d c] by auto
  have "\<forall>e \<in> set ds. acct e \<noteq> acct d" using Cons.prems(1) by (simp add: image_iff) metis
  then have "\<forall>e \<in> set ds. ok e (pots c1 (acct e))" using Cons.prems(2) by (simp add: c1(2) moved_def)
  with Cons.IH [of c1] Cons.prems(1) obtain c' where "apply_each f ds c1 = Some c'"
    "\<forall>a p. pots c' a p = pots c1 a p + (\<Sum>d \<leftarrow> ds. if acct d = a then amount d p else 0)" by auto
  then show ?case by (intro exI [of _ c']) (simp add: c1 moved_def)
qed simp

lemma apply_filed_ok:
  assumes f: "filed acct m" and m: "mset ds = mset (map snd m)"
    and ok: "\<And>a d. map_of m a = Some d \<Longrightarrow> ok d (pots c a)"
    and step: "\<And>d c. ok d (pots c (acct d)) \<Longrightarrow> \<exists>c'. f d c = Some c' \<and> pots c' = moved (pots c) (acct d) (amount d)"
  shows "\<exists>c'. apply_each f ds c = Some c' \<and> (\<forall>a p. pots c' a p = pots c a p + entry_value (\<lambda>d. amount d p) m a)"
proof -
  have "map acct (map snd m) = map fst m" using f by (auto simp: filed_def)
  then have "mset (map acct ds) = mset (map fst m)" using m by (metis mset_map)
  then have "distinct (map acct ds)" using f mset_eq_imp_distinct_iff unfolding filed_def by blast
  moreover have "ok d (pots c (acct d))" if "d \<in> set ds" for d
  proof -
    have "d \<in> snd ` set m" using that mset_eq_setD [OF m] by simp
    then obtain a where "(a, d) \<in> set m" by force
    then have "acct d = a" "map_of m a = Some d" using f by (auto simp: filed_def)
    with ok show ?thesis by simp
  qed
  moreover have "(\<Sum>d \<leftarrow> ds. if acct d = a then amount d p else 0) = entry_value (\<lambda>d. amount d p) m a" for a p
    unfolding sum_list_mset [OF m] entry_value_def by (rule filed_sum [OF f])
  ultimately show ?thesis using apply_each_ok [of acct ds ok c f amount] step by simp
qed

lemma entry_value_fun:
  "g 0 = 0 \<Longrightarrow> entry_value (\<lambda>d. g (part d)) m a = g (entry_value part m a)"
  by (simp add: entry_value_def split: option.split)

lemma paid_out_locked: "fd = LockedBase \<or> fd = LockedQuote \<Longrightarrow> paid_out dfs fd a = 0"
  by (induction dfs) (auto simp: move_def split: diff.split)

lemma order_bounds:
  fixes x y c l w :: int
  shows "0 \<le> x \<Longrightarrow> x < 2 ^ 64 \<Longrightarrow> 0 \<le> y \<Longrightarrow> y < 2 ^ 64 \<Longrightarrow> 0 \<le> c \<and> c \<le> l \<Longrightarrow> 0 \<le> w \<Longrightarrow> w \<le> l \<Longrightarrow> l < 2 ^ 128 \<Longrightarrow>
    - (2 ^ 255) \<le> x - y - c + w \<and> x - y - c + w < 2 ^ 255"
  by simp

text \<open>The moves of the three maps that a run leaves.\<close>

lemma run_deposit_moves:
  assumes run: "stf_loop reqs s empty_deltas = Some (s', ds)" and len: "length reqs < 2 ^ 64"
  shows "entry_value (\<lambda>d. deposit_move d p) (dm_deposits ds) a = (case p of
        DepositedBase \<Rightarrow> - credited reqs FreeBase a | DepositedQuote \<Rightarrow> - credited reqs FreeQuote a
      | Balance fd \<Rightarrow> credited reqs fd a)"
proof -
  have rt: "run_ticks reqs s = Some s'" using stf_loop_state [of reqs s empty_deltas] run by simp
  have l: "int (length reqs) * 2 ^ 64 < 2 ^ 128" using len by simp
  have c: "uint (of_int (credited reqs fd a) :: u256) = credited reqs fd a" for fd a
    using credited_bounds [of reqs fd a] l by (intro uint_of_int) simp_all
  have "uint (entry_value (deposit_part fd) (dm_deposits ds) a) = credited reqs fd a" for fd
    by (simp only: run_parts(1) [OF run] run_paid(1) [OF rt] c)
  then have d: "entry_value (\<lambda>d. uint (deposit_part fd d)) (dm_deposits ds) a = credited reqs fd a" for fd
    by (simp add: entry_value_fun [of uint])
  show ?thesis
    using d [of FreeBase] d [of FreeQuote] d
    by (cases p) (simp_all add: deposit_move_def deposit_part_def entry_value_fun [of "\<lambda>n. - n"])
qed

lemma run_moves:
  assumes run: "stf_loop reqs s empty_deltas = Some (s', ds)" and clean: "clean_run reqs s" "exact_run reqs s"
    and len: "length reqs < 2 ^ 64"
  shows "entry_value (\<lambda>d. deposit_move d p) (dm_deposits ds) a = (case p of
        DepositedBase \<Rightarrow> - credited reqs FreeBase a | DepositedQuote \<Rightarrow> - credited reqs FreeQuote a
      | Balance fd \<Rightarrow> credited reqs fd a)"
    and "entry_value (\<lambda>d. order_move d p) (dm_orders ds) a = (case p of
        Balance fd \<Rightarrow> uint (balance s' fd a) - uint (balance s fd a) - credited reqs fd a + paid_out (run_diffs reqs s) fd a
      | _ \<Rightarrow> 0)"
    and "entry_value (\<lambda>d. withdraw_move d p) (dm_withdraws ds) a = (case p of
        Balance fd \<Rightarrow> - paid_out (run_diffs reqs s) fd a | _ \<Rightarrow> 0)"
proof -
  let ?dfs = "run_diffs reqs s"
  have rt: "run_ticks reqs s = Some s'" using stf_loop_state [of reqs s empty_deltas] run by simp
  note parts = run_parts [OF run] and paid = run_paid [OF rt]
  have l: "int (length reqs) * 2 ^ 64 < 2 ^ 128" using len by simp
  have w: "uint (of_int (paid_out ?dfs fd a) :: u256) = paid_out ?dfs fd a" for fd a
    using paid(2,3) [of fd a] l by (intro uint_of_int) simp_all
  show "entry_value (\<lambda>d. deposit_move d p) (dm_deposits ds) a = (case p of
        DepositedBase \<Rightarrow> - credited reqs FreeBase a | DepositedQuote \<Rightarrow> - credited reqs FreeQuote a
      | Balance fd \<Rightarrow> credited reqs fd a)"
    by (rule run_deposit_moves [OF run len])
  have "uint (- entry_value (withdraw_part fd) (dm_withdraws ds) a) = paid_out ?dfs fd a" for fd
    by (simp only: parts(2) minus_minus w)
  then have e: "entry_value (\<lambda>d. - uint (- withdraw_part fd d)) (dm_withdraws ds) a = - paid_out ?dfs fd a" for fd
    by (simp add: entry_value_fun [of "\<lambda>x. - uint (- x)"])
  show "entry_value (\<lambda>d. withdraw_move d p) (dm_withdraws ds) a = (case p of
        Balance fd \<Rightarrow> - paid_out ?dfs fd a | _ \<Rightarrow> 0)"
    using e [of FreeBase] e [of FreeQuote] paid_out_locked [of LockedBase ?dfs a] paid_out_locked [of LockedQuote ?dfs a]
    by (cases p rule: pot_cases) (simp_all add: withdraw_move_def withdraw_part_def entry_value_def split: option.splits)
  have t: "total_effect ?dfs fd a = uint (balance s' fd a) - uint (balance s fd a)" for fd
    by (simp add: exact_run_balance [OF clean rt])
  have "sint (entry_value (order_part fd) (dm_orders ds) a) =
      uint (balance s' fd a) - uint (balance s fd a) - credited reqs fd a + paid_out ?dfs fd a" for fd
    unfolding parts(3) paid(1) t
    using order_bounds [of "uint (balance s' fd a)" "uint (balance s fd a)" "credited reqs fd a" "int (length reqs) * 2 ^ 64"
        "paid_out ?dfs fd a"] credited_bounds [of reqs fd a] paid(2,3) [of fd a] l
      uint_lt2p [of "balance s' fd a"] uint_lt2p [of "balance s fd a"]
    by (intro sint_of_int) simp_all
  then show "entry_value (\<lambda>d. order_move d p) (dm_orders ds) a = (case p of
        Balance fd \<Rightarrow> uint (balance s' fd a) - uint (balance s fd a) - credited reqs fd a + paid_out ?dfs fd a
      | _ \<Rightarrow> 0)"
    by (cases p) (simp_all add: order_move_def entry_value_fun [of sint], simp_all add: entry_value_def split: option.split)
qed

text \<open>The contract holds exactly what the node's state says.\<close>

definition holds_exactly :: "clob_consumer \<Rightarrow> clob_state \<Rightarrow> bool" where
  "holds_exactly c s \<longleftrightarrow> (\<forall>fd a. uint (held_by c fd a) = uint (balance s fd a))"

text \<open>The deposits on the contract are those that requests to come will credit, and \<open>rest\<close>.\<close>

definition backed :: "(address \<Rightarrow> field \<Rightarrow> int) \<Rightarrow> request list \<Rightarrow> clob_consumer \<Rightarrow> bool" where
  "backed rest reqs c \<longleftrightarrow> (\<forall>a. 0 \<le> rest a FreeBase \<and> uint (cc_deposited_base c a) = rest a FreeBase + credited reqs FreeBase a
     \<and> 0 \<le> rest a FreeQuote \<and> uint (cc_deposited_quote c a) = rest a FreeQuote + credited reqs FreeQuote a)"

definition good_batch :: "request list \<Rightarrow> clob_state \<Rightarrow> bool" where
  "good_batch reqs s \<longleftrightarrow> clean_run reqs s \<and> exact_run reqs s \<and> length reqs < 2 ^ 64"

lemma contract_takes:
  assumes codec: "result_codec decode enc iter_o iter_w iter_d" and pay: "\<And>a x y. pay a x y"
    and res: "zkvm_stf keccak enc iter_o iter_w iter_d reqs s = Some res" and s': "run_ticks reqs s = Some s'"
    and good: "good_batch reqs s" and holds: "holds_exactly c s" and funded: "backed rest (reqs @ later) c"
  shows "\<exists>c'. contract_receive_result decode pay c (sar_result res) = Inr c' \<and> holds_exactly c' s' \<and> backed rest later c'"
proof -
  obtain ds where l: "stf_loop reqs s empty_deltas = Some (s', ds)"
    using res stf_loop_state [of reqs s empty_deltas] s' by (auto simp: zkvm_stf_def split: option.splits)
  note g = good [unfolded good_batch_def]
  note moves = run_moves [OF l conjunct1 [OF g] conjunct1 [OF conjunct2 [OF g]] conjunct2 [OF conjunct2 [OF g]]]
  let ?out = "paid_out (run_diffs reqs s)"
  have f: "filed dd_account (dm_deposits ds)" "filed od_account (dm_orders ds)" "filed wdd_account (dm_withdraws ds)"
    using filed_stf_loop [OF l] by (simp_all add: deltas_filed_def empty_deltas_def filed_def)
  define dd oo ww where "dd = sort (iter_d (map snd (dm_deposits ds)))" and "oo = sort (iter_o (map snd (dm_orders ds)))"
    and "ww = sort (iter_w (map snd (dm_withdraws ds)))"
  have m: "mset dd = mset (map snd (dm_deposits ds))" "mset oo = mset (map snd (dm_orders ds))"
    "mset ww = mset (map snd (dm_withdraws ds))"
    using codec by (simp_all add: dd_def oo_def ww_def result_codec_def)
  have r: "decode (sar_result res) = Some \<lparr>crd_deposit_deltas = dd, crd_order_deltas = oo, crd_withdraw_deltas = ww\<rparr>"
    using codec res by (auto simp: zkvm_stf_def l Let_def result_codec_def dd_def oo_def ww_def)
  have entry: "map_of xs a = Some d \<Longrightarrow> g d = entry_value g xs a" for xs :: "(address \<times> 'd) list" and g :: "'d \<Rightarrow> int" and a d
    by (simp add: entry_value_def)
  have u: "0 \<le> uint (balance t fd a) \<and> uint (balance t fd a) < 2 ^ 64" for t fd a
    using uint_lt2p [of "balance t fd a"] by simp
  have cr: "0 \<le> credited reqs fd a \<and> credited reqs fd a < 2 ^ 128 \<and> 0 \<le> ?out fd a \<and> ?out fd a < 2 ^ 128" for fd a
    using credited_bounds [of reqs fd a] run_paid(2,3) [OF s', of fd a] g by simp
  have b: "0 \<le> rest a FreeBase \<and> 0 \<le> rest a FreeQuote" "0 \<le> credited later fd a"
    "uint (cc_deposited_base c a) = rest a FreeBase + (credited reqs FreeBase a + credited later FreeBase a)"
    "uint (cc_deposited_quote c a) = rest a FreeQuote + (credited reqs FreeQuote a + credited later FreeQuote a)" for a fd
    using funded credited_bounds [of later fd a] by (simp_all add: backed_def)
  have dep: "uint (cc_deposited_base c a) < 2 ^ 256 \<and> uint (cc_deposited_quote c a) < 2 ^ 256" for a
    using uint_lt2p [of "cc_deposited_base c a"] uint_lt2p [of "cc_deposited_quote c a"] by simp
  have h: "pots c a (Balance fd) = uint (balance s fd a)" for a fd
    using holds by (simp add: pots_def holds_exactly_def)
  have in1: "in_range (pots c a p + entry_value (\<lambda>d. deposit_move d p) (dm_deposits ds) a)" for a p
  proof (cases p)
    case (Balance fd)
    then show ?thesis using u [of s fd a] cr [of fd a] by (simp add: moves(1) h in_range_def)
  qed (use b(1) [of a] b(2) [of FreeBase a] b(2) [of FreeQuote a] b(3,4) [of a] dep [of a] cr [of FreeBase a] cr [of FreeQuote a]
      in \<open>simp_all add: moves(1) in_range_def pots_def\<close>)
  have "\<exists>c'. apply_each apply_deposit dd c = Some c' \<and>
      (\<forall>a p. pots c' a p = pots c a p + entry_value (\<lambda>d. deposit_move d p) (dm_deposits ds) a)"
  proof (rule apply_filed_ok [OF f(1) m(1), where ok = "\<lambda>d v. \<forall>p. in_range (v p + deposit_move d p)"])
    fix a d assume e: "map_of (dm_deposits ds) a = Some d"
    show "(\<lambda>d v. \<forall>p. in_range (v p + deposit_move d p)) d (pots c a)" using in1 [of a] by (simp add: entry_value_def e)
  qed (use apply_deposit_ok in blast)
  then obtain c1 where c1: "apply_each apply_deposit dd c = Some c1"
    "\<And>a p. pots c1 a p = pots c a p + entry_value (\<lambda>d. deposit_move d p) (dm_deposits ds) a" by blast
  have h1: "pots c1 a (Balance fd) = uint (balance s fd a) + credited reqs fd a" for a fd
    by (simp add: c1(2) moves(1) h)
  have in2: "in_range (pots c1 a p + entry_value (\<lambda>d. order_move d p) (dm_orders ds) a)" for a p
  proof (cases p)
    case (Balance fd)
    then show ?thesis using u [of s' fd a] cr [of fd a] by (simp add: moves(2) h1 in_range_def)
  qed (use in1 [of a p] in \<open>simp_all add: moves(2) c1(2)\<close>)
  have ext: "sint (order_part fd d) \<noteq> - (2 ^ 255)" if "map_of (dm_orders ds) a = Some d" for a d fd
  proof -
    have o: "sint (order_part fd d) = uint (balance s' fd a) - uint (balance s fd a) - credited reqs fd a + ?out fd a"
      using entry [OF that, of "\<lambda>d. order_move d (Balance fd)"] moves(2) [of "Balance fd" a] by (simp add: order_move_def)
    have "- (2 ^ 64 + 2 ^ 128) < sint (order_part fd d)" unfolding o using u [of s fd a] u [of s' fd a] cr [of fd a] by linarith
    then show ?thesis by auto
  qed
  have "\<exists>c'. apply_each apply_order oo c1 = Some c' \<and>
      (\<forall>a p. pots c' a p = pots c1 a p + entry_value (\<lambda>d. order_move d p) (dm_orders ds) a)"
  proof (rule apply_filed_ok [OF f(2) m(2), where ok = "\<lambda>d v. (\<forall>p. in_range (v p + order_move d p)) \<and> (\<forall>fd. sint (order_part fd d) \<noteq> - (2 ^ 255))"])
    fix a d assume e: "map_of (dm_orders ds) a = Some d"
    show "(\<lambda>d v. (\<forall>p. in_range (v p + order_move d p)) \<and> (\<forall>fd. sint (order_part fd d) \<noteq> - (2 ^ 255))) d (pots c1 a)" using in2 [of a] ext [OF e] by (simp add: entry_value_def e)
  qed (use apply_order_ok in blast)
  then obtain c2 where c2: "apply_each apply_order oo c1 = Some c2"
    "\<And>a p. pots c2 a p = pots c1 a p + entry_value (\<lambda>d. order_move d p) (dm_orders ds) a" by blast
  have h2: "pots c2 a (Balance fd) = uint (balance s' fd a) + ?out fd a" for a fd
    by (simp add: c2(2) moves(2) h1)
  have in3: "in_range (pots c2 a p + entry_value (\<lambda>d. withdraw_move d p) (dm_withdraws ds) a)" for a p
  proof (cases p)
    case (Balance fd)
    then show ?thesis using u [of s' fd a] by (simp add: moves(3) h2 in_range_def)
  qed (use in2 [of a p] in \<open>simp_all add: moves(3) c2(2)\<close>)
  have "\<exists>c'. apply_each (apply_withdraw pay) ww c2 = Some c' \<and>
      (\<forall>a p. pots c' a p = pots c2 a p + entry_value (\<lambda>d. withdraw_move d p) (dm_withdraws ds) a)"
  proof (rule apply_filed_ok [OF f(3) m(3), where ok = "\<lambda>d v. \<forall>p. in_range (v p + withdraw_move d p)"])
    fix a d assume e: "map_of (dm_withdraws ds) a = Some d"
    show "(\<lambda>d v. \<forall>p. in_range (v p + withdraw_move d p)) d (pots c2 a)" using in3 [of a] by (simp add: entry_value_def e)
  qed (use apply_withdraw_ok pay in blast)
  then obtain c3 where c3: "apply_each (apply_withdraw pay) ww c2 = Some c3"
    "\<And>a p. pots c3 a p = pots c2 a p + entry_value (\<lambda>d. withdraw_move d p) (dm_withdraws ds) a" by blast
  have "holds_exactly c3 s'"
    unfolding holds_exactly_def
  proof (intro allI)
    fix fd a
    have "pots c3 a (Balance fd) = uint (balance s' fd a)" by (simp add: c3(2) moves(3) h2)
    then show "uint (held_by c3 fd a) = uint (balance s' fd a)" by (simp add: pots_def)
  qed
  moreover have "backed rest later c3"
  proof -
    have "pots c3 a DepositedBase = pots c a DepositedBase - credited reqs FreeBase a"
      "pots c3 a DepositedQuote = pots c a DepositedQuote - credited reqs FreeQuote a" for a
      by (simp_all add: c3(2) c2(2) c1(2) moves)
    with b show ?thesis by (simp add: backed_def pots_def)
  qed
  ultimately show ?thesis
    by (intro exI [of _ c3]) (simp add: contract_receive_result_def r c1(1) c2(1) c3(1))
qed

text \<open>
  An application that takes every result of a good batch, as long as it covers the requests to come:
  then no result stops the chain.
\<close>

locale live_app = result_app env stf app good "\<lambda>_ _. True"
  for env :: batch_env and stf :: "request list \<Rightarrow> clob_state \<Rightarrow> stateful_app_result option"
    and app :: "'a \<Rightarrow> bytes \<Rightarrow> string + 'a" and good :: "request list \<Rightarrow> clob_state \<Rightarrow> bool" +
  fixes covers :: "request list \<Rightarrow> 'a \<Rightarrow> clob_state \<Rightarrow> bool"
  assumes app_live: "good reqs s \<Longrightarrow> covers (reqs @ later) a s \<Longrightarrow> stf reqs s = Some res \<Longrightarrow>
      run_ticks reqs s = Some s' \<Longrightarrow> \<exists>a'. app a (sar_result res) = Inr a' \<and> covers later a' s'"
begin

lemma receive_chained_live:
  assumes "chained s bs t" and "results_of env stf encode bs rs" and C: "codecs_agree C env encode"
    and "cn_latest_state_root c = be_keccak256 env (be_state_borsh env s)"
    and "\<forall>b \<in> set bs. good (bat_requests b) (bat_state b)"
    and "covers (concat (map bat_requests bs)) (cn_app c) s"
  shows "\<exists>c'. receive_all C app rs c = Inr c' \<and> cn_latest_state_root c' = be_keccak256 env (be_state_borsh env t)
    \<and> covers [] (cn_app c') t"
  using assms(1,2,4-)
proof (induction bs arbitrary: s rs c)
  case Nil
  then show ?case by (simp add: results_of_def)
next
  case (Cons b bs)
  then obtain m i nonce res rs' where m: "bat_state b = s" "run_ticks (bat_requests b) s = Some m" "chained m bs t"
    and res: "stf (bat_requests b) s = Some res" "results_of env stf encode bs rs'"
    and rs: "rs = (i, jp_onchain_input (fst (batch_job env nonce b)), encode res) # rs'"
    by (auto simp: results_of_def list_all2_Cons1)
  have root: "sar_output_state_root res = be_keccak256 env (be_state_borsh env m)"
    using stf_root [of "bat_requests b" s] res(1) m(2) by simp
  have g: "good (bat_requests b) s" using Cons.prems(4) m(1) by simp
  have "covers (bat_requests b @ concat (map bat_requests bs)) (cn_app c) s" using Cons.prems(5) by simp
  from app_live [OF g this res(1) m(2)] obtain a where
    a: "app (cn_app c) (sar_result res) = Inr a" "covers (concat (map bat_requests bs)) a m" by blast
  with Cons.IH [OF m(3) res(2)] Cons.prems(3,4) m(1) root show ?case
    by (simp add: rs receive_batch_result [OF C])
qed

end

text \<open>The CLOB's contract is one: \<open>rest\<close> are the deposits that no request will credit.\<close>

interpretation solvent_app: live_app env
  "zkvm_stf (\<lambda>s. be_keccak256 env (be_state_borsh env s)) enc iter_o iter_w iter_d"
  "contract_receive_result decode pay"
  "\<lambda>reqs s. good_batch reqs s \<and> result_codec decode enc iter_o iter_w iter_d \<and> (\<forall>a x y. pay a x y)"
  "\<lambda>later c s. backed rest later c \<and> holds_exactly c s"
  for env enc iter_o iter_w iter_d decode pay rest
proof (unfold_locales, goal_cases)
  case 1
  then show ?case by (rule zkvm_stf_root)
next
  case (3 reqs s later a res s')
  then show ?case using contract_takes [of decode enc iter_o iter_w iter_d pay _ reqs s res s' a rest later] by blast
qed simp

lemma submitted_lengths:
  assumes "node_reach n (e, db) outs bs" and "Suc n < 2 ^ 64" and "b \<in> set bs"
  shows "length (bat_requests b) < 2 ^ 64"
proof -
  have ni: "node_inv n (e, db) outs bs" by (rule node_reach_inv [OF assms(1,2)])
  then have "batches_ok db bs" by (simp add: node_inv_def)
  then obtain k where "chain db 0 bs k" "k \<le> unat (processed_index db)"
    using assms(3) by (auto simp: batches_ok_def split: option.splits)
  moreover have "chain db a bs k \<Longrightarrow> b \<in> set bs \<Longrightarrow> length (bat_requests b) \<le> k" for a
    by (induction bs arbitrary: a) (auto simp: batch_ok_def dest: chain_le)
  ultimately have "length (bat_requests b) \<le> unat (processed_index db)" using assms(3) by force
  also have "\<dots> < 2 ^ 64" using unsigned_less [of "processed_index db"] by simp
  finally show ?thesis .
qed

text \<open>
  C10. Backed batches settle: when no balance of the node wraps around, no partly filled order is
  cancelled, every order that trades has an account, the tokens transfer, and the users have deposited
  on the contract what the requests credit, then the contract takes the results of all batches
  that the node submits. It then has the root of the state after their requests, holds for each user exactly the
  balances of this state, and keeps exactly the deposits that were not credited.
\<close>

theorem backed_batches_settle:
  assumes reach: "node_reach n (e, db) outs bs" "Suc n < 2 ^ 64"
    and results: "results_of env (zkvm_stf (\<lambda>s. be_keccak256 env (be_state_borsh env s)) enc iter_o iter_w iter_d)
        encode bs rs"
    and codecs: "codecs_agree C env encode" "result_codec decode enc iter_o iter_w iter_d"
    and start: "cn_latest_state_root c = be_keccak256 env (be_state_borsh env default_clob_state)"
      "\<And>fd a. held_by (cn_app c) fd a = 0"
    and runs: "\<forall>b \<in> set bs. clean_run (bat_requests b) (bat_state b) \<and> exact_run (bat_requests b) (bat_state b)"
    and deposits: "\<And>a. credited (concat (map bat_requests bs)) FreeBase a \<le> uint (cc_deposited_base (cn_app c) a)"
      "\<And>a. credited (concat (map bat_requests bs)) FreeQuote a \<le> uint (cc_deposited_quote (cn_app c) a)"
    and tokens: "\<And>a x y. pay a x y"
  shows "\<exists>c' t. receive_all C (contract_receive_result decode pay) rs c = Inr c'
    \<and> run_ticks (concat (map bat_requests bs)) default_clob_state = Some t
    \<and> cn_latest_state_root c' = be_keccak256 env (be_state_borsh env t)
    \<and> (\<forall>fd a. uint (held_by (cn_app c') fd a) = uint (balance t fd a))
    \<and> (\<forall>a. uint (cc_deposited_base (cn_app c') a)
          = uint (cc_deposited_base (cn_app c) a) - credited (concat (map bat_requests bs)) FreeBase a
        \<and> uint (cc_deposited_quote (cn_app c') a)
          = uint (cc_deposited_quote (cn_app c) a) - credited (concat (map bat_requests bs)) FreeQuote a)"
proof -
  obtain t where t: "chained default_clob_state bs t" "run_ticks (concat (map bat_requests bs)) default_clob_state = Some t"
    using submitted_chained [OF reach] by blast
  let ?reqs = "concat (map bat_requests bs)"
  let ?rest = "\<lambda>a fd. (if fd = FreeBase then uint (cc_deposited_base (cn_app c) a)
    else uint (cc_deposited_quote (cn_app c) a)) - credited ?reqs fd a"
  have "backed ?rest ?reqs (cn_app c)" using deposits by (simp add: backed_def)
  moreover have "holds_exactly (cn_app c) default_clob_state"
    by (auto simp: holds_exactly_def start(2) balance_def default_clob_state_def default_balance_def Let_def split: field.split)
  ultimately have "\<exists>c'. receive_all C (contract_receive_result decode pay) rs c = Inr c'
      \<and> cn_latest_state_root c' = be_keccak256 env (be_state_borsh env t)
      \<and> backed ?rest [] (cn_app c') \<and> holds_exactly (cn_app c') t"
    using runs submitted_lengths [OF reach] codecs(2) tokens
    by (intro solvent_app.receive_chained_live [OF t(1) results codecs(1) start(1)]) (auto simp: good_batch_def)
  with t(2) show ?thesis by (auto simp: backed_def holds_exactly_def)
qed

section \<open>A result that no contract takes\<close>

lemma checked_exact:
  "add_at a v m = Some m' \<Longrightarrow> uint (m' b) = uint (m b) + (if a = b then uint v else 0)"
  "sub_at a v m = Some m' \<Longrightarrow> uint (m' b) = uint (m b) - (if a = b then uint v else 0)"
proof -
  show "add_at a v m = Some m' \<Longrightarrow> uint (m' b) = uint (m b) + (if a = b then uint v else 0)"
    using uint_add_lem [of "m a" v] by (auto simp: add_at_def not_less no_olen_add split: if_splits)
  show "sub_at a v m = Some m' \<Longrightarrow> uint (m' b) = uint (m b) - (if a = b then uint v else 0)"
    using uint_sub_lem [of v "m a"] by (auto simp: sub_at_def not_less word_le_def split: if_splits)
qed

lemma delta_at_exact:
  assumes "delta_at a i m = Some m'"
  shows "uint (m' b) = uint (m b) + (if a = b then sint i else 0)"
proof (cases "0 \<le> sint i")
  case True
  have "uint i = sint i" using True sint_less [of i] by (intro uint_range) (simp_all add: in_range_def)
  with True assms checked_exact(1) [of a i m m' b] show ?thesis by (simp add: delta_at_def)
next
  case False
  have "uint (- i) = - sint i"
    using False sint_greater_eq [of i] by (intro uint_range) (simp_all add: in_range_def)
  with False assms checked_exact(2) [of a "- i" m m' b] show ?thesis by (simp add: delta_at_def split: if_splits)
qed

lemma applied_exact:
  "apply_deposit d c = Some c' \<Longrightarrow> pots c' a p = pots c a p + (if dd_account d = a then deposit_move d p else 0)"
  "apply_order od c = Some c' \<Longrightarrow> pots c' a p = pots c a p + (if od_account od = a then order_move od p else 0)"
  "apply_withdraw pay w c = Some c' \<Longrightarrow> pots c' a p = pots c a p + (if wdd_account w = a then withdraw_move w p else 0)"
  by (cases p rule: pot_cases; auto simp: apply_deposit_def apply_order_def apply_withdraw_def pot_defs Let_def
    Option.bind_eq_Some_conv split: if_splits dest!: checked_exact [where b = a] delta_at_exact [where b = a])+

text \<open>So the contract refuses every result that takes one of its balances below zero.\<close>

lemma negative_refused:
  assumes codec: "result_codec decode enc iter_o iter_w iter_d"
    and res: "zkvm_stf keccak enc iter_o iter_w iter_d reqs s = Some res"
    and l: "stf_loop reqs s empty_deltas = Some (s', ds)"
    and neg: "pots c a p + entry_value (\<lambda>d. deposit_move d p) (dm_deposits ds) a
      + entry_value (\<lambda>d. order_move d p) (dm_orders ds) a + entry_value (\<lambda>d. withdraw_move d p) (dm_withdraws ds) a < 0"
  shows "contract_receive_result decode pay c (sar_result res) = Inl ''revert''"
proof (cases "contract_receive_result decode pay c (sar_result res)")
  case (Inl e)
  have "\<exists>r. decode (sar_result res) = Some r"
    using codec res by (auto simp: zkvm_stf_def l Let_def result_codec_def)
  with Inl show ?thesis by (auto simp: contract_receive_result_def split: option.splits)
next
  case (Inr c')
  define dd oo ww where "dd = sort (iter_d (map snd (dm_deposits ds)))" and "oo = sort (iter_o (map snd (dm_orders ds)))"
    and "ww = sort (iter_w (map snd (dm_withdraws ds)))"
  have r: "decode (sar_result res) = Some \<lparr>crd_deposit_deltas = dd, crd_order_deltas = oo, crd_withdraw_deltas = ww\<rparr>"
    using codec res by (auto simp: zkvm_stf_def l Let_def result_codec_def dd_def oo_def ww_def)
  have m: "mset dd = mset (map snd (dm_deposits ds))" "mset oo = mset (map snd (dm_orders ds))"
    "mset ww = mset (map snd (dm_withdraws ds))"
    using codec by (simp_all add: dd_def oo_def ww_def result_codec_def)
  have f: "filed dd_account (dm_deposits ds)" "filed od_account (dm_orders ds)" "filed wdd_account (dm_withdraws ds)"
    using filed_stf_loop [OF l] by (simp_all add: deltas_filed_def empty_deltas_def filed_def)
  obtain c1 c2 where c: "apply_each apply_deposit dd c = Some c1" "apply_each apply_order oo c1 = Some c2"
    "apply_each (apply_withdraw pay) ww c2 = Some c'"
    using Inr r by (auto simp: contract_receive_result_def Option.bind_eq_Some_conv split: option.splits)
  note each = apply_each_sum [where h = "\<lambda>c. pots c a p"]
  have "pots c1 a p = pots c a p + (\<Sum>d \<leftarrow> dd. if dd_account d = a then deposit_move d p else 0)"
    by (rule each [OF c(1)]) (rule applied_exact)
  moreover have "pots c2 a p = pots c1 a p + (\<Sum>d \<leftarrow> oo. if od_account d = a then order_move d p else 0)"
    by (rule each [OF c(2)]) (rule applied_exact)
  moreover have "pots c' a p = pots c2 a p + (\<Sum>d \<leftarrow> ww. if wdd_account d = a then withdraw_move d p else 0)"
    by (rule each [OF c(3)]) (rule applied_exact)
  ultimately have "pots c' a p = pots c a p + entry_value (\<lambda>d. deposit_move d p) (dm_deposits ds) a
      + entry_value (\<lambda>d. order_move d p) (dm_orders ds) a + entry_value (\<lambda>d. withdraw_move d p) (dm_withdraws ds) a"
    unfolding sum_list_mset [OF m(1)] sum_list_mset [OF m(2)] sum_list_mset [OF m(3)]
      filed_sum [OF f(1)] filed_sum [OF f(2)] filed_sum [OF f(3)] by (simp add: entry_value_def)
  moreover have "0 \<le> pots c' a p" by (simp add: pots_def split: pot.split)
  ultimately show ?thesis using neg by simp
qed

text \<open>
  One refused result stops all later ones: without it, the next result comes with another state root.
\<close>

lemma refused_batch_halts:
  assumes codecs: "codecs_agree C env encode"
    and start: "cn_latest_state_root c = be_keccak256 env (be_state_borsh env (bat_state b))"
    and results: "results_of env stf encode (b # b' # bs) (r # rs)"
    and refused: "\<And>res. stf (bat_requests b) (bat_state b) = Some res \<Longrightarrow> app (cn_app c) (sar_result res) = Inl e"
    and moved: "be_keccak256 env (be_state_borsh env (bat_state b')) \<noteq> be_keccak256 env (be_state_borsh env (bat_state b))"
  shows "receive_all C app (r # rs) c = Inl e
    \<and> receive_all C app rs c = Inl ''Invalid state root passed as input''"
proof
  obtain i nonce res where r: "r = (i, jp_onchain_input (fst (batch_job env nonce b)), encode res)"
    and res: "stf (bat_requests b) (bat_state b) = Some res"
    using results by (auto simp: results_of_def)
  show "receive_all C app (r # rs) c = Inl e"
    using start refused [OF res] by (simp add: r receive_batch_result [OF codecs])
  show "receive_all C app rs c = Inl ''Invalid state root passed as input''"
    using results moved start by (auto simp: results_of_def list_all2_Cons1 receive_batch_result [OF codecs])
qed

text \<open>Account 2 orders 8, gets 5, rests with 8 and is filled again for 8.\<close>

definition overfill_requests :: "request list" where
  "overfill_requests = [dep 1 5 0, dep 2 0 8, dep 3 8 0, sell 1 1 5, buy 2 1 8, sell 3 1 8]"

lemma overfill_deltas:
  "\<exists>s ds d. stf_loop overfill_requests default_clob_state empty_deltas = Some (s, ds)
     \<and> map_of (dm_orders ds) 2 = Some d \<and> sint (od_locked_quote d) = - 5"
  by (simp add: overfill_requests_def scenario_defs fill_diff_def empty_deltas_def order_entry_def)



section \<open>Sample runs\<close>

lemma sample_deposit_tick:
  obtains resp t where "tick sample_deposit default_clob_state = Some (resp, t, [DDeposit 1 2 3])" "balance t FreeQuote 1 = 3"
  using that by (simp add: sample_deposit_def deposit_eq balance_def default_clob_state_def)

lemma sample_deposit_runs:
  "clean_run [sample_deposit] default_clob_state \<and> exact_run [sample_deposit] default_clob_state"
proof -
  obtain resp t where t: "tick sample_deposit default_clob_state = Some (resp, t, [DDeposit 1 2 3])"
    by (rule sample_deposit_tick)
  have "balance default_clob_state fd a = 0" for fd a
    by (cases fd) (simp_all add: balance_def default_clob_state_def default_balance_def)
  with t show ?thesis
    using state_ok_default
    by (auto simp: clean_cancel_def sample_deposit_def makers_funded_def default_clob_state_def default_book_def
        book_orders_def move_def split: field.split simp del: tick.simps)
qed

theorem backed_batches_settle_witness:
  "\<exists>e db outs b rs c t. node_reach 1 (e, db) outs [b] \<and> results_of bridge_env mirror_stf encode_app_result [b] rs
    \<and> receive_all (bridge_contracts (event_job run_event)) (contract_receive_result decode_deltas (\<lambda>_ _ _. True)) rs
        start_consumer = Inr c
    \<and> run_ticks [sample_deposit] default_clob_state = Some t
    \<and> uint (held_by (cn_app c) FreeQuote 1) = uint (balance t FreeQuote 1)
    \<and> uint (cc_deposited_quote (cn_app c) 1) = uint (cc_deposited_quote (cn_app start_consumer) 1) - 3"
proof -
  obtain e db b outs where b: "node_reach 1 (e, db) outs [b]" "bat_requests b = [sample_deposit]"
    "bat_state b = default_clob_state"
    using sample_batch by blast
  obtain res where res: "mirror_stf [sample_deposit] default_clob_state = Some res"
    by (rule sample_result)
  let ?rs = "[(0 :: b256, jp_onchain_input (fst (batch_job bridge_env 0 b)), encode_app_result res)]"
  have rs: "results_of bridge_env mirror_stf encode_app_result [b] ?rs"
    using b(2,3) res by (auto simp: results_of_def)
  have runs: "\<forall>b' \<in> set [b]. clean_run (bat_requests b') (bat_state b') \<and> exact_run (bat_requests b') (bat_state b')"
    using sample_deposit_runs b(2,3) by simp
  have d: "credited (concat (map bat_requests [b])) fd a = (if a = 1 then move 2 0 3 0 fd else 0)" for fd a
    by (simp add: b(2) credited_def sample_deposit_def)
  have fb: "credited (concat (map bat_requests [b])) FreeBase a \<le> uint (cc_deposited_base (cn_app start_consumer) a)"
    and fq: "credited (concat (map bat_requests [b])) FreeQuote a \<le> uint (cc_deposited_quote (cn_app start_consumer) a)" for a
    unfolding d by (simp_all add: move_def start_consumer_def)
  have "\<exists>c t. receive_all (bridge_contracts (event_job run_event)) (contract_receive_result decode_deltas (\<lambda>_ _ _. True)) ?rs
        start_consumer = Inr c
    \<and> run_ticks (concat (map bat_requests [b])) default_clob_state = Some t
    \<and> uint (held_by (cn_app c) FreeQuote 1) = uint (balance t FreeQuote 1)
    \<and> uint (cc_deposited_quote (cn_app c) 1)
       = uint (cc_deposited_quote (cn_app start_consumer) 1) - credited (concat (map bat_requests [b])) FreeQuote 1"
    using backed_batches_settle [OF b(1) _ rs bridge_codecs deltas_codec start_consumer_zero runs fb fq] by fastforce
  moreover have "concat (map bat_requests [b]) = [sample_deposit]" "credited [sample_deposit] FreeQuote 1 = 3"
    by (simp_all add: b(2) credited_def sample_deposit_def move_def)
  ultimately have "\<exists>c t. receive_all (bridge_contracts (event_job run_event)) (contract_receive_result decode_deltas (\<lambda>_ _ _. True)) ?rs
        start_consumer = Inr c
    \<and> run_ticks [sample_deposit] default_clob_state = Some t
    \<and> uint (held_by (cn_app c) FreeQuote 1) = uint (balance t FreeQuote 1)
    \<and> uint (cc_deposited_quote (cn_app c) 1) = uint (cc_deposited_quote (cn_app start_consumer) 1) - 3" by metis
  with b(1) rs show ?thesis by blast
qed


lemma overfill_run:
  "\<exists>s. run_ticks overfill_requests default_clob_state = Some s \<and> balance s FreeQuote 1 = 5"
  by (simp add: overfill_requests_def scenario_defs balance_def)


end
