(* ===== verification/GameCore.thy ===== *)
theory GameCore
  imports CoprocDb
begin

text \<open>
  The matching game example (\<^verbatim>\<open>examples/matching-game/core\<close>): its requests and responses
  (\<^verbatim>\<open>src/api.rs\<close>) and the function that applies requests to a Merkle trie (\<^verbatim>\<open>src/lib.rs\<close>). The
  trie library (\<open>kairos_trie\<close>), SHA-256 and bincode are parameters, the record \<open>trie_libs\<close>; what the
  code relies on of them is \<open>trie_laws\<close>. A panic is \<open>None\<close>.

  The specification is one slot per number: a number nobody submitted, a number nobody waits at, or a
  number at which one user waits.
\<close>

section \<open>Requests and responses\<close>

record submit_number_request =
  sn_address :: address
  sn_number :: u64

record cancel_number_request =
  cn_address :: address
  cn_number :: u64

datatype game_request = SubmitNumber submit_number_request | CancelNumber cancel_number_request

text \<open>The Solidity \<open>Match\<close> and the API's \<open>MatchPair\<close>.\<close>

record game_match =
  gm_user1 :: address
  gm_user2 :: address

record match_pair =
  mp_user1 :: address
  mp_user2 :: address

record submit_number_response =
  snr_success :: bool
  snr_match_pair :: "match_pair option"

record cancel_number_response =
  cnr_success :: bool

datatype game_response = RespSubmitNumber submit_number_response | RespCancelNumber cancel_number_response

record game_api_response =
  ga_response :: game_response
  ga_global_index :: u64

section \<open>The libraries\<close>

text \<open>
  \<open>'d\<close> is the node database (\<open>MemoryDb\<close>), \<open>'r\<close> a trie root, \<open>'t\<close> a transaction on a trie, \<open>'s\<close> a
  snapshot and \<open>'v\<close> a verified one. \<open>tl_entry\<close> is \<open>entry(key)\<close>: an error, or the value of the
  occupied entry, \<open>None\<close> for a vacant one.
\<close>

record ('d, 'r, 't, 's, 'v) trie_libs =
  tl_open :: "'d \<Rightarrow> 'r \<Rightarrow> 't"
  tl_entry :: "'t \<Rightarrow> b256 \<Rightarrow> string + (bytes option \<times> 't)"
  tl_insert :: "'t \<Rightarrow> b256 \<Rightarrow> bytes \<Rightarrow> 't"
  tl_commit :: "'t \<Rightarrow> 'd \<Rightarrow> string + ('r \<times> 'd)"
  tl_snapshot :: "'t \<Rightarrow> 's"
  tl_calc_root :: "'t \<Rightarrow> string + 'r"
  tl_verify :: "'s \<Rightarrow> string + 'v"
  tl_root_of_verified :: "'v \<Rightarrow> 'r"
  tl_from_verified :: "'v \<Rightarrow> 't"
  tl_empty_db :: 'd
  tl_empty_root :: 'r
  tl_root_to_bytes :: "'r \<Rightarrow> b256 option"
  tl_root_node :: "b256 \<Rightarrow> 'r"
  tl_portable_sha256 :: "u64 \<Rightarrow> b256"
  tl_bincode_addresses :: "address list \<Rightarrow> bytes"
  tl_bincode_read_addresses :: "bytes \<Rightarrow> address list option"

section \<open>The core\<close>

definition serialize_address_list :: "('d, 'r, 't, 's, 'v) trie_libs \<Rightarrow> address list \<Rightarrow> bytes" where
  "serialize_address_list L addresses = tl_bincode_addresses L addresses"

definition deserialize_address_list :: "('d, 'r, 't, 's, 'v) trie_libs \<Rightarrow> bytes \<Rightarrow> address list option" where
  "deserialize_address_list L bs = tl_bincode_read_addresses L bs"

definition hash :: "('d, 'r, 't, 's, 'v) trie_libs \<Rightarrow> u64 \<Rightarrow> b256" where
  "hash L key = tl_portable_sha256 L key"

definition get_merkle_root_bytes :: "('d, 'r, 't, 's, 'v) trie_libs \<Rightarrow> 'r \<Rightarrow> b256" where
  "get_merkle_root_bytes L merkle_root = (case tl_root_to_bytes L merkle_root of Some b \<Rightarrow> b | None \<Rightarrow> 0)"

fun apply_request :: "('d, 'r, 't, 's, 'v) trie_libs \<Rightarrow> 't \<Rightarrow> game_request
    \<Rightarrow> ('t \<times> game_match list) option" where
  "apply_request L txn (SubmitNumber s) =
     (case tl_entry L txn (hash L (sn_number s)) of
        Inl _ \<Rightarrow> None
      | Inr (Some entry, txn) \<Rightarrow>
          (case deserialize_address_list L entry of
             None \<Rightarrow> None
           | Some old_list \<Rightarrow>
               (let (old_list, matches) =
                      (if old_list = [] then (old_list @ [sn_address s], [])
                       else (remove_nth 0 old_list, [\<lparr>gm_user1 = old_list ! 0, gm_user2 = sn_address s\<rparr>]))
                in Some (tl_insert L txn (hash L (sn_number s)) (serialize_address_list L old_list), matches)))
      | Inr (None, txn) \<Rightarrow>
          Some (tl_insert L txn (hash L (sn_number s)) (serialize_address_list L [sn_address s]), []))"
| "apply_request L txn (CancelNumber c) =
     (case tl_entry L txn (hash L (cn_number c)) of
        Inl _ \<Rightarrow> None
      | Inr (Some entry, txn) \<Rightarrow>
          (case deserialize_address_list L entry of
             None \<Rightarrow> None
           | Some old_list \<Rightarrow>
               (case position (\<lambda>x. x = cn_address c) old_list of
                  None \<Rightarrow> None
                | Some i \<Rightarrow>
                    Some (tl_insert L txn (hash L (cn_number c))
                            (serialize_address_list L (remove_nth i old_list)), [])))
      | Inr (None, txn) \<Rightarrow> Some (txn, []))"

fun apply_requests :: "('d, 'r, 't, 's, 'v) trie_libs \<Rightarrow> 't \<Rightarrow> game_request list
    \<Rightarrow> ('t \<times> game_match list) option" where
  "apply_requests L txn [] = Some (txn, [])"
| "apply_requests L txn (r # rs) =
     (case apply_request L txn r of
        None \<Rightarrow> None
      | Some (txn, ms) \<Rightarrow>
          (case apply_requests L txn rs of
             None \<Rightarrow> None
           | Some (txn, ms') \<Rightarrow> Some (txn, ms @ ms')))"

text \<open>The shared database is threaded through; the result is the root, the snapshot and the matches.\<close>

definition next_state :: "('d, 'r, 't, 's, 'v) trie_libs \<Rightarrow> 'd \<Rightarrow> 'r \<Rightarrow> game_request list
    \<Rightarrow> (('r \<times> 's \<times> game_match list) \<times> 'd) option" where
  "next_state L trie_db pre_txn_merkle_root requests =
     (case apply_requests L (tl_open L trie_db pre_txn_merkle_root) requests of
        None \<Rightarrow> None
      | Some (trie_txn, matches) \<Rightarrow>
          (case tl_commit L trie_txn trie_db of
             Inl _ \<Rightarrow> None
           | Inr (post_txn_merkle_root, trie_db) \<Rightarrow>
               Some ((post_txn_merkle_root, tl_snapshot L trie_txn, matches), trie_db)))"

section \<open>What the code relies on of the trie\<close>

text \<open>
  How the state of the library is read: the content of a transaction, the content it started from, the
  keys it can read (all of them on a database, those of the snapshot in the guest), the keys it has
  read, the root of a content, and the contents whose nodes a database holds.
\<close>

type_synonym content = "b256 \<rightharpoonup> bytes"

record ('d, 'r, 't) trie_view =
  tv_content :: "'t \<Rightarrow> content"
  tv_base :: "'t \<Rightarrow> content"
  tv_readable :: "'t \<Rightarrow> b256 set"
  tv_read :: "'t \<Rightarrow> b256 set"
  tv_root :: "content \<Rightarrow> 'r"
  tv_holds :: "'d \<Rightarrow> content \<Rightarrow> bool"

text \<open>
  A transaction is a map; committing it gives the root of its content and keeps what the database
  holds; a snapshot verifies to the root it was taken at and can read the keys that were read. Keys
  are hashed without collisions and bincode reads what it wrote.
\<close>

definition open_law :: "('d, 'r, 't, 's, 'v) trie_libs \<Rightarrow> ('d, 'r, 't) trie_view \<Rightarrow> bool" where
  "open_law L V \<longleftrightarrow> (\<forall>d m. tv_holds V d m \<longrightarrow>
     tv_content V (tl_open L d (tv_root V m)) = m \<and> tv_base V (tl_open L d (tv_root V m)) = m \<and>
     tv_readable V (tl_open L d (tv_root V m)) = UNIV \<and> tv_read V (tl_open L d (tv_root V m)) = {})"

definition entry_law :: "('d, 'r, 't, 's, 'v) trie_libs \<Rightarrow> ('d, 'r, 't) trie_view \<Rightarrow> bool" where
  "entry_law L V \<longleftrightarrow> (\<forall>t k. k \<in> tv_readable V t \<longrightarrow>
     (\<exists>t'. tl_entry L t k = Inr (tv_content V t k, t') \<and>
        tv_content V t' = tv_content V t \<and> tv_base V t' = tv_base V t \<and>
        tv_readable V t' = tv_readable V t \<and> tv_read V t' = insert k (tv_read V t)))"

definition insert_law :: "('d, 'r, 't, 's, 'v) trie_libs \<Rightarrow> ('d, 'r, 't) trie_view \<Rightarrow> bool" where
  "insert_law L V \<longleftrightarrow> (\<forall>t k v. k \<in> tv_read V t \<longrightarrow>
     tv_content V (tl_insert L t k v) = (tv_content V t)(k \<mapsto> v) \<and>
     tv_base V (tl_insert L t k v) = tv_base V t \<and>
     tv_readable V (tl_insert L t k v) = tv_readable V t \<and> tv_read V (tl_insert L t k v) = tv_read V t)"

definition commit_law :: "('d, 'r, 't, 's, 'v) trie_libs \<Rightarrow> ('d, 'r, 't) trie_view \<Rightarrow> bool" where
  "commit_law L V \<longleftrightarrow> (\<forall>t d. tv_holds V d (tv_base V t) \<longrightarrow>
     (\<exists>d'. tl_commit L t d = Inr (tv_root V (tv_content V t), d') \<and>
        tv_holds V d' (tv_content V t) \<and> (\<forall>m. tv_holds V d m \<longrightarrow> tv_holds V d' m)))"

definition snapshot_law :: "('d, 'r, 't, 's, 'v) trie_libs \<Rightarrow> ('d, 'r, 't) trie_view \<Rightarrow> bool" where
  "snapshot_law L V \<longleftrightarrow> (\<forall>t. \<exists>w. tl_verify L (tl_snapshot L t) = Inr w \<and>
     tl_root_of_verified L w = tv_root V (tv_base V t) \<and>
     tv_content V (tl_from_verified L w) = tv_base V t \<and>
     tv_read V t \<subseteq> tv_readable V (tl_from_verified L w))"

definition root_law :: "('d, 'r, 't, 's, 'v) trie_libs \<Rightarrow> ('d, 'r, 't) trie_view \<Rightarrow> bool" where
  "root_law L V \<longleftrightarrow> (\<forall>t. tl_calc_root L t = Inr (tv_root V (tv_content V t))) \<and>
     tv_holds V (tl_empty_db L) Map.empty \<and> tl_empty_root L = tv_root V Map.empty"

definition codec_law :: "('d, 'r, 't, 's, 'v) trie_libs \<Rightarrow> bool" where
  "codec_law L \<longleftrightarrow> inj (tl_portable_sha256 L) \<and>
     (\<forall>as. tl_bincode_read_addresses L (tl_bincode_addresses L as) = Some as)"

definition trie_laws :: "('d, 'r, 't, 's, 'v) trie_libs \<Rightarrow> ('d, 'r, 't) trie_view \<Rightarrow> bool" where
  "trie_laws L V \<longleftrightarrow> open_law L V \<and> entry_law L V \<and> insert_law L V \<and> commit_law L V \<and>
     snapshot_law L V \<and> root_law L V \<and> codec_law L"

lemma trie_open:
  assumes "trie_laws L V" and "tv_holds V d m"
  shows "tv_content V (tl_open L d (tv_root V m)) = m" "tv_base V (tl_open L d (tv_root V m)) = m"
    "tv_readable V (tl_open L d (tv_root V m)) = UNIV" "tv_read V (tl_open L d (tv_root V m)) = {}"
  using assms by (simp_all add: trie_laws_def open_law_def)

lemma trie_insert:
  assumes "trie_laws L V" and "k \<in> tv_read V t"
  shows "tv_content V (tl_insert L t k v) = (tv_content V t)(k \<mapsto> v)"
    "tv_base V (tl_insert L t k v) = tv_base V t"
    "tv_readable V (tl_insert L t k v) = tv_readable V t" "tv_read V (tl_insert L t k v) = tv_read V t"
  using assms by (simp_all add: trie_laws_def insert_law_def)

lemma trie_roots:
  assumes "trie_laws L V"
  shows trie_calc_root: "tl_calc_root L t = Inr (tv_root V (tv_content V t))"
    and trie_empty_db: "tv_holds V (tl_empty_db L) Map.empty"
    and trie_empty_root: "tl_empty_root L = tv_root V Map.empty"
  using assms by (simp_all add: trie_laws_def root_law_def)

lemma hash_inj: "trie_laws L V \<Longrightarrow> hash L i = hash L j \<longleftrightarrow> i = j"
  by (simp add: trie_laws_def codec_law_def hash_def inj_eq)

lemma addresses_roundtrip:
  "trie_laws L V \<Longrightarrow> deserialize_address_list L (serialize_address_list L as) = Some as"
  by (simp add: trie_laws_def codec_law_def deserialize_address_list_def serialize_address_list_def)

lemma trie_entry:
  assumes "trie_laws L V" and "k \<in> tv_readable V t"
  obtains t' where "tl_entry L t k = Inr (tv_content V t k, t')" "tv_content V t' = tv_content V t"
    "tv_base V t' = tv_base V t" "tv_readable V t' = tv_readable V t" "tv_read V t' = insert k (tv_read V t)"
proof -
  have "entry_law L V" using assms(1) by (simp add: trie_laws_def)
  with assms(2) that show thesis unfolding entry_law_def by blast
qed

lemma trie_commit:
  assumes "trie_laws L V" and "tv_holds V d (tv_base V t)"
  obtains d' where "tl_commit L t d = Inr (tv_root V (tv_content V t), d')" "tv_holds V d' (tv_content V t)"
    "\<And>m. tv_holds V d m \<Longrightarrow> tv_holds V d' m"
proof -
  have "commit_law L V" using assms(1) by (simp add: trie_laws_def)
  with assms(2) that show thesis unfolding commit_law_def by blast
qed

lemma trie_snapshot:
  assumes "trie_laws L V"
  obtains w where "tl_verify L (tl_snapshot L t) = Inr w" "tl_root_of_verified L w = tv_root V (tv_base V t)"
    "tv_content V (tl_from_verified L w) = tv_base V t" "tv_read V t \<subseteq> tv_readable V (tl_from_verified L w)"
proof -
  have "snapshot_law L V" using assms by (simp add: trie_laws_def)
  with that show thesis unfolding snapshot_law_def by blast
qed

section \<open>The requests on a content\<close>

text \<open>The same updates on a plain map, and how far they determine the run on a trie.\<close>

fun request_number :: "game_request \<Rightarrow> u64" where
  "request_number (SubmitNumber s) = sn_number s"
| "request_number (CancelNumber c) = cn_number c"

fun map_request :: "('d, 'r, 't, 's, 'v) trie_libs \<Rightarrow> content \<Rightarrow> game_request
    \<Rightarrow> (content \<times> game_match list) option" where
  "map_request L m (SubmitNumber s) =
     (let k = hash L (sn_number s) in
      case m k of
        None \<Rightarrow> Some (m(k \<mapsto> serialize_address_list L [sn_address s]), [])
      | Some bs \<Rightarrow>
          (case deserialize_address_list L bs of
             None \<Rightarrow> None
           | Some [] \<Rightarrow> Some (m(k \<mapsto> serialize_address_list L [sn_address s]), [])
           | Some (x # xs) \<Rightarrow> Some (m(k \<mapsto> serialize_address_list L xs),
               [\<lparr>gm_user1 = x, gm_user2 = sn_address s\<rparr>])))"
| "map_request L m (CancelNumber c) =
     (let k = hash L (cn_number c) in
      case m k of
        None \<Rightarrow> Some (m, [])
      | Some bs \<Rightarrow>
          (case deserialize_address_list L bs of
             None \<Rightarrow> None
           | Some xs \<Rightarrow>
               (if cn_address c \<in> set xs
                then Some (m(k \<mapsto> serialize_address_list L (remove1 (cn_address c) xs)), []) else None)))"

fun map_requests :: "('d, 'r, 't, 's, 'v) trie_libs \<Rightarrow> content \<Rightarrow> game_request list
    \<Rightarrow> (content \<times> game_match list) option" where
  "map_requests L m [] = Some (m, [])"
| "map_requests L m (r # rs) =
     (case map_request L m r of
        None \<Rightarrow> None
      | Some (m, ms) \<Rightarrow>
          (case map_requests L m rs of None \<Rightarrow> None | Some (m, ms') \<Rightarrow> Some (m, ms @ ms')))"

lemma position_remove1:
  "(case position (\<lambda>x. x = a) xs of None \<Rightarrow> None | Some i \<Rightarrow> Some (remove_nth i xs)) =
     (if a \<in> set xs then Some (remove1 a xs) else None)"
  by (induction xs) (auto simp: remove_nth_def split: option.splits if_splits)

text \<open>A transaction that comes from another by reading and writing.\<close>

definition follows :: "('d, 'r, 't) trie_view \<Rightarrow> 't \<Rightarrow> b256 set \<Rightarrow> content \<Rightarrow> 't \<Rightarrow> bool" where
  "follows V t K m t' \<longleftrightarrow> tv_content V t' = m \<and> tv_base V t' = tv_base V t \<and>
     tv_readable V t' = tv_readable V t \<and> tv_read V t' = tv_read V t \<union> K"

lemma apply_request_map:
  assumes "trie_laws L V" and "hash L (request_number r) \<in> tv_readable V t"
  shows "case map_request L (tv_content V t) r of
      None \<Rightarrow> apply_request L t r = None
    | Some (m, ms) \<Rightarrow> (\<exists>t'. apply_request L t r = Some (t', ms) \<and> follows V t {hash L (request_number r)} m t')"
proof -
  let ?k = "hash L (request_number r)"
  obtain t1 where e: "tl_entry L t ?k = Inr (tv_content V t ?k, t1)" and t1: "tv_content V t1 = tv_content V t"
    "tv_base V t1 = tv_base V t" "tv_readable V t1 = tv_readable V t" "tv_read V t1 = insert ?k (tv_read V t)"
    using trie_entry [OF assms] .
  have k: "?k \<in> tv_read V t1" by (simp add: t1)
  have ins: "follows V t {?k} ((tv_content V t)(?k \<mapsto> v)) (tl_insert L t1 ?k v)" for v
    using trie_insert [OF assms(1) k] t1 by (simp add: follows_def)
  have same: "follows V t {?k} (tv_content V t) t1" using t1 by (simp add: follows_def)
  show ?thesis
  proof (cases r)
    case (SubmitNumber s)
    note f = e ins [unfolded SubmitNumber request_number.simps]
    show ?thesis
    proof (cases "tv_content V t ?k")
      case None
      then show ?thesis using f by (simp add: SubmitNumber)
    next
      case (Some bs)
      then show ?thesis using f
        by (cases "deserialize_address_list L bs")
           (auto simp: SubmitNumber remove_nth_def Let_def split: list.splits)
    qed
  next
    case (CancelNumber c)
    note f = e ins [unfolded CancelNumber request_number.simps] same [unfolded CancelNumber request_number.simps]
    show ?thesis
    proof (cases "tv_content V t ?k")
      case None
      then show ?thesis using f by (simp add: CancelNumber)
    next
      case (Some bs)
      show ?thesis
      proof (cases "deserialize_address_list L bs")
        case None
        then show ?thesis using f Some by (simp add: CancelNumber)
      next
        case (Some xs)
        then show ?thesis using f \<open>tv_content V t ?k = Some bs\<close> position_remove1 [of xs "cn_address c"]
          by (cases "position (\<lambda>x. x = cn_address c) xs") (auto simp: CancelNumber split: if_splits)
      qed
    qed
  qed
qed

lemma apply_requests_map:
  assumes "trie_laws L V" and "(hash L \<circ> request_number) ` set rs \<subseteq> tv_readable V t"
  shows "case map_requests L (tv_content V t) rs of
      None \<Rightarrow> apply_requests L t rs = None
    | Some (m, ms) \<Rightarrow> (\<exists>t'. apply_requests L t rs = Some (t', ms) \<and>
        follows V t ((hash L \<circ> request_number) ` set rs) m t')"
  using assms(2)
proof (induction rs arbitrary: t)
  case Nil
  then show ?case by (simp add: follows_def)
next
  case (Cons r rs)
  have r: "hash L (request_number r) \<in> tv_readable V t" using Cons.prems by simp
  note s1 = apply_request_map [OF assms(1) r]
  show ?case
  proof (cases "map_request L (tv_content V t) r")
    case None
    then show ?thesis using s1 by simp
  next
    case (Some mm)
    obtain m1 ms1 where mm: "mm = (m1, ms1)" by force
    with s1 Some obtain t1 where t1: "apply_request L t r = Some (t1, ms1)"
      and f1: "follows V t {hash L (request_number r)} m1 t1" by auto
    have "(hash L \<circ> request_number) ` set rs \<subseteq> tv_readable V t1"
      using Cons.prems f1 by (simp add: follows_def)
    from Cons.IH [OF this] show ?thesis
      using f1 Some t1 mm
      by (cases "map_requests L m1 rs") (auto simp: follows_def)
  qed
qed

text \<open>One call of \<open>next_state\<close>: the root, the matches, what the database holds, and the snapshot.\<close>

definition snapshot_of :: "('d, 'r, 't, 's, 'v) trie_libs \<Rightarrow> ('d, 'r, 't) trie_view \<Rightarrow> content
    \<Rightarrow> game_request list \<Rightarrow> 's \<Rightarrow> bool" where
  "snapshot_of L V m rs s \<longleftrightarrow> (\<exists>w. tl_verify L s = Inr w \<and> tl_root_of_verified L w = tv_root V m \<and>
     tv_content V (tl_from_verified L w) = m \<and>
     (hash L \<circ> request_number) ` set rs \<subseteq> tv_readable V (tl_from_verified L w))"

lemma next_state_map:
  assumes "trie_laws L V" and "tv_holds V d m"
  shows "case map_requests L m rs of
      None \<Rightarrow> next_state L d (tv_root V m) rs = None
    | Some (m', ms) \<Rightarrow> (\<exists>s d'. next_state L d (tv_root V m) rs = Some ((tv_root V m', s, ms), d') \<and>
        tv_holds V d' m' \<and> (\<forall>n. tv_holds V d n \<longrightarrow> tv_holds V d' n) \<and> snapshot_of L V m rs s)"
proof -
  let ?t = "tl_open L d (tv_root V m)"
  note o = trie_open [OF assms]
  have a: "case map_requests L m rs of
      None \<Rightarrow> apply_requests L ?t rs = None
    | Some (m, ms) \<Rightarrow> (\<exists>t'. apply_requests L ?t rs = Some (t', ms) \<and>
        follows V ?t ((hash L \<circ> request_number) ` set rs) m t')"
    using apply_requests_map [OF assms(1), of rs ?t] o by simp
  show ?thesis
  proof (cases "map_requests L m rs")
    case None
    then show ?thesis using a by (simp add: next_state_def)
  next
    case (Some mm)
    obtain m' ms where mm: "mm = (m', ms)" by force
    with a Some obtain t' where t': "apply_requests L ?t rs = Some (t', ms)"
      and f: "follows V ?t ((hash L \<circ> request_number) ` set rs) m' t'" by auto
    have b: "tv_base V t' = m" "tv_content V t' = m'" "tv_read V t' = (hash L \<circ> request_number) ` set rs"
      using f o by (simp_all add: follows_def)
    obtain d' where d': "tl_commit L t' d = Inr (tv_root V m', d')" "tv_holds V d' m'"
      "\<And>n. tv_holds V d n \<Longrightarrow> tv_holds V d' n"
      using trie_commit [OF assms(1), of d t'] assms(2) b by auto
    have "snapshot_of L V m rs (tl_snapshot L t')"
      using trie_snapshot [OF assms(1), of t'] b unfolding snapshot_of_def by metis
    then show ?thesis using Some mm t' d' by (simp add: next_state_def)
  qed
qed

lemma map_requests_append:
  "map_requests L m (rs @ rs') =
     (case map_requests L m rs of None \<Rightarrow> None
      | Some (m', ms) \<Rightarrow>
          (case map_requests L m' rs' of None \<Rightarrow> None | Some (m', ms') \<Rightarrow> Some (m', ms @ ms')))"
  by (induction rs arbitrary: m) (auto split: option.splits)

section \<open>The specification\<close>

datatype slot = Unused | Free | Waiting address

type_synonym slots = "u64 \<Rightarrow> slot"

fun slot_step :: "slots \<Rightarrow> game_request \<Rightarrow> (slots \<times> game_match list) option" where
  "slot_step slots (SubmitNumber s) = Some
     (case slots (sn_number s) of
        Waiting first \<Rightarrow> (slots(sn_number s := Free), [\<lparr>gm_user1 = first, gm_user2 = sn_address s\<rparr>])
      | _ \<Rightarrow> (slots(sn_number s := Waiting (sn_address s)), []))"
| "slot_step slots (CancelNumber c) =
     (case slots (cn_number c) of
        Unused \<Rightarrow> Some (slots, [])
      | Free \<Rightarrow> None
      | Waiting a \<Rightarrow> if a = cn_address c then Some (slots(cn_number c := Free), []) else None)"

fun slots_run :: "slots \<Rightarrow> game_request list \<Rightarrow> (slots \<times> game_match list) option" where
  "slots_run slots [] = Some (slots, [])"
| "slots_run slots (r # rs) =
     (case slot_step slots r of
        None \<Rightarrow> None
      | Some (slots, ms) \<Rightarrow>
          (case slots_run slots rs of None \<Rightarrow> None | Some (slots, ms') \<Rightarrow> Some (slots, ms @ ms')))"

text \<open>How a slot is stored: the list of the waiting users never has more than one element.\<close>

fun slot_value :: "('d, 'r, 't, 's, 'v) trie_libs \<Rightarrow> slot \<Rightarrow> bytes option" where
  "slot_value L Unused = None"
| "slot_value L Free = Some (serialize_address_list L [])"
| "slot_value L (Waiting a) = Some (serialize_address_list L [a])"

definition encodes :: "('d, 'r, 't, 's, 'v) trie_libs \<Rightarrow> slots \<Rightarrow> content \<Rightarrow> bool" where
  "encodes L slots m \<longleftrightarrow> (\<forall>n. m (hash L n) = slot_value L (slots n))"

lemma encodes_upd:
  "trie_laws L V \<Longrightarrow> encodes L slots m \<Longrightarrow> slot_value L x = Some v \<Longrightarrow>
     encodes L (slots(n := x)) (m(hash L n \<mapsto> v))"
  by (auto simp: encodes_def hash_inj)

lemma slot_map_request:
  assumes "trie_laws L V" and "encodes L slots m"
  shows "case slot_step slots r of
      None \<Rightarrow> map_request L m r = None
    | Some (slots', ms) \<Rightarrow> (\<exists>m'. map_request L m r = Some (m', ms) \<and> encodes L slots' m')"
proof -
  have m: "m (hash L n) = slot_value L (slots n)" for n using assms(2) by (simp add: encodes_def)
  note u = encodes_upd [OF assms] addresses_roundtrip [OF assms(1)]
  show ?thesis
  proof (cases r)
    case (SubmitNumber s)
    then show ?thesis by (cases "slots (sn_number s)") (auto simp: m u Let_def)
  next
    case (CancelNumber c)
    then show ?thesis using assms(2) by (cases "slots (cn_number c)") (auto simp: m u Let_def)
  qed
qed

lemma slots_map_requests:
  assumes "trie_laws L V" and "encodes L slots m"
  shows "case slots_run slots rs of
      None \<Rightarrow> map_requests L m rs = None
    | Some (slots', ms) \<Rightarrow> (\<exists>m'. map_requests L m rs = Some (m', ms) \<and> encodes L slots' m')"
  using assms(2)
proof (induction rs arbitrary: slots m)
  case Nil
  then show ?case by simp
next
  case (Cons r rs)
  note s1 = slot_map_request [OF assms(1) Cons.prems, of r]
  show ?case
  proof (cases "slot_step slots r")
    case None
    then show ?thesis using s1 by simp
  next
    case (Some x)
    obtain slots1 ms1 where x: "x = (slots1, ms1)" by force
    with s1 Some obtain m1 where m1: "map_request L m r = Some (m1, ms1)" "encodes L slots1 m1" by auto
    show ?thesis using Cons.IH [OF m1(2)] m1(1) Some x
      by (cases "slots_run slots1 rs") (auto split: option.splits)
  qed
qed

lemma next_state_slots:
  assumes "trie_laws L V" and "tv_holds V d m" and "encodes L slots m"
  shows "case slots_run slots rs of
      None \<Rightarrow> next_state L d (tv_root V m) rs = None
    | Some (slots', ms) \<Rightarrow> (\<exists>m' s d'. next_state L d (tv_root V m) rs = Some ((tv_root V m', s, ms), d') \<and>
        tv_holds V d' m' \<and> encodes L slots' m')"
proof (cases "slots_run slots rs")
  case None
  then show ?thesis
    using slots_map_requests [OF assms(1,3), of rs] next_state_map [OF assms(1,2), of rs] by simp
next
  case (Some x)
  obtain slots' ms where x: "x = (slots', ms)" by force
  with Some slots_map_requests [OF assms(1,3), of rs] obtain m' where m': "map_requests L m rs = Some (m', ms)"
    "encodes L slots' m'" by auto
  then show ?thesis using next_state_map [OF assms(1,2), of rs] Some x by auto
qed

lemma encodes_empty: "encodes L (\<lambda>_. Unused) Map.empty"
  by (simp add: encodes_def)

section \<open>A small instance of the libraries\<close>

record sample_txn =
  st_base :: content
  st_content :: content
  st_readable :: "b256 set"
  st_read :: "b256 set"

function read_addresses :: "bytes \<Rightarrow> address list option" where
  "read_addresses bs =
     (if bs = [] then Some []
      else case try_into_address (take 20 bs) of
             None \<Rightarrow> None
           | Some a \<Rightarrow> map_option (Cons a) (read_addresses (drop 20 bs)))"
  by auto
termination by (relation "measure length") auto

declare read_addresses.simps [simp del]

definition write_addresses :: "address list \<Rightarrow> bytes" where
  "write_addresses as = concat (map (be_bytes 20) as)"

lemma read_write_addresses: "read_addresses (write_addresses as) = Some as"
proof (induction as)
  case Nil
  then show ?case by (simp add: write_addresses_def read_addresses.simps)
next
  case (Cons a as)
  have "write_addresses (a # as) = be_bytes 20 a @ write_addresses as" by (simp add: write_addresses_def)
  moreover have "be_bytes 20 a \<noteq> []" using length_be_bytes [of 20 a] by force
  ultimately show ?case using Cons by (simp add: read_addresses.simps [of "be_bytes 20 a @ _"])
qed

definition sample_trie :: "(unit, content, sample_txn, content \<times> b256 set, content \<times> b256 set) trie_libs" where
  "sample_trie = \<lparr>
     tl_open = (\<lambda>_ m. \<lparr>st_base = m, st_content = m, st_readable = UNIV, st_read = {}\<rparr>),
     tl_entry = (\<lambda>t k. if k \<in> st_readable t then Inr (st_content t k, t\<lparr>st_read := insert k (st_read t)\<rparr>)
                       else Inl ''missing node''),
     tl_insert = (\<lambda>t k v. t\<lparr>st_content := (st_content t)(k \<mapsto> v)\<rparr>),
     tl_commit = (\<lambda>t d. Inr (st_content t, d)),
     tl_snapshot = (\<lambda>t. (st_base t, st_read t)),
     tl_calc_root = (\<lambda>t. Inr (st_content t)),
     tl_verify = Inr, tl_root_of_verified = fst,
     tl_from_verified = (\<lambda>(m, K). \<lparr>st_base = m, st_content = m, st_readable = K, st_read = {}\<rparr>),
     tl_empty_db = (), tl_empty_root = Map.empty,
     tl_root_to_bytes = (\<lambda>_. None), tl_root_node = (\<lambda>_. Map.empty),
     tl_portable_sha256 = ucast, tl_bincode_addresses = write_addresses,
     tl_bincode_read_addresses = read_addresses\<rparr>"

definition sample_view :: "(unit, content, sample_txn) trie_view" where
  "sample_view = \<lparr>tv_content = st_content, tv_base = st_base, tv_readable = st_readable,
     tv_read = st_read, tv_root = (\<lambda>m. m), tv_holds = (\<lambda>_ _. True)\<rparr>"

lemma sample_trie_laws: "trie_laws sample_trie sample_view"
  unfolding trie_laws_def
proof (intro conjI)
  show "codec_law sample_trie"
    by (auto simp: codec_law_def sample_trie_def read_write_addresses is_up
        intro!: inj_on_inverseI [where g = ucast] ucast_up_ucast_id)
qed (simp_all add: open_law_def entry_law_def insert_law_def commit_law_def snapshot_law_def root_law_def
      sample_trie_def sample_view_def)

section \<open>Properties\<close>

text \<open>
  C17. The trie code implements the slots: on a trie that encodes the slots, \<open>next_state\<close> gives the
  matches of the specification and the root of a trie that encodes its slots, and it panics exactly
  where the specification has no step. So a number holds at most one waiting user, a match pairs that
  user with the next one to submit the number, and the only panic is a cancellation of a number that
  was submitted before and at which this user does not wait. (Assumes the laws of the trie.)
\<close>

theorem game_refines_slots:
  assumes "trie_laws L V" and "tv_holds V d m" and "encodes L slots m"
  shows "case slots_run slots rs of
      None \<Rightarrow> next_state L d (tv_root V m) rs = None
    | Some (slots', ms) \<Rightarrow> (\<exists>m' s d'. next_state L d (tv_root V m) rs = Some ((tv_root V m', s, ms), d') \<and>
        tv_holds V d' m' \<and> encodes L slots' m')"
  using assms by (rule next_state_slots)

definition submit_request :: "address \<Rightarrow> u64 \<Rightarrow> game_request" where
  "submit_request a n = SubmitNumber \<lparr>sn_address = a, sn_number = n\<rparr>"

definition cancel_request :: "address \<Rightarrow> u64 \<Rightarrow> game_request" where
  "cancel_request a n = CancelNumber \<lparr>cn_address = a, cn_number = n\<rparr>"

theorem game_refines_slots_witness:
  "\<exists>root s. next_state sample_trie () Map.empty [submit_request 1 42, submit_request 2 69, submit_request 3 42]
     = Some ((root, s, [\<lparr>gm_user1 = 1, gm_user2 = 3\<rparr>]), ())"
proof -
  have "tv_holds sample_view () Map.empty" by (simp add: sample_view_def)
  from game_refines_slots [OF sample_trie_laws this encodes_empty,
      of "[submit_request 1 42, submit_request 2 69, submit_request 3 42]"]
  show ?thesis by (auto simp: submit_request_def sample_view_def)
qed

end
