(* ===== verification/GameNode.thy ===== *)
theory GameNode
  imports GameCore
begin

text \<open>
  The matching game node (\<^verbatim>\<open>examples/matching-game/server\<close>) and its guest program
  (\<^verbatim>\<open>examples/matching-game/programs/program\<close>): the in-memory state, the engine, the batcher, the
  HTTP handlers and the client. Engine and batcher run concurrently on the shared state; the engine's
  steps are the receipt of a request and its processing, a turn of the batcher is one step (what it
  reads of the engine's work is fixed once the processed index is written). A panic or an \<open>Err\<close> ends
  a task.
\<close>

section \<open>The shared state\<close>

record 'r server_state =
  ss_merkle_root_batcher :: 'r
  ss_merkle_root_engine :: 'r
  ss_requests :: "u64 \<rightharpoonup> game_request"
  ss_seen_global_index :: u64
  ss_processed_global_index :: u64
  ss_next_batch_global_index :: u64

definition server_state_new :: "('d, 'r, 't, 's, 'v) trie_libs \<Rightarrow> 'r server_state" where
  "server_state_new L = \<lparr>ss_merkle_root_batcher = tl_empty_root L, ss_merkle_root_engine = tl_empty_root L,
     ss_requests = Map.empty, ss_seen_global_index = 0, ss_processed_global_index = 0,
     ss_next_batch_global_index = 0\<rparr>"

definition store_request :: "u64 \<Rightarrow> game_request \<Rightarrow> 'r server_state \<Rightarrow> 'r server_state" where
  "store_request index r s = s\<lparr>ss_requests := (ss_requests s)(index \<mapsto> r)\<rparr>"

section \<open>The engine\<close>

datatype 'd game_engine = EngineRunning u64 'd | EngineBusy u64 'd game_request | EngineStopped

definition engine_begin :: "('d, 'r, 't, 's, 'v) trie_libs \<Rightarrow> 'r server_state \<Rightarrow> 'd game_engine \<times> 'r server_state" where
  "engine_begin L s =
     (EngineRunning (ss_seen_global_index s) (tl_empty_db L), s\<lparr>ss_merkle_root_engine := tl_empty_root L\<rparr>)"

definition engine_recv :: "u64 \<Rightarrow> 'd \<Rightarrow> game_request \<Rightarrow> 'r server_state \<Rightarrow> 'd game_engine \<times> 'r server_state" where
  "engine_recv global_index trie_db r s =
     (let global_index = global_index + 1
      in (EngineBusy global_index trie_db r,
          store_request global_index r (s\<lparr>ss_seen_global_index := global_index\<rparr>)))"

definition game_response_of :: "game_request \<Rightarrow> game_match list \<Rightarrow> game_response" where
  "game_response_of r matches = (case r of
     SubmitNumber _ \<Rightarrow>
       RespSubmitNumber \<lparr>snr_success = True,
         snr_match_pair = (case matches of [] \<Rightarrow> None
            | m # _ \<Rightarrow> Some \<lparr>mp_user1 = gm_user1 m, mp_user2 = gm_user2 m\<rparr>)\<rparr>
   | CancelNumber _ \<Rightarrow> RespCancelNumber \<lparr>cnr_success = True\<rparr>)"

text \<open>\<open>alive\<close>: whether the handler still waits for the answer. The answer is \<open>None\<close> after a panic.\<close>

definition engine_process :: "('d, 'r, 't, 's, 'v) trie_libs \<Rightarrow> bool \<Rightarrow> u64 \<Rightarrow> 'd \<Rightarrow> game_request
    \<Rightarrow> 'r server_state \<Rightarrow> 'd game_engine \<times> 'r server_state \<times> game_api_response option" where
  "engine_process L alive global_index trie_db r s =
     (case next_state L trie_db (ss_merkle_root_engine s) [r] of
        None \<Rightarrow> (EngineStopped, s, None)
      | Some ((post_txn_merkle_root, _, matches), trie_db) \<Rightarrow>
          (let s = s\<lparr>ss_merkle_root_engine := post_txn_merkle_root, ss_processed_global_index := global_index\<rparr>;
               api_response = \<lparr>ga_response = game_response_of r matches, ga_global_index = global_index\<rparr>
           in (if alive then EngineRunning global_index trie_db else EngineStopped, s, Some api_response)))"

section \<open>The batcher\<close>

definition GAME_MAX_CYCLES :: u64 where "GAME_MAX_CYCLES = 32 * 1000 * 1000"
definition GAME_INIT_INDEX :: u64 where "GAME_INIT_INDEX = 1"

text \<open>\<open>None\<close> while the batcher has to wait.\<close>

definition game_ensure_initialized :: "'r server_state \<Rightarrow> 'r server_state option" where
  "game_ensure_initialized s =
     (if ss_processed_global_index s > 0
      then Some (if ss_next_batch_global_index s = 0
                 then s\<lparr>ss_next_batch_global_index := GAME_INIT_INDEX\<rparr> else s)
      else None)"

text \<open>The code outside the repository that the batcher relies on.\<close>

record 's game_env =
  ge_bincode_requests :: "game_request list \<Rightarrow> bytes"
  ge_bincode_snapshot :: "'s \<Rightarrow> bytes"
  ge_keccak256 :: "bytes \<Rightarrow> b256"
  ge_encode_onchain :: "stateful_app_onchain_input \<Rightarrow> bytes"
  ge_encode_job :: "offchain_job_request \<Rightarrow> bytes"
  ge_sign_message :: "bytes \<Rightarrow> string + bytes"
  ge_program_id :: bytes
  ge_consumer_addr :: address

record game_job =
  gj_request :: bytes
  gj_signature :: bytes
  gj_offchain_input :: bytes
  gj_relay_strategy :: "32 word"

definition game_combined_input :: "bytes \<Rightarrow> bytes \<Rightarrow> bytes" where
  "game_combined_input requests_bytes snapshot_bytes =
     u32_to_le_bytes (of_nat (length requests_bytes)) @ requests_bytes @ snapshot_bytes"

definition game_onchain_input :: "('d, 'r, 't, 's, 'v) trie_libs \<Rightarrow> 'r \<Rightarrow> stateful_app_onchain_input" where
  "game_onchain_input L pre_txn_merkle_root =
     \<lparr>sai_input_state_root = get_merkle_root_bytes L pre_txn_merkle_root, sai_onchain_input = []\<rparr>"

definition game_batch_job :: "('d, 'r, 't, 's, 'v) trie_libs \<Rightarrow> 's game_env \<Rightarrow> u64 \<Rightarrow> game_request list \<Rightarrow> 'r
    \<Rightarrow> 's \<Rightarrow> string + game_job" where
  "game_batch_job L env job_nonce requests pre_txn_merkle_root snapshot =
     (let combined = game_combined_input (ge_bincode_requests env requests) (ge_bincode_snapshot env snapshot);
          job_params = \<lparr>jp_nonce = job_nonce, jp_max_cycles = GAME_MAX_CYCLES,
            jp_consumer_address = ge_consumer_addr env,
            jp_onchain_input = ge_encode_onchain env (game_onchain_input L pre_txn_merkle_root),
            jp_program_id = ge_program_id env, jp_offchain_input_hash = ge_keccak256 env combined\<rparr>;
          req = abi_encode_offchain_job_request (ge_encode_job env) job_params
      in map_sum id (\<lambda>signature. \<lparr>gj_request = req, gj_signature = signature, gj_offchain_input = combined,
           gj_relay_strategy = relay_strategy_code Ordered\<rparr>) (ge_sign_message env req))"

text \<open>The outcome of each attempt is an argument; the result is the success and the sleeps in seconds.\<close>

fun game_submit_attempts :: "nat \<Rightarrow> (nat \<Rightarrow> bool) \<Rightarrow> u64 \<Rightarrow> bool \<times> u64 list" where
  "game_submit_attempts 0 outcome backoff = (False, [])"
| "game_submit_attempts (Suc n) outcome backoff =
     (if outcome 0 then (True, [])
      else map_prod id (Cons backoff) (game_submit_attempts n (\<lambda>i. outcome (Suc i)) (backoff * 8)))"

definition game_submit_job_with_backoff :: "(nat \<Rightarrow> bool) \<Rightarrow> bool \<times> u64 list" where
  "game_submit_job_with_backoff outcome = game_submit_attempts 3 outcome 1"

datatype 'd game_batcher = BatcherWaiting | BatcherRunning 'd u64 | BatcherStopped

definition batcher_begin :: "('d, 'r, 't, 's, 'v) trie_libs \<Rightarrow> 'r server_state
    \<Rightarrow> ('d game_batcher \<times> 'r server_state) option" where
  "batcher_begin L s = (case game_ensure_initialized s of
     None \<Rightarrow> None
   | Some s \<Rightarrow> Some (BatcherRunning (tl_empty_db L) 1, s\<lparr>ss_merkle_root_batcher := tl_empty_root L\<rparr>))"

text \<open>A submitted batch, with the matches that the batcher itself drops.\<close>

record ('r, 's) game_batch =
  gb_start :: u64
  gb_end :: u64
  gb_requests :: "game_request list"
  gb_pre_root :: 'r
  gb_post_root :: 'r
  gb_matches :: "game_match list"
  gb_snapshot :: 's
  gb_job :: game_job

definition game_read_requests :: "'r server_state \<Rightarrow> u64 \<Rightarrow> u64 \<Rightarrow> game_request list option" where
  "game_read_requests s start_index end_index =
     those (map (\<lambda>i. ss_requests s (of_nat i)) [unat start_index..<Suc (unat end_index)])"

text \<open>One turn of the loop: the batcher, the state, and the batch if one was submitted.\<close>

definition game_batcher_turn :: "('d, 'r, 't, 's, 'v) trie_libs \<Rightarrow> 's game_env \<Rightarrow> (nat \<Rightarrow> bool) \<Rightarrow> 'd \<Rightarrow> u64
    \<Rightarrow> 'r server_state \<Rightarrow> 'd game_batcher \<times> 'r server_state \<times> ('r, 's) game_batch option" where
  "game_batcher_turn L env outcome trie_db job_nonce s =
     (let start_index = ss_next_batch_global_index s; end_index = ss_processed_global_index s in
      if start_index > end_index then (BatcherRunning trie_db job_nonce, s, None)
      else case game_read_requests s start_index end_index of
        None \<Rightarrow> (BatcherStopped, s, None)
      | Some requests \<Rightarrow>
          (let pre_txn_merkle_root = ss_merkle_root_batcher s in
           case next_state L trie_db pre_txn_merkle_root requests of
             None \<Rightarrow> (BatcherStopped, s, None)
           | Some ((post_txn_merkle_root, snapshot, matches), trie_db) \<Rightarrow>
               (case game_batch_job L env job_nonce requests pre_txn_merkle_root snapshot of
                  Inl _ \<Rightarrow> (BatcherStopped, s, None)
                | Inr job \<Rightarrow>
                    if \<not> fst (game_submit_job_with_backoff outcome) then (BatcherStopped, s, None)
                    else (BatcherRunning trie_db (job_nonce + 1),
                          s\<lparr>ss_next_batch_global_index := end_index + 1,
                            ss_merkle_root_batcher := post_txn_merkle_root\<rparr>,
                          Some \<lparr>gb_start = start_index, gb_end = end_index, gb_requests = requests,
                            gb_pre_root = pre_txn_merkle_root, gb_post_root = post_txn_merkle_root,
                            gb_matches = matches, gb_snapshot = snapshot, gb_job = job\<rparr>))))"

section \<open>The guest program\<close>

definition game_guest_split :: "bytes \<Rightarrow> (bytes \<times> bytes) option" where
  "game_guest_split offchain_input =
     (if length offchain_input < 4 then None
      else case u32_from_le_bytes (take 4 offchain_input) of
        None \<Rightarrow> None
      | Some w \<Rightarrow>
          let requests_len = unat w in
          if length offchain_input < 4 + requests_len then None
          else Some (take requests_len (drop 4 offchain_input), drop (4 + requests_len) offchain_input))"

record 's guest_libs =
  gl_decode_onchain :: "bytes \<Rightarrow> stateful_app_onchain_input option"
  gl_read_requests :: "bytes \<Rightarrow> game_request list option"
  gl_read_snapshot :: "bytes \<Rightarrow> 's option"
  gl_encode_matches :: "game_match list \<Rightarrow> bytes"
  gl_encode_result :: "stateful_app_result \<Rightarrow> bytes"

text \<open>The committed bytes; \<open>None\<close> is a panic.\<close>

definition game_guest_main :: "('d, 'r, 't, 's, 'v) trie_libs \<Rightarrow> 's guest_libs \<Rightarrow> bytes \<Rightarrow> bytes \<Rightarrow> bytes option" where
  "game_guest_main L G onchain_input offchain_input =
     (case gl_decode_onchain G onchain_input of
        None \<Rightarrow> None
      | Some stateful_app_input \<Rightarrow>
          (case game_guest_split offchain_input of
             None \<Rightarrow> None
           | Some (requests_bytes, snapshot_bytes) \<Rightarrow>
               (case (gl_read_requests G requests_bytes, gl_read_snapshot G snapshot_bytes) of
                  (Some requests, Some snapshot) \<Rightarrow>
                    (let input_merkle_root = sai_input_state_root stateful_app_input;
                         pre_txn_merkle_root = (if input_merkle_root = 0 then tl_empty_root L
                                                else tl_root_node L input_merkle_root) in
                     case tl_verify L snapshot of
                       Inl _ \<Rightarrow> None
                     | Inr verified_snapshot \<Rightarrow>
                         if tl_root_of_verified L verified_snapshot \<noteq> pre_txn_merkle_root then None
                         else case apply_requests L (tl_from_verified L verified_snapshot) requests of
                           None \<Rightarrow> None
                         | Some (txn, matches) \<Rightarrow>
                             (case tl_calc_root L txn of
                                Inl _ \<Rightarrow> None
                              | Inr new_root \<Rightarrow>
                                  Some (gl_encode_result G
                                    \<lparr>sar_output_state_root = get_merkle_root_bytes L new_root,
                                     sar_result = gl_encode_matches G matches\<rparr>)))
                | _ \<Rightarrow> None)))"

section \<open>HTTP handlers and client\<close>

datatype game_app_response = AppSuccess game_api_response | AppFailure string

text \<open>How a request to the engine over the channels can end.\<close>

datatype game_channel_result = EngineGone | AnswerDropped | EngineAnswered game_api_response

definition game_handle :: "game_channel_result \<Rightarrow> game_app_response" where
  "game_handle c = (case c of
     EngineGone \<Rightarrow> AppFailure ''engine receive unexpectedly dropped''
   | AnswerDropped \<Rightarrow> AppFailure ''engine oneshot sender unexpectedly dropped''
   | EngineAnswered resp \<Rightarrow> AppSuccess resp)"

definition game_app_submit :: "(game_request \<Rightarrow> game_channel_result) \<Rightarrow> submit_number_request \<Rightarrow> game_app_response" where
  "game_app_submit engine req = game_handle (engine (SubmitNumber req))"

definition game_app_cancel :: "(game_request \<Rightarrow> game_channel_result) \<Rightarrow> cancel_number_request \<Rightarrow> game_app_response" where
  "game_app_cancel engine req = game_handle (engine (CancelNumber req))"

definition game_http_status :: "game_app_response \<Rightarrow> nat" where
  "game_http_status r = (case r of AppSuccess _ \<Rightarrow> 200 | AppFailure _ \<Rightarrow> 500)"

definition into_good :: "game_app_response \<Rightarrow> game_api_response option" where
  "into_good r = (case r of AppSuccess a \<Rightarrow> Some a | AppFailure _ \<Rightarrow> None)"

definition client_submit_number :: "(submit_number_request \<Rightarrow> game_app_response) \<Rightarrow> submit_number_request
    \<Rightarrow> string + (submit_number_response \<times> u64)" where
  "client_submit_number post req = (case post req of
     AppFailure e \<Rightarrow> Inl ''unexpected app response''
   | AppSuccess a \<Rightarrow> (case ga_response a of
       RespSubmitNumber resp \<Rightarrow> Inr (resp, ga_global_index a)
     | _ \<Rightarrow> Inl ''unexpected api response''))"

definition client_cancel_number :: "(cancel_number_request \<Rightarrow> game_app_response) \<Rightarrow> cancel_number_request
    \<Rightarrow> string + (cancel_number_response \<times> u64)" where
  "client_cancel_number post req = (case post req of
     AppFailure e \<Rightarrow> Inl ''unexpected app response''
   | AppSuccess a \<Rightarrow> (case ga_response a of
       RespCancelNumber resp \<Rightarrow> Inr (resp, ga_global_index a)
     | _ \<Rightarrow> Inl ''unexpected api response''))"

section \<open>The running node\<close>

text \<open>
  A configuration is reached with the requests received so far, the computed answers (each with the
  engine's root after it) and the submitted batches.
\<close>

type_synonym ('d, 'r) game_config = "'d game_engine \<times> 'd game_batcher \<times> 'r server_state"

inductive game_reach :: "('d, 'r, 't, 's, 'v) trie_libs \<Rightarrow> 's game_env \<Rightarrow> game_request list \<Rightarrow> ('d, 'r) game_config
    \<Rightarrow> (game_api_response \<times> 'r) list \<Rightarrow> ('r, 's) game_batch list \<Rightarrow> bool" for L env where
  init: "engine_begin L (server_state_new L) = (e, s) \<Longrightarrow> game_reach L env [] (e, BatcherWaiting, s) [] []"
| recv: "game_reach L env h (EngineRunning gi d, b, s) outs bs \<Longrightarrow> engine_recv gi d r s = (e', s') \<Longrightarrow>
    game_reach L env (h @ [r]) (e', b, s') outs bs"
| process: "game_reach L env h (EngineBusy gi d r, b, s) outs bs \<Longrightarrow>
    engine_process L alive gi d r s = (e', s', answer) \<Longrightarrow>
    game_reach L env h (e', b, s')
      (outs @ (case answer of None \<Rightarrow> [] | Some a \<Rightarrow> [(a, ss_merkle_root_engine s')])) bs"
| batcher_start: "game_reach L env h (e, BatcherWaiting, s) outs bs \<Longrightarrow> batcher_begin L s = Some (b', s') \<Longrightarrow>
    game_reach L env h (e, b', s') outs bs"
| batcher_turn: "game_reach L env h (e, BatcherRunning d job_nonce, s) outs bs \<Longrightarrow>
    game_batcher_turn L env outcome d job_nonce s = (b', s', batch) \<Longrightarrow>
    game_reach L env h (e, b', s') outs (bs @ (case batch of None \<Rightarrow> [] | Some x \<Rightarrow> [x]))"

section \<open>The history behind a configuration\<close>

definition content_after :: "('d, 'r, 't, 's, 'v) trie_libs \<Rightarrow> game_request list \<Rightarrow> nat
    \<Rightarrow> (content \<times> game_match list) option" where
  "content_after L h k = map_requests L Map.empty (take k h)"

definition response_matches :: "game_response \<Rightarrow> game_match list" where
  "response_matches r = (case r of
     RespSubmitNumber x \<Rightarrow> (case snr_match_pair x of None \<Rightarrow> []
       | Some p \<Rightarrow> [\<lparr>gm_user1 = mp_user1 p, gm_user2 = mp_user2 p\<rparr>])
   | RespCancelNumber _ \<Rightarrow> [])"

definition answer_matches :: "(game_api_response \<times> 'r) list \<Rightarrow> game_match list" where
  "answer_matches outs = concat (map (response_matches \<circ> ga_response \<circ> fst) outs)"

definition answers_ok :: "('d, 'r, 't, 's, 'v) trie_libs \<Rightarrow> ('d, 'r, 't) trie_view \<Rightarrow> game_request list
    \<Rightarrow> (game_api_response \<times> 'r) list \<Rightarrow> bool" where
  "answers_ok L V h outs \<longleftrightarrow> (\<forall>k \<le> length outs. \<exists>m.
     content_after L h k = Some (m, answer_matches (take k outs)) \<and>
     (0 < k \<longrightarrow> snd (outs ! (k - 1)) = tv_root V m))"

fun batches_ok :: "('d, 'r, 't, 's, 'v) trie_libs \<Rightarrow> ('d, 'r, 't) trie_view \<Rightarrow> game_request list
    \<Rightarrow> ('r, 's) game_batch list \<Rightarrow> nat \<Rightarrow> nat \<Rightarrow> bool" where
  "batches_ok L V h [] a c \<longleftrightarrow> a = c"
| "batches_ok L V h (b # bs) a c \<longleftrightarrow> (\<exists>e m ms m'. a < e \<and> e \<le> length h \<and>
     gb_start b = of_nat (Suc a) \<and> gb_end b = of_nat e \<and> gb_requests b = take (e - a) (drop a h) \<and>
     content_after L h a = Some (m, ms) \<and> content_after L h e = Some (m', ms @ gb_matches b) \<and>
     gb_pre_root b = tv_root V m \<and> gb_post_root b = tv_root V m' \<and> batches_ok L V h bs e c)"

definition request_table :: "game_request list \<Rightarrow> u64 \<rightharpoonup> game_request" where
  "request_table h = (\<lambda>i. if 0 < unat i \<and> unat i \<le> length h then Some (h ! (unat i - 1)) else None)"

definition on_content :: "('d, 'r, 't, 's, 'v) trie_libs \<Rightarrow> ('d, 'r, 't) trie_view \<Rightarrow> game_request list \<Rightarrow> nat
    \<Rightarrow> 'd \<Rightarrow> 'r \<Rightarrow> bool" where
  "on_content L V h k d root \<longleftrightarrow> (\<exists>m ms. content_after L h k = Some (m, ms) \<and> root = tv_root V m \<and> tv_holds V d m)"

fun engine_ok :: "('d, 'r, 't, 's, 'v) trie_libs \<Rightarrow> ('d, 'r, 't) trie_view \<Rightarrow> game_request list \<Rightarrow> nat
    \<Rightarrow> 'd game_engine \<Rightarrow> 'r server_state \<Rightarrow> bool" where
  "engine_ok L V h p (EngineRunning gi d) s \<longleftrightarrow> gi = of_nat (length h) \<and> p = length h \<and>
     on_content L V h p d (ss_merkle_root_engine s)"
| "engine_ok L V h p (EngineBusy gi d r) s \<longleftrightarrow> gi = of_nat (length h) \<and> length h = Suc p \<and> h ! p = r \<and>
     on_content L V h p d (ss_merkle_root_engine s)"
| "engine_ok L V h p EngineStopped s \<longleftrightarrow> p \<le> length h"

fun batcher_ok :: "('d, 'r, 't, 's, 'v) trie_libs \<Rightarrow> ('d, 'r, 't) trie_view \<Rightarrow> game_request list \<Rightarrow> nat
    \<Rightarrow> 'd game_batcher \<Rightarrow> 'r server_state \<Rightarrow> ('r, 's) game_batch list \<Rightarrow> bool" where
  "batcher_ok L V h p BatcherWaiting s bs \<longleftrightarrow> bs = [] \<and> ss_next_batch_global_index s = 0"
| "batcher_ok L V h p (BatcherRunning d n) s bs \<longleftrightarrow> (\<exists>q \<le> p. ss_next_batch_global_index s = of_nat (Suc q) \<and>
     on_content L V h q d (ss_merkle_root_batcher s) \<and> batches_ok L V h bs 0 q)"
| "batcher_ok L V h p BatcherStopped s bs \<longleftrightarrow> (\<exists>q \<le> p. batches_ok L V h bs 0 q)"

fun game_inv :: "('d, 'r, 't, 's, 'v) trie_libs \<Rightarrow> ('d, 'r, 't) trie_view \<Rightarrow> game_request list \<Rightarrow> ('d, 'r) game_config
    \<Rightarrow> (game_api_response \<times> 'r) list \<Rightarrow> ('r, 's) game_batch list \<Rightarrow> bool" where
  "game_inv L V h (e, b, s) outs bs \<longleftrightarrow>
     engine_ok L V h (length outs) e s \<and> batcher_ok L V h (length outs) b s bs \<and>
     ss_processed_global_index s = of_nat (length outs) \<and> ss_requests s = request_table h \<and>
     answers_ok L V h outs"

subsection \<open>Contents along the history\<close>

lemma content_after_0 [simp]: "content_after L h 0 = Some (Map.empty, [])"
  by (simp add: content_after_def)

lemma content_after_append [simp]: "k \<le> length h \<Longrightarrow> content_after L (h @ h') k = content_after L h k"
  by (simp add: content_after_def)

lemma content_after_range:
  assumes "q \<le> p" and "content_after L h q = Some (m, ms)"
  shows "content_after L h p = (case map_requests L m (take (p - q) (drop q h)) of
    None \<Rightarrow> None | Some (m', ms') \<Rightarrow> Some (m', ms @ ms'))"
proof -
  have "take p h = take q h @ take (p - q) (drop q h)" using assms(1) by (simp flip: take_add)
  then show ?thesis using assms(2) by (simp add: content_after_def map_requests_append)
qed

lemma content_after_Suc:
  assumes "k < length h" and "content_after L h k = Some (m, ms)"
  shows "content_after L h (Suc k) = (case map_request L m (h ! k) of
    None \<Rightarrow> None | Some (m', ms') \<Rightarrow> Some (m', ms @ ms'))"
proof -
  have "take (Suc k - k) (drop k h) = [h ! k]" using assms(1) by (simp flip: Cons_nth_drop_Suc)
  then show ?thesis using content_after_range [of k "Suc k", OF _ assms(2)]
    by (simp split: option.splits prod.splits)
qed

lemma on_content_append [simp]: "k \<le> length h \<Longrightarrow> on_content L V (h @ h') k d root = on_content L V h k d root"
  by (simp add: on_content_def)

lemma batches_ok_append: "batches_ok L V h bs a c \<Longrightarrow> batches_ok L V (h @ h') bs a c"
proof (induction bs arbitrary: a)
  case Nil
  then show ?case by simp
next
  case (Cons b bs)
  then obtain e m ms m' where e: "a < e" "e \<le> length h" "gb_start b = of_nat (Suc a)" "gb_end b = of_nat e"
    "gb_requests b = take (e - a) (drop a h)" "content_after L h a = Some (m, ms)"
    "content_after L h e = Some (m', ms @ gb_matches b)" "gb_pre_root b = tv_root V m"
    "gb_post_root b = tv_root V m'" "batches_ok L V h bs e c" by auto
  have "batches_ok L V (h @ h') bs e c" using e(10) by (rule Cons.IH)
  with e show ?case by auto
qed

lemma answers_ok_append:
  "answers_ok L V h outs \<Longrightarrow> length outs \<le> length h \<Longrightarrow> answers_ok L V (h @ h') outs"
  by (auto simp: answers_ok_def)

lemma batcher_ok_append:
  "batcher_ok L V h p b s bs \<Longrightarrow> p \<le> length h \<Longrightarrow> batcher_ok L V (h @ h') p b s bs"
  by (cases b) (auto intro: batches_ok_append)

lemma batches_ok_snoc:
  "batches_ok L V h bs a c \<Longrightarrow> batches_ok L V h [b] c e \<Longrightarrow> batches_ok L V h (bs @ [b]) a e"
proof (induction bs arbitrary: a)
  case Nil
  then show ?case by simp
next
  case (Cons x bs)
  then obtain e' m ms m' where e: "a < e'" "e' \<le> length h" "gb_start x = of_nat (Suc a)" "gb_end x = of_nat e'"
    "gb_requests x = take (e' - a) (drop a h)" "content_after L h a = Some (m, ms)"
    "content_after L h e' = Some (m', ms @ gb_matches x)" "gb_pre_root x = tv_root V m"
    "gb_post_root x = tv_root V m'" "batches_ok L V h bs e' c" by auto
  have "batches_ok L V h (bs @ [b]) e' e" using e(10) Cons.prems(2) by (rule Cons.IH)
  with e show ?case by auto
qed

subsection \<open>The request table\<close>

lemma request_table_snoc:
  assumes "Suc (length h) < 2 ^ 64"
  shows "request_table (h @ [r]) = (request_table h)(of_nat (Suc (length h)) \<mapsto> r)"
proof
  fix i :: u64
  have "i = of_nat (Suc (length h)) \<longleftrightarrow> unat i = Suc (length h)"
    using assms by (simp add: word_unat_eq_iff unat_of_nat del: of_nat_Suc)
  then show "request_table (h @ [r]) i = ((request_table h)(of_nat (Suc (length h)) \<mapsto> r)) i"
    by (auto simp: request_table_def nth_append)
qed

lemma those_map_Some: "(\<And>x. x \<in> set xs \<Longrightarrow> f x = Some (g x)) \<Longrightarrow> those (map f xs) = Some (map g xs)"
  by (induction xs) auto

lemma read_requests_table:
  assumes "q \<le> p" and "p \<le> length h" and "length h < 2 ^ 64 - 1" and "ss_requests s = request_table h"
  shows "game_read_requests s (of_nat (Suc q)) (of_nat p) = Some (take (p - q) (drop q h))"
proof -
  have u: "unat (of_nat (Suc q) :: u64) = Suc q" "unat (of_nat p :: u64) = p"
    using assms(1-3) by (simp_all add: unat_of_nat del: of_nat_Suc)
  have "request_table h (of_nat i) = Some (h ! (i - 1))" if "i \<in> set [Suc q..<Suc p]" for i
  proof -
    have "i < 2 ^ LENGTH(64)" using that assms(1-3) by auto
    then have "unat (of_nat i :: u64) = i" by (simp add: unat_of_nat)
    then show ?thesis using that assms(2) by (auto simp: request_table_def)
  qed
  then have "those (map (\<lambda>i. request_table h (of_nat i)) [Suc q..<Suc p]) = Some (map (\<lambda>i. h ! (i - 1)) [Suc q..<Suc p])"
    by (rule those_map_Some)
  moreover have "map (\<lambda>i. h ! (i - 1)) [Suc q..<Suc p] = take (p - q) (drop q h)"
    using assms(1,2) by (intro nth_equalityI) (auto simp del: upt_Suc)
  ultimately show ?thesis by (simp add: game_read_requests_def u assms(4) del: upt_Suc of_nat_Suc)
qed

subsection \<open>Each step keeps the invariant\<close>

lemma request_matches:
  "map_request L m r = Some (m', ms) \<Longrightarrow> response_matches (game_response_of r ms) = ms"
  by (cases r) (auto simp: response_matches_def game_response_of_def Let_def split: option.splits list.splits if_splits)

lemma answers_ok_snoc:
  assumes "answers_ok L V h outs" and "content_after L h (Suc (length outs)) = Some (m, answer_matches outs @ ms)"
    and "response_matches (ga_response a) = ms" and "root = tv_root V m"
  shows "answers_ok L V h (outs @ [(a, root)])"
  unfolding answers_ok_def
proof (intro allI impI)
  fix k assume k: "k \<le> length (outs @ [(a, root)])"
  show "\<exists>m. content_after L h k = Some (m, answer_matches (take k (outs @ [(a, root)]))) \<and>
      (0 < k \<longrightarrow> snd ((outs @ [(a, root)]) ! (k - 1)) = tv_root V m)"
  proof (cases "k \<le> length outs")
    case True
    then obtain m1 where "content_after L h k = Some (m1, answer_matches (take k outs))"
      "0 < k \<longrightarrow> snd (outs ! (k - 1)) = tv_root V m1"
      using assms(1) unfolding answers_ok_def by blast
    then show ?thesis using True by (auto simp: nth_append)
  next
    case False
    then have "k = Suc (length outs)" using k by simp
    then show ?thesis using assms(2-4) by (simp add: answer_matches_def nth_append)
  qed
qed

lemma answers_ok_last: "answers_ok L V h outs \<Longrightarrow> \<exists>m. content_after L h (length outs) = Some (m, answer_matches outs)"
  unfolding answers_ok_def by fastforce

lemma batcher_ok_mono:
  "batcher_ok L V h p b s bs \<Longrightarrow> p \<le> p' \<Longrightarrow>
     ss_next_batch_global_index s' = ss_next_batch_global_index s \<Longrightarrow>
     ss_merkle_root_batcher s' = ss_merkle_root_batcher s \<Longrightarrow> batcher_ok L V h p' b s' bs"
  by (cases b) (auto intro: order.trans)

lemma engine_ok_length: "engine_ok L V h p e s \<Longrightarrow> p \<le> length h"
  by (cases e) auto

lemma inv_recv:
  assumes "game_inv L V h (EngineRunning gi d, b, s) outs bs" and "engine_recv gi d r s = (e', s')"
    and "Suc (length h) < 2 ^ 64"
  shows "game_inv L V (h @ [r]) (e', b, s') outs bs"
proof -
  have i: "gi = of_nat (length h)" "length outs = length h" "on_content L V h (length h) d (ss_merkle_root_engine s)"
    "batcher_ok L V h (length h) b s bs" "ss_requests s = request_table h" "answers_ok L V h outs"
    "ss_processed_global_index s = of_nat (length h)"
    using assms(1) by auto
  have s': "e' = EngineBusy (gi + 1) d r"
    "s' = store_request (gi + 1) r (s\<lparr>ss_seen_global_index := gi + 1\<rparr>)"
    using assms(2) by (simp_all add: engine_recv_def Let_def)
  have "ss_requests s' = request_table (h @ [r])"
    using i(1,5) request_table_snoc [OF assms(3)] by (simp add: s' store_request_def add.commute)
  moreover have "batcher_ok L V (h @ [r]) (length h) b s' bs"
    using batcher_ok_mono [OF batcher_ok_append [OF i(4)]] by (simp add: s' store_request_def)
  ultimately show ?thesis
    using i answers_ok_append [OF i(6)] by (simp add: s' store_request_def add.commute)
qed

lemma process_step:
  assumes "trie_laws L V" and "on_content L V h p d root" and "p < length h"
    and "content_after L h p = Some (m, ms)"
  shows "case map_request L m (h ! p) of
      None \<Rightarrow> next_state L d root [h ! p] = None
    | Some (m', ms') \<Rightarrow> content_after L h (Suc p) = Some (m', ms @ ms') \<and>
        (\<exists>s d'. next_state L d root [h ! p] = Some ((tv_root V m', s, ms'), d') \<and> tv_holds V d' m')"
proof -
  have r: "root = tv_root V m" "tv_holds V d m" using assms(2,4) by (auto simp: on_content_def)
  note n = next_state_map [OF assms(1) r(2), of "[h ! p]"]
  show ?thesis
    using n content_after_Suc [OF assms(3,4)] unfolding r(1)
    by (cases "map_request L m (h ! p)") auto
qed

lemma inv_process:
  assumes "trie_laws L V" and "game_inv L V h (EngineBusy gi d r, b, s) outs bs"
    and "engine_process L alive gi d r s = (e', s', answer)"
  shows "game_inv L V h (e', b, s') (outs @ (case answer of None \<Rightarrow> [] | Some a \<Rightarrow> [(a, ss_merkle_root_engine s')])) bs"
proof -
  let ?p = "length outs"
  have i: "gi = of_nat (length h)" "length h = Suc ?p" "h ! ?p = r" "on_content L V h ?p d (ss_merkle_root_engine s)"
    "batcher_ok L V h ?p b s bs" "ss_requests s = request_table h" "answers_ok L V h outs"
    "ss_processed_global_index s = of_nat ?p"
    using assms(2) by auto
  obtain m where m: "content_after L h ?p = Some (m, answer_matches outs)" using answers_ok_last [OF i(7)] by blast
  have "?p < length h" by (simp add: i(2))
  note st = process_step [OF assms(1) i(4) this m, unfolded i(3)]
  show ?thesis
  proof (cases "map_request L m r")
    case None
    then have "e' = EngineStopped" "s' = s" "answer = None"
      using st assms(3) by (auto simp: engine_process_def)
    then show ?thesis using i by simp
  next
    case (Some x)
    obtain m' ms' where x: "x = (m', ms')" by force
    with st Some obtain sn d' where c: "content_after L h (Suc ?p) = Some (m', answer_matches outs @ ms')"
      and ns: "next_state L d (ss_merkle_root_engine s) [r] = Some ((tv_root V m', sn, ms'), d')" "tv_holds V d' m'"
      by auto
    let ?a = "\<lparr>ga_response = game_response_of r ms', ga_global_index = gi\<rparr>"
    have e': "e' = (if alive then EngineRunning gi d' else EngineStopped)" "answer = Some ?a"
      "s' = s\<lparr>ss_merkle_root_engine := tv_root V m', ss_processed_global_index := gi\<rparr>"
      using ns(1) assms(3) by (auto simp: engine_process_def Let_def)
    have "answers_ok L V h (outs @ [(?a, tv_root V m')])"
      using i(7) c request_matches [of L m r m' ms'] Some x by (intro answers_ok_snoc) simp_all
    moreover have "batcher_ok L V h (Suc ?p) b s' bs" by (rule batcher_ok_mono [OF i(5)]) (simp_all add: e')
    ultimately show ?thesis using i c ns(2) by (auto simp: e' on_content_def)
  qed
qed

lemma inv_batcher_start:
  assumes "trie_laws L V" and "game_inv L V h (e, BatcherWaiting, s) outs bs" and "batcher_begin L s = Some (b', s')"
  shows "game_inv L V h (e, b', s') outs bs"
proof -
  have s': "b' = BatcherRunning (tl_empty_db L) 1"
    "s' = s\<lparr>ss_next_batch_global_index := 1, ss_merkle_root_batcher := tl_empty_root L\<rparr>"
    using assms(2,3) by (auto simp: batcher_begin_def game_ensure_initialized_def GAME_INIT_INDEX_def split: if_splits)
  have "on_content L V h 0 (tl_empty_db L) (tl_empty_root L)"
    using trie_empty_db [OF assms(1)] trie_empty_root [OF assms(1)] by (simp add: on_content_def)
  moreover have "engine_ok L V h (length outs) e s'" using assms(2) by (cases e) (auto simp: s')
  ultimately show ?thesis using assms(2) by (auto simp: s' intro!: exI [of _ 0])
qed

lemma inv_batcher_turn:
  assumes "trie_laws L V" and "game_inv L V h (e, BatcherRunning d n, s) outs bs"
    and "game_batcher_turn L env outcome d n s = (b', s', batch)" and "length h < 2 ^ 64 - 1"
  shows "game_inv L V h (e, b', s') outs (bs @ (case batch of None \<Rightarrow> [] | Some x \<Rightarrow> [x]))"
proof -
  let ?p = "length outs"
  obtain q where q: "q \<le> ?p" "ss_next_batch_global_index s = of_nat (Suc q)"
    "on_content L V h q d (ss_merkle_root_batcher s)" "batches_ok L V h bs 0 q"
    using assms(2) by auto
  have i: "engine_ok L V h ?p e s" "ss_processed_global_index s = of_nat ?p" "ss_requests s = request_table h"
    "answers_ok L V h outs"
    using assms(2) by auto
  have p: "?p \<le> length h" using i(1) by (rule engine_ok_length)
  have stop: "game_inv L V h (e, BatcherStopped, s) outs bs" using assms(2) q by auto
  show ?thesis
  proof (cases "ss_next_batch_global_index s > ss_processed_global_index s")
    case True
    then show ?thesis using assms(2,3) by (auto simp: game_batcher_turn_def Let_def)
  next
    case False
    have "unat (of_nat (Suc q) :: u64) = Suc q" "unat (of_nat ?p :: u64) = ?p"
      using q(1) p assms(4) by (simp_all add: unat_of_nat del: of_nat_Suc)
    with False have "Suc q \<le> ?p" unfolding q(2) i(2) by (simp add: word_less_nat_alt del: of_nat_Suc)
    then have qp: "q < ?p" by simp
    let ?rs = "take (?p - q) (drop q h)"
    have rs: "game_read_requests s (ss_next_batch_global_index s) (ss_processed_global_index s) = Some ?rs"
      unfolding q(2) i(2) using q(1) p assms(4) i(3) by (rule read_requests_table)
    obtain m ms where m: "content_after L h q = Some (m, ms)" "ss_merkle_root_batcher s = tv_root V m" "tv_holds V d m"
      using q(3) by (auto simp: on_content_def)
    obtain mp where mp: "content_after L h ?p = Some (mp, answer_matches outs)" using answers_ok_last [OF i(4)] by blast
    note cr = content_after_range [OF q(1) m(1)]
    obtain ms' where ms': "map_requests L m ?rs = Some (mp, ms')" "answer_matches outs = ms @ ms'"
      using cr mp by (auto split: option.splits)
    obtain sn d' where ns: "next_state L d (ss_merkle_root_batcher s) ?rs = Some ((tv_root V mp, sn, ms'), d')" "tv_holds V d' mp"
      using next_state_map [OF assms(1) m(3), of ?rs] ms' m(2) by auto
    show ?thesis
    proof (cases "game_batch_job L env n ?rs (ss_merkle_root_batcher s) sn")
      case (Inl x)
      then have "b' = BatcherStopped" "s' = s" "batch = None"
        using assms(3) False rs ns by (auto simp: game_batcher_turn_def Let_def)
      then show ?thesis using stop by simp
    next
      case (Inr job)
      show ?thesis
      proof (cases "fst (game_submit_job_with_backoff outcome)")
        case False
        then have "b' = BatcherStopped" "s' = s" "batch = None"
          using assms(3) \<open>\<not> ss_next_batch_global_index s > ss_processed_global_index s\<close> rs ns Inr
          by (auto simp: game_batcher_turn_def Let_def)
        then show ?thesis using stop by simp
      next
        case True
        let ?b = "\<lparr>gb_start = of_nat (Suc q), gb_end = of_nat ?p, gb_requests = ?rs,
          gb_pre_root = tv_root V m, gb_post_root = tv_root V mp, gb_matches = ms', gb_snapshot = sn, gb_job = job\<rparr>"
        have t: "b' = BatcherRunning d' (n + 1)" "batch = Some ?b"
          "s' = s\<lparr>ss_next_batch_global_index := of_nat ?p + 1, ss_merkle_root_batcher := tv_root V mp\<rparr>"
          using assms(3) False rs ns Inr True m(2) q(2) i(2)
          by (auto simp: game_batcher_turn_def Let_def)
        have "batches_ok L V h [?b] q ?p"
          using qp p m(1) mp ms'(2) by auto
        with q(4) have "batches_ok L V h (bs @ [?b]) 0 ?p" by (rule batches_ok_snoc)
        moreover have "on_content L V h ?p d' (tv_root V mp)" using mp ns(2) by (simp add: on_content_def)
        moreover have "engine_ok L V h ?p e s'" using i(1) by (cases e) (auto simp: t)
        ultimately show ?thesis using i by (auto simp: t add.commute intro!: exI [of _ ?p])
      qed
    qed
  qed
qed

lemma game_reach_inv:
  assumes "game_reach L env h c outs bs" and "trie_laws L V" and "length h < 2 ^ 64 - 1"
  shows "game_inv L V h c outs bs"
  using assms(1,3)
proof (induction rule: game_reach.induct)
  case (init e s)
  then show ?case
    using trie_empty_db [OF assms(2)] trie_empty_root [OF assms(2)]
    by (auto simp: engine_begin_def server_state_new_def on_content_def answers_ok_def answer_matches_def
        request_table_def fun_eq_iff)
next
  case (recv h gi d b s outs bs r e' s')
  have l: "length h < 2 ^ 64 - 1" "Suc (length h) < 2 ^ 64" using recv.prems by simp_all
  show ?case using recv.IH [OF l(1)] recv.hyps(2) l(2) by (rule inv_recv)
next
  case (process h gi d r b s outs bs alive e' s' answer)
  show ?case using assms(2) process.IH [OF process.prems] process.hyps(2) by (rule inv_process)
next
  case (batcher_start h e s outs bs b' s')
  show ?case using assms(2) batcher_start.IH [OF batcher_start.prems] batcher_start.hyps(2)
    by (rule inv_batcher_start)
next
  case (batcher_turn h e d job_nonce s outs bs outcome b' s' batch)
  show ?case using assms(2) batcher_turn.IH [OF batcher_turn.prems] batcher_turn.hyps(2) batcher_turn.prems
    by (rule inv_batcher_turn)
qed

section \<open>Batches\<close>

text \<open>What a chain of batches amounts to.\<close>

lemma batches_ok_le: "batches_ok L V h bs a c \<Longrightarrow> a \<le> c"
  by (induction bs arbitrary: a) force+

lemma batches_ok_requests:
  "batches_ok L V h bs a c \<Longrightarrow> concat (map gb_requests bs) = take (c - a) (drop a h)"
proof (induction bs arbitrary: a)
  case Nil
  then show ?case by simp
next
  case (Cons b bs)
  then obtain e where e: "a < e" "gb_requests b = take (e - a) (drop a h)" "batches_ok L V h bs e c" by auto
  have "e \<le> c" using e(3) by (rule batches_ok_le)
  then have "c - a = (e - a) + (c - e)" using e(1) by simp
  moreover have "take ((e - a) + (c - e)) (drop a h) = take (e - a) (drop a h) @ take (c - e) (drop e h)"
    using e(1) unfolding take_add by simp
  ultimately have "take (c - a) (drop a h) = take (e - a) (drop a h) @ take (c - e) (drop e h)" by simp
  then show ?case using e(2) Cons.IH [OF e(3)] by simp
qed

lemma batches_ok_matches:
  "batches_ok L V h bs a c \<Longrightarrow> content_after L h a = Some (m, ms) \<Longrightarrow>
     \<exists>m'. content_after L h c = Some (m', ms @ concat (map gb_matches bs))"
proof (induction bs arbitrary: a m ms)
  case Nil
  then show ?case by simp
next
  case (Cons b bs)
  then obtain e m' where e: "content_after L h e = Some (m', ms @ gb_matches b)" "batches_ok L V h bs e c" by auto
  show ?case using Cons.IH [OF e(2,1)] by simp
qed

lemma batches_ok_roots:
  "batches_ok L V h bs a c \<Longrightarrow> content_after L h a = Some (m, ms) \<Longrightarrow>
     map gb_pre_root bs = butlast (tv_root V m # map gb_post_root bs)"
proof (induction bs arbitrary: a m ms)
  case Nil
  then show ?case by simp
next
  case (Cons b bs)
  then obtain e m' where e: "content_after L h e = Some (m', ms @ gb_matches b)" "gb_pre_root b = tv_root V m"
    "gb_post_root b = tv_root V m'" "batches_ok L V h bs e c" by auto
  show ?case using Cons.IH [OF e(4,1)] e(2,3) by simp
qed

lemma batches_ok_engine_roots:
  assumes "answers_ok L V h outs" and "length outs < 2 ^ 64"
  shows "batches_ok L V h bs a c \<Longrightarrow> c \<le> length outs \<Longrightarrow>
     list_all (\<lambda>b. gb_post_root b = snd (outs ! (unat (gb_end b) - 1))) bs"
proof (induction bs arbitrary: a)
  case Nil
  then show ?case by simp
next
  case (Cons b bs)
  then obtain e m ms m' where e: "a < e" "gb_end b = of_nat e" "content_after L h e = Some (m', ms @ gb_matches b)"
    "gb_post_root b = tv_root V m'" "batches_ok L V h bs e c" by auto
  have "e \<le> length outs" using batches_ok_le [OF e(5)] Cons.prems(2) by simp
  then obtain m2 where "content_after L h e = Some (m2, answer_matches (take e outs))"
    "0 < e \<longrightarrow> snd (outs ! (e - 1)) = tv_root V m2" using assms(1) unfolding answers_ok_def by blast
  moreover have "unat (gb_end b) = e" using \<open>e \<le> length outs\<close> assms(2) e(2) by (simp add: unat_of_nat)
  ultimately show ?case using e Cons.IH [OF e(5) Cons.prems(2)] by simp
qed

lemma game_inv_batches:
  assumes "game_inv L V h (e, b, s) outs bs"
  obtains q where "q \<le> length outs" "batches_ok L V h bs 0 q"
  using assms that by (cases b) auto

text \<open>
  C14. What goes on chain is what the server answered: in every reachable configuration the submitted
  batches, one after the other, hold the first requests of the history in their order, none twice and
  none left out, all of them answered by the engine; each batch starts from the root at which the one
  before it ended, the first from the empty trie; each ends at the root the engine had after the same
  request; and the matches of the batches are those the users were told. (Assumes the laws of the trie
  and fewer requests than a \<open>u64\<close> can count.)
\<close>

theorem batches_replay_engine:
  assumes "trie_laws L V" and "game_reach L env h (e, b, s) outs bs" and "length h < 2 ^ 64 - 1"
  shows "\<exists>n \<le> length outs. concat (map gb_requests bs) = take n h
    \<and> map gb_pre_root bs = butlast (tl_empty_root L # map gb_post_root bs)
    \<and> list_all (\<lambda>b. gb_post_root b = snd (outs ! (unat (gb_end b) - 1))) bs
    \<and> concat (map gb_matches bs) = answer_matches (take n outs)"
proof -
  have i: "game_inv L V h (e, b, s) outs bs" using assms(2,1,3) by (rule game_reach_inv)
  then have a: "answers_ok L V h outs" and le: "length outs \<le> length h" by (auto dest: engine_ok_length)
  obtain n where n: "n \<le> length outs" "batches_ok L V h bs 0 n" using game_inv_batches [OF i] .
  have "concat (map gb_requests bs) = take n h" using batches_ok_requests [OF n(2)] by simp
  moreover have "map gb_pre_root bs = butlast (tl_empty_root L # map gb_post_root bs)"
    using batches_ok_roots [OF n(2)] trie_empty_root [OF assms(1)] by simp
  moreover have "list_all (\<lambda>b. gb_post_root b = snd (outs ! (unat (gb_end b) - 1))) bs"
    using batches_ok_engine_roots [OF a _ n(2,1)] le assms(3) by simp
  moreover have "concat (map gb_matches bs) = answer_matches (take n outs)"
    using batches_ok_matches [OF n(2)] a n(1) unfolding answers_ok_def by fastforce
  ultimately show ?thesis using n(1) by blast
qed

section \<open>The guest repeats a batch\<close>

lemma game_guest_split_combined:
  assumes "length rb < 2 ^ 32"
  shows "game_guest_split (game_combined_input rb sb) = Some (rb, sb)"
proof -
  have "unat (of_nat (length rb) :: u32) = length rb" using assms by (simp add: unat_of_nat)
  then show ?thesis
    by (simp add: game_guest_split_def game_combined_input_def u32_le_roundtrip Let_def)
qed

lemma guest_applies:
  assumes "trie_laws L V" and "snapshot_of L V m rs sn" and "map_requests L m rs = Some (m', ms)"
  obtains w t where "tl_verify L sn = Inr w" "tl_root_of_verified L w = tv_root V m"
    "apply_requests L (tl_from_verified L w) rs = Some (t, ms)" "tl_calc_root L t = Inr (tv_root V m')"
proof -
  obtain w where w: "tl_verify L sn = Inr w" "tl_root_of_verified L w = tv_root V m"
    "tv_content V (tl_from_verified L w) = m"
    "(hash L \<circ> request_number) ` set rs \<subseteq> tv_readable V (tl_from_verified L w)"
    using assms(2) unfolding snapshot_of_def by blast
  obtain t where "apply_requests L (tl_from_verified L w) rs = Some (t, ms)" "tv_content V t = m'"
    using apply_requests_map [OF assms(1) w(4)] assms(3) w(3) by (auto simp: follows_def)
  with w(1,2) that trie_calc_root [OF assms(1)] show thesis by simp
qed

text \<open>The batch of one turn, as \<open>next_state\<close> and the job made it.\<close>

lemma batcher_turn_batch:
  assumes "game_batcher_turn L env outcome d n s = (b', s', Some x)"
  shows "\<exists>d'. next_state L d (ss_merkle_root_batcher s) (gb_requests x) =
      Some ((gb_post_root x, gb_snapshot x, gb_matches x), d')
    \<and> gb_pre_root x = ss_merkle_root_batcher s
    \<and> game_batch_job L env n (gb_requests x) (gb_pre_root x) (gb_snapshot x) = Inr (gb_job x)"
  using assms by (auto simp: game_batcher_turn_def Let_def split: if_splits option.splits prod.splits sum.splits)

lemma batch_job_input:
  "game_batch_job L env n rs root sn = Inr job \<Longrightarrow>
     gj_offchain_input job = game_combined_input (ge_bincode_requests env rs) (ge_bincode_snapshot env sn)"
  by (cases "ge_sign_message env (gj_request job)") (auto simp: game_batch_job_def Let_def map_sum_def split: sum.splits)

text \<open>
  C18. The guest proves what the batcher computed: run on the inputs of a submitted job, the guest
  program commits the root at which the batcher went on and the matches of the batch, although it sees
  only the snapshot. (Assumes the laws of the trie, that the encodings of this batch are read back, that
  the encoded requests are shorter than 4 GiB, and that the batch's first root is read back from its 32
  bytes, the empty trie from zero.)
\<close>

theorem guest_replays_batch:
  assumes "trie_laws L V" and "game_reach L env h (e, BatcherRunning d n, s) outs bs" and "length h < 2 ^ 64 - 1"
    and "game_batcher_turn L env outcome d n s = (b', s', Some x)"
    and "gl_read_requests G (ge_bincode_requests env (gb_requests x)) = Some (gb_requests x)"
    and "gl_read_snapshot G (ge_bincode_snapshot env (gb_snapshot x)) = Some (gb_snapshot x)"
    and "gl_decode_onchain G onchain = Some (game_onchain_input L (gb_pre_root x))"
    and "length (ge_bincode_requests env (gb_requests x)) < 2 ^ 32"
    and "(if get_merkle_root_bytes L (gb_pre_root x) = 0 then tl_empty_root L
          else tl_root_node L (get_merkle_root_bytes L (gb_pre_root x))) = gb_pre_root x"
  shows "game_guest_main L G onchain (gj_offchain_input (gb_job x)) = Some (gl_encode_result G
    \<lparr>sar_output_state_root = get_merkle_root_bytes L (ss_merkle_root_batcher s'),
     sar_result = gl_encode_matches G (gb_matches x)\<rparr>)"
proof -
  obtain d' where b: "next_state L d (ss_merkle_root_batcher s) (gb_requests x) =
      Some ((gb_post_root x, gb_snapshot x, gb_matches x), d')" "gb_pre_root x = ss_merkle_root_batcher s"
    "game_batch_job L env n (gb_requests x) (gb_pre_root x) (gb_snapshot x) = Inr (gb_job x)"
    using batcher_turn_batch [OF assms(4)] by blast
  have s': "ss_merkle_root_batcher s' = gb_post_root x"
    using assms(4) by (auto simp: game_batcher_turn_def Let_def split: if_splits option.splits prod.splits sum.splits)
  have "game_inv L V h (e, BatcherRunning d n, s) outs bs" using assms(2,1,3) by (rule game_reach_inv)
  then obtain m where m: "ss_merkle_root_batcher s = tv_root V m" "tv_holds V d m" by (auto simp: on_content_def)
  have pre: "gb_pre_root x = tv_root V m" using b(2) m(1) by simp
  obtain m' where m': "map_requests L m (gb_requests x) = Some (m', gb_matches x)" "gb_post_root x = tv_root V m'"
    "snapshot_of L V m (gb_requests x) (gb_snapshot x)"
    using next_state_map [OF assms(1) m(2), of "gb_requests x"] b(1) m(1)
    by (cases "map_requests L m (gb_requests x)") auto
  obtain w t where "tl_verify L (gb_snapshot x) = Inr w" "tl_root_of_verified L w = tv_root V m"
    "apply_requests L (tl_from_verified L w) (gb_requests x) = Some (t, gb_matches x)"
    "tl_calc_root L t = Inr (tv_root V m')"
    using guest_applies [OF assms(1) m'(3,1)] .
  moreover have "game_guest_split (gj_offchain_input (gb_job x)) =
      Some (ge_bincode_requests env (gb_requests x), ge_bincode_snapshot env (gb_snapshot x))"
    using batch_job_input [OF b(3)] game_guest_split_combined [OF assms(8)] by simp
  moreover have "(if sai_input_state_root (game_onchain_input L (gb_pre_root x)) = 0 then tl_empty_root L
      else tl_root_node L (sai_input_state_root (game_onchain_input L (gb_pre_root x)))) = tv_root V m"
    using assms(9) unfolding game_onchain_input_def pre by (simp split: if_splits)
  ultimately show ?thesis
    using assms(5-7) m'(2) s' by (simp add: game_guest_main_def Let_def)
qed

section \<open>When the engine stops\<close>

text \<open>
  C36. The engine ends, and with it the node, exactly when the handler of a request has gone away or
  the request cancels a number that has been submitted before and at which this user does not wait:
  because they have been matched, have cancelled already, or never submitted it. Nothing checks such
  a cancellation before. (Assumes the laws of the trie.)
\<close>

theorem engine_stops_exactly:
  assumes "trie_laws L V" and "game_reach L env h (EngineBusy gi d r, b, s) outs bs" and "length h < 2 ^ 64 - 1"
  shows "\<exists>slots ms. slots_run (\<lambda>_. Unused) (butlast h) = Some (slots, ms) \<and>
    (fst (engine_process L alive gi d r s) = EngineStopped \<longleftrightarrow>
       \<not> alive \<or> (\<exists>a n. r = cancel_request a n \<and> slots n \<notin> {Unused, Waiting a}))"
proof -
  have i: "game_inv L V h (EngineBusy gi d r, b, s) outs bs" using assms(2,1,3) by (rule game_reach_inv)
  let ?p = "length outs"
  have h: "butlast h = take ?p h" using i by (simp add: butlast_conv_take)
  obtain m ms where m: "map_requests L Map.empty (butlast h) = Some (m, ms)"
    "ss_merkle_root_engine s = tv_root V m" "tv_holds V d m"
    using i by (auto simp: on_content_def content_after_def h)
  obtain slots ms' where sl: "slots_run (\<lambda>_. Unused) (butlast h) = Some (slots, ms')" "encodes L slots m"
    using slots_map_requests [OF assms(1) encodes_empty, of "butlast h"] m(1)
    by (cases "slots_run (\<lambda>_. Unused) (butlast h)") auto
  note n = next_state_slots [OF assms(1) m(3) sl(2), of "[r]"]
  have "fst (engine_process L alive gi d r s) = EngineStopped \<longleftrightarrow> \<not> alive \<or> slot_step slots r = None"
    using n unfolding engine_process_def m(2)
    by (cases "slot_step slots r") (auto simp: Let_def)
  moreover have "slot_step slots r = None \<longleftrightarrow> (\<exists>a n. r = cancel_request a n \<and> slots n \<notin> {Unused, Waiting a})"
  proof (cases r)
    case (SubmitNumber x)
    then show ?thesis by (simp add: cancel_request_def)
  next
    case (CancelNumber c)
    have c: "r = cancel_request a n \<longleftrightarrow> a = cn_address c \<and> n = cn_number c" for a n
      using CancelNumber by (cases c) (auto simp: cancel_request_def)
    show ?thesis unfolding c using CancelNumber by (auto split: slot.splits)
  qed
  ultimately have "fst (engine_process L alive gi d r s) = EngineStopped \<longleftrightarrow>
      \<not> alive \<or> (\<exists>a n. r = cancel_request a n \<and> slots n \<notin> {Unused, Waiting a})" by simp
  with sl(1) show ?thesis by (intro exI [of _ slots] exI [of _ ms'] conjI)
qed

section \<open>A run\<close>

text \<open>Two users submit 42, then one of them cancels it.\<close>

definition sample_game_env :: "(content \<times> b256 set) game_env" where
  "sample_game_env = \<lparr>ge_bincode_requests = (\<lambda>rs. replicate (length rs) 1), ge_bincode_snapshot = (\<lambda>_. []),
     ge_keccak256 = be_word, ge_encode_onchain = (\<lambda>x. be_bytes 32 (sai_input_state_root x)),
     ge_encode_job = (\<lambda>_. [1]), ge_sign_message = Inr, ge_program_id = [7], ge_consumer_addr = 8\<rparr>"

abbreviation "run_submit1 \<equiv> submit_request 1 42"
abbreviation "run_submit2 \<equiv> submit_request 2 42"

definition run_content1 :: content where
  "run_content1 = Map.empty(hash sample_trie 42 \<mapsto> serialize_address_list sample_trie [1])"

definition run_content2 :: content where
  "run_content2 = run_content1(hash sample_trie 42 \<mapsto> serialize_address_list sample_trie [])"

abbreviation "run_match \<equiv> \<lparr>gm_user1 = 1, gm_user2 = 2\<rparr>"

lemma run_map:
  "map_requests sample_trie Map.empty [run_submit1] = Some (run_content1, [])"
  "map_requests sample_trie run_content1 [run_submit2] = Some (run_content2, [run_match])"
  "map_requests sample_trie Map.empty [run_submit1, run_submit2] = Some (run_content2, [run_match])"
  by (simp_all add: submit_request_def run_content1_def run_content2_def
      addresses_roundtrip [OF sample_trie_laws] Let_def)

lemma run_next_state:
  "map_requests sample_trie m rs = Some (m', ms) \<Longrightarrow>
     \<exists>sn. next_state sample_trie () m rs = Some ((m', sn, ms), ())"
  using next_state_map [OF sample_trie_laws, of "()" m rs] by (auto simp: sample_view_def)

definition run_state1 :: "content server_state" where
  "run_state1 = \<lparr>ss_merkle_root_batcher = Map.empty, ss_merkle_root_engine = Map.empty,
     ss_requests = [1 \<mapsto> run_submit1], ss_seen_global_index = 1, ss_processed_global_index = 0,
     ss_next_batch_global_index = 0\<rparr>"

definition run_state2 :: "content server_state" where
  "run_state2 = \<lparr>ss_merkle_root_batcher = Map.empty, ss_merkle_root_engine = run_content1,
     ss_requests = [1 \<mapsto> run_submit1, 2 \<mapsto> run_submit2], ss_seen_global_index = 2,
     ss_processed_global_index = 1, ss_next_batch_global_index = 0\<rparr>"

definition run_state3 :: "content server_state" where
  "run_state3 = run_state2\<lparr>ss_merkle_root_engine := run_content2, ss_processed_global_index := 2,
     ss_next_batch_global_index := 1\<rparr>"

lemma game_run_reach:
  obtains a1 a2 where "game_reach sample_trie sample_game_env [run_submit1, run_submit2]
    (EngineRunning 2 (), BatcherRunning () 1, run_state3) [a1, a2] []"
    "response_matches (ga_response (fst a2)) = [run_match]"
proof -
  let ?R = "game_reach sample_trie sample_game_env"
  let ?s0 = "server_state_new sample_trie :: content server_state"
  have s0: "?s0 = \<lparr>ss_merkle_root_batcher = Map.empty, ss_merkle_root_engine = Map.empty, ss_requests = Map.empty,
      ss_seen_global_index = 0, ss_processed_global_index = 0, ss_next_batch_global_index = 0\<rparr>"
    by (simp add: server_state_new_def sample_trie_def)
  have e: "tl_empty_root sample_trie = Map.empty" "tl_empty_db sample_trie = ()" by (simp_all add: sample_trie_def)
  have 0: "?R [] (EngineRunning 0 (), BatcherWaiting, ?s0) [] []"
    by (rule game_reach.init) (simp add: engine_begin_def s0 e)
  have 1: "?R ([] @ [run_submit1]) (EngineBusy 1 () run_submit1, BatcherWaiting, run_state1) [] []"
    by (rule game_reach.recv [OF 0]) (simp add: engine_recv_def store_request_def s0 run_state1_def)
  obtain sn1 where n1: "next_state sample_trie () Map.empty [run_submit1] = Some ((run_content1, sn1, []), ())"
    using run_next_state [OF run_map(1)] by blast
  let ?a1 = "\<lparr>ga_response = game_response_of run_submit1 [], ga_global_index = 1\<rparr>"
  let ?s2 = "run_state1\<lparr>ss_merkle_root_engine := run_content1, ss_processed_global_index := 1\<rparr>"
  have p1: "engine_process sample_trie True 1 () run_submit1 run_state1 = (EngineRunning 1 (), ?s2, Some ?a1)"
    using n1 by (simp add: engine_process_def run_state1_def)
  have 2: "?R [run_submit1] (EngineRunning 1 (), BatcherWaiting, ?s2) [(?a1, run_content1)] []"
    using game_reach.process [OF 1 p1] by simp
  have 3: "?R ([run_submit1] @ [run_submit2]) (EngineBusy 2 () run_submit2, BatcherWaiting, run_state2)
      [(?a1, run_content1)] []"
    by (rule game_reach.recv [OF 2]) (simp add: engine_recv_def store_request_def run_state1_def run_state2_def)
  obtain sn2 where n2: "next_state sample_trie () run_content1 [run_submit2] = Some ((run_content2, sn2, [run_match]), ())"
    using run_next_state [OF run_map(2)] by blast
  let ?a2 = "\<lparr>ga_response = game_response_of run_submit2 [run_match], ga_global_index = 2\<rparr>"
  let ?s4 = "run_state2\<lparr>ss_merkle_root_engine := run_content2, ss_processed_global_index := 2\<rparr>"
  have p2: "engine_process sample_trie True 2 () run_submit2 run_state2 = (EngineRunning 2 (), ?s4, Some ?a2)"
    using n2 by (simp add: engine_process_def run_state2_def)
  have 4: "?R [run_submit1, run_submit2] (EngineRunning 2 (), BatcherWaiting, ?s4)
      [(?a1, run_content1), (?a2, run_content2)] []"
    using game_reach.process [OF 3 p2] by simp
  have "?R [run_submit1, run_submit2] (EngineRunning 2 (), BatcherRunning () 1, run_state3)
      [(?a1, run_content1), (?a2, run_content2)] []"
    by (rule game_reach.batcher_start [OF 4])
       (simp add: batcher_begin_def game_ensure_initialized_def GAME_INIT_INDEX_def run_state2_def run_state3_def e)
  moreover have "response_matches (game_response_of run_submit2 [run_match]) = [run_match]"
    by (simp add: response_matches_def game_response_of_def submit_request_def)
  ultimately show thesis using that by simp
qed

lemma game_run_turn:
  obtains b' s' x where "game_batcher_turn sample_trie sample_game_env (\<lambda>_. True) () 1 run_state3 = (b', s', Some x)"
    "gb_requests x = [run_submit1, run_submit2]" "gb_matches x = [run_match]" "gb_pre_root x = Map.empty"
proof -
  obtain sn where n: "next_state sample_trie () Map.empty [run_submit1, run_submit2] = Some ((run_content2, sn, [run_match]), ())"
    using run_next_state [OF run_map(3)] by blast
  have r: "game_read_requests run_state3 1 2 = Some [run_submit1, run_submit2]"
  proof -
    obtain a1 a2 where "game_reach sample_trie sample_game_env [run_submit1, run_submit2]
        (EngineRunning 2 (), BatcherRunning () 1, run_state3) [a1, a2] []" using game_run_reach .
    from game_reach_inv [OF this sample_trie_laws]
    have "ss_requests run_state3 = request_table [run_submit1, run_submit2]" by simp
    from read_requests_table [OF _ _ _ this, of 0 2] show ?thesis by simp
  qed
  obtain job where "game_batch_job sample_trie sample_game_env 1 [run_submit1, run_submit2] Map.empty sn = Inr job"
    by (simp add: game_batch_job_def sample_game_env_def Let_def)
  moreover have "fst (game_submit_job_with_backoff (\<lambda>_. True))"
    by (simp add: game_submit_job_with_backoff_def numeral_3_eq_3)
  moreover have "ss_next_batch_global_index run_state3 = 1" "ss_processed_global_index run_state3 = 2"
    "ss_merkle_root_batcher run_state3 = Map.empty" by (simp_all add: run_state3_def run_state2_def)
  ultimately show thesis using that n r by (simp add: game_batcher_turn_def Let_def)
qed

theorem batches_replay_engine_witness:
  "\<exists>c outs x n. game_reach sample_trie sample_game_env [run_submit1, run_submit2] c outs [x] \<and> n \<le> length outs
     \<and> gb_requests x = take n [run_submit1, run_submit2] \<and> gb_matches x = answer_matches (take n outs)
     \<and> gb_matches x = [run_match]"
proof -
  obtain a1 a2 where r: "game_reach sample_trie sample_game_env [run_submit1, run_submit2]
      (EngineRunning 2 (), BatcherRunning () 1, run_state3) [a1, a2] []" using game_run_reach .
  obtain b' s' x where t: "game_batcher_turn sample_trie sample_game_env (\<lambda>_. True) () 1 run_state3 = (b', s', Some x)"
    and x: "gb_matches x = [run_match]" using game_run_turn .
  have "game_reach sample_trie sample_game_env [run_submit1, run_submit2] (EngineRunning 2 (), b', s') [a1, a2] [x]"
    using game_reach.batcher_turn [OF r t] by simp
  with batches_replay_engine [OF sample_trie_laws this] x show ?thesis by fastforce
qed

definition sample_guest :: "'s \<Rightarrow> 's guest_libs" where
  "sample_guest sn = \<lparr>gl_decode_onchain = (\<lambda>bs. Some \<lparr>sai_input_state_root = be_word bs, sai_onchain_input = []\<rparr>),
     gl_read_requests = (\<lambda>bs. if length bs = 2 then Some [run_submit1, run_submit2] else None),
     gl_read_snapshot = (\<lambda>_. Some sn), gl_encode_matches = (\<lambda>ms. [of_nat (length ms)]),
     gl_encode_result = sar_result\<rparr>"

theorem guest_replays_batch_witness:
  "\<exists>b' s' x. game_batcher_turn sample_trie sample_game_env (\<lambda>_. True) () 1 run_state3 = (b', s', Some x)
     \<and> game_guest_main sample_trie (sample_guest (gb_snapshot x)) (be_bytes 32 (0 :: b256)) (gj_offchain_input (gb_job x))
         = Some [1]"
proof -
  obtain a1 a2 where r: "game_reach sample_trie sample_game_env [run_submit1, run_submit2]
      (EngineRunning 2 (), BatcherRunning () 1, run_state3) [a1, a2] []" using game_run_reach .
  obtain b' s' x where t: "game_batcher_turn sample_trie sample_game_env (\<lambda>_. True) () 1 run_state3 = (b', s', Some x)"
    and x: "gb_requests x = [run_submit1, run_submit2]" "gb_matches x = [run_match]" "gb_pre_root x = Map.empty"
    using game_run_turn .
  have "be_word (be_bytes 32 (0 :: b256)) = (0 :: b256)" by (rule be_word_be_bytes) simp
  moreover have "get_merkle_root_bytes sample_trie m = 0" for m
    by (simp add: get_merkle_root_bytes_def sample_trie_def)
  moreover have "tl_empty_root sample_trie = Map.empty" by (simp add: sample_trie_def)
  ultimately show ?thesis
    using t guest_replays_batch [OF sample_trie_laws r _ t, of "sample_guest (gb_snapshot x)" "be_bytes 32 (0 :: b256)"] x
    by (auto simp: sample_guest_def sample_game_env_def game_onchain_input_def)
qed

theorem engine_stops_exactly_witness:
  "\<exists>s outs. game_reach sample_trie sample_game_env [run_submit1, run_submit2, cancel_request 1 42]
       (EngineBusy 3 () (cancel_request 1 42), BatcherRunning () 1, s) outs []
     \<and> fst (engine_process sample_trie True 3 () (cancel_request 1 42) s) = EngineStopped"
proof -
  let ?c = "cancel_request 1 42"
  obtain a1 a2 where r: "game_reach sample_trie sample_game_env [run_submit1, run_submit2]
      (EngineRunning 2 (), BatcherRunning () 1, run_state3) [a1, a2] []" using game_run_reach .
  obtain s where "engine_recv 2 () ?c run_state3 = (EngineBusy 3 () ?c, s)"
    by (simp add: engine_recv_def Let_def)
  from game_reach.recv [OF r this] have c: "game_reach sample_trie sample_game_env [run_submit1, run_submit2, ?c]
      (EngineBusy 3 () ?c, BatcherRunning () 1, s) [a1, a2] []" by simp
  have "fst (engine_process sample_trie True 3 () ?c s) = EngineStopped"
    using engine_stops_exactly [OF sample_trie_laws c, of True] by (auto simp: submit_request_def)
  with c show ?thesis by blast
qed

section \<open>The handlers\<close>

lemma game_handler_outcome:
  "game_http_status (game_app_submit engine req) = 200 \<longleftrightarrow> (\<exists>a. engine (SubmitNumber req) = EngineAnswered a)"
  by (simp add: game_app_submit_def game_handle_def game_http_status_def split: game_channel_result.splits)

lemma client_reads_answer:
  "engine (SubmitNumber req) = EngineAnswered \<lparr>ga_response = game_response_of (SubmitNumber req) ms, ga_global_index = i\<rparr> \<Longrightarrow>
     \<exists>resp. client_submit_number (game_app_submit engine) req = Inr (resp, i)
       \<and> (snr_match_pair resp = None \<longleftrightarrow> ms = [])"
  by (cases ms) (simp_all add: client_submit_number_def game_app_submit_def game_handle_def game_response_of_def)

end
