(* ===== verification/GameConsumer.thy ===== *)
theory GameConsumer
  imports Settlement GameNode
begin

text \<open>
  The contract of the matching game (\<^verbatim>\<open>contracts/src/matching-game/MatchingGameConsumer.sol\<close>), a
  stateful consumer that stores who plays with whom, and the way of the matches from the server's
  answers to it.
\<close>

text \<open>\<open>userToPartner\<close>; an unmatched user has the partner 0.\<close>

definition store_match :: "game_match \<Rightarrow> (address \<Rightarrow> address) \<Rightarrow> (address \<Rightarrow> address)" where
  "store_match m user_to_partner =
     (let user_to_partner = user_to_partner(gm_user1 m := gm_user2 m)
      in user_to_partner(gm_user2 m := gm_user1 m))"

definition game_receive_result :: "(bytes \<Rightarrow> game_match list option) \<Rightarrow> (address \<Rightarrow> address) \<Rightarrow> bytes
    \<Rightarrow> string + (address \<Rightarrow> address)" where
  "game_receive_result decode user_to_partner result =
     (case decode result of None \<Rightarrow> Inl ''abi.decode''
      | Some matches \<Rightarrow> Inr (fold store_match matches user_to_partner))"

text \<open>Partners are mutual when no user is in two matches.\<close>

lemma store_matches_apply:
  "u \<notin> gm_user1 ` set ms \<union> gm_user2 ` set ms \<Longrightarrow> fold store_match ms p u = p u"
  by (induction ms arbitrary: p) (auto simp: store_match_def Let_def)

lemma store_matches_partner:
  "distinct (concat (map (\<lambda>m. [gm_user1 m, gm_user2 m]) ms)) \<Longrightarrow> m \<in> set ms \<Longrightarrow>
     fold store_match ms p (gm_user1 m) = gm_user2 m \<and> fold store_match ms p (gm_user2 m) = gm_user1 m"
proof (induction ms arbitrary: p)
  case (Cons x ms)
  have x: "gm_user1 x \<noteq> gm_user2 x" "gm_user1 x \<notin> gm_user1 ` set ms \<union> gm_user2 ` set ms"
    "gm_user2 x \<notin> gm_user1 ` set ms \<union> gm_user2 ` set ms" "distinct (concat (map (\<lambda>m. [gm_user1 m, gm_user2 m]) ms))"
    using Cons.prems(1) by auto
  show ?case
  proof (cases "m = x")
    case True
    with x show ?thesis by (simp add: store_matches_apply) (simp add: store_match_def)
  next
    case False
    with Cons.IH [OF x(4)] Cons.prems(2) show ?thesis by simp
  qed
qed simp

section \<open>The results of the batches\<close>

text \<open>
  What the contract gets of each batch: the onchain input of its job and what its guest run commits
  (\<open>guest_replays_batch\<close>).
\<close>

definition game_output :: "('d, 'r, 't, 's, 'v) trie_libs \<Rightarrow> 's guest_libs \<Rightarrow> ('r, 's) game_batch
    \<Rightarrow> stateful_app_result" where
  "game_output L G x = \<lparr>sar_output_state_root = get_merkle_root_bytes L (gb_post_root x),
     sar_result = gl_encode_matches G (gb_matches x)\<rparr>"

definition game_results_of :: "('d, 'r, 't, 's, 'v) trie_libs \<Rightarrow> 's game_env \<Rightarrow> 's guest_libs
    \<Rightarrow> ('r, 's) game_batch list \<Rightarrow> (b256 \<times> bytes \<times> bytes) list \<Rightarrow> bool" where
  "game_results_of L env G bs rs \<longleftrightarrow> list_all2 (\<lambda>x (i, inp, raw).
     inp = ge_encode_onchain env (game_onchain_input L (gb_pre_root x))
     \<and> raw = gl_encode_result G (game_output L G x)) bs rs"

text \<open>Both sides' codecs agree about what these batches need.\<close>

definition game_codecs_agree :: "('d, 'r, 't, 's, 'v) trie_libs \<Rightarrow> contract_libs \<Rightarrow> 's game_env \<Rightarrow> 's guest_libs
    \<Rightarrow> (bytes \<Rightarrow> game_match list option) \<Rightarrow> ('r, 's) game_batch list \<Rightarrow> bool" where
  "game_codecs_agree L C env G decode bs \<longleftrightarrow> (\<forall>x \<in> set bs.
     cl_decode_stateful_input C (ge_encode_onchain env (game_onchain_input L (gb_pre_root x))) =
       Some (game_onchain_input L (gb_pre_root x)) \<and>
     cl_decode_stateful_result C (gl_encode_result G (game_output L G x)) = Some (game_output L G x) \<and>
     decode (gl_encode_matches G (gb_matches x)) = Some (gb_matches x))"

lemma receive_game_batches:
  "game_codecs_agree L C env G decode bs \<Longrightarrow> map gb_pre_root bs = butlast (r # map gb_post_root bs) \<Longrightarrow> game_results_of L env G bs rs \<Longrightarrow>
    cn_latest_state_root c = get_merkle_root_bytes L r \<Longrightarrow>
    \<exists>c'. receive_all C (game_receive_result decode) rs c = Inr c'
      \<and> cn_latest_state_root c' = get_merkle_root_bytes L (last (r # map gb_post_root bs))
      \<and> cn_app c' = fold store_match (concat (map gb_matches bs)) (cn_app c)"
proof (induction bs arbitrary: r rs c)
  case Nil
  then show ?case by (simp add: game_results_of_def)
next
  case (Cons x bs)
  then obtain i rs' where rs: "rs = (i, ge_encode_onchain env (game_onchain_input L (gb_pre_root x)),
      gl_encode_result G (game_output L G x)) # rs'" "game_results_of L env G bs rs'"
    by (auto simp: game_results_of_def list_all2_Cons1)
  have pre: "gb_pre_root x = r" "map gb_pre_root bs = butlast (gb_post_root x # map gb_post_root bs)"
    using Cons.prems(2) by simp_all
  let ?c = "c\<lparr>cn_onchain_input := (cn_onchain_input c)(i := ge_encode_onchain env (game_onchain_input L r)),
    cn_latest_state_root := get_merkle_root_bytes L (gb_post_root x),
    cn_app := fold store_match (gb_matches x) (cn_app c)\<rparr>"
  have "receive_all C (game_receive_result decode) rs c = receive_all C (game_receive_result decode) rs' ?c"
    using Cons.prems(1,4) by (simp add: rs(1) pre(1) stateful_receive_result_def game_codecs_agree_def
        game_receive_result_def) (simp add: game_onchain_input_def game_output_def)
  moreover have "game_codecs_agree L C env G decode bs" using Cons.prems(1) by (simp add: game_codecs_agree_def)
  from Cons.IH [OF this pre(2) rs(2), of ?c] calculation show ?case by simp
qed



end
