(* ===== verification/Deployment.thy ===== *)
theory Deployment
  imports ClobClient Solvency GameConsumer
begin

text \<open>
  The tools around the nodes: development accounts (\<^verbatim>\<open>crates/sdk/test-utils/src/wallet.rs\<close>), the
  deployment of the job manager and of the two applications' consumers and the signing of a job request
  (\<^verbatim>\<open>crates/sdk/test-utils/src/lib.rs\<close>, \<^verbatim>\<open>test_utils\<close> of both examples), and how the load test waits for a
  job (\<^verbatim>\<open>test/load-test/src/lib.rs\<close>). Key derivation, signing and the answers of the chain are
  parameters. A freshly deployed consumer is where the theorems about settlement start.
\<close>

section \<open>Development accounts\<close>

fun decimal :: "nat \<Rightarrow> string" where
  "decimal n = (let d = [char_of (48 + n mod 10)] in if n < 10 then d else decimal (n div 10) @ d)"

declare decimal.simps [simp del]

text \<open>
  \<open>sg_build\<close>: the key that the test phrase yields at a derivation path; \<open>sg_from_slice\<close> fails on bytes that are no key.
\<close>

record 'k signer_lib =
  sg_build :: "string option \<Rightarrow> 'k"
  sg_with_chain_id :: "u64 option \<Rightarrow> 'k \<Rightarrow> 'k"
  sg_to_bytes :: "'k \<Rightarrow> b256"
  sg_from_slice :: "b256 \<Rightarrow> 'k option"
  sg_address :: "'k \<Rightarrow> address"
  sg_sign :: "'k \<Rightarrow> bytes \<Rightarrow> bytes option"

record 'k wallet =
  wl_inner :: 'k
  wl_inner_nonce :: u64
  wl_chain_id :: u64
  wl_amount :: nat
  wl_derivation_path :: "string option"

definition wallet_new :: "'k signer_lib \<Rightarrow> nat \<Rightarrow> 'k wallet" where
  "wallet_new L amount = \<lparr>wl_inner = sg_build L None, wl_inner_nonce = 0, wl_chain_id = 1, wl_amount = amount,
     wl_derivation_path = None\<rparr>"

definition with_chain_id :: "u64 \<Rightarrow> 'k wallet \<Rightarrow> 'k wallet" where
  "with_chain_id chain_id w = w\<lparr>wl_chain_id := chain_id\<rparr>"

definition get_derivation_path :: "'k wallet \<Rightarrow> string" where
  "get_derivation_path w = (case wl_derivation_path w of None \<Rightarrow> ''m/44'/60'/0'/0/'' | Some p \<Rightarrow> p)"

definition wallet_gen :: "'k signer_lib \<Rightarrow> 'k wallet \<Rightarrow> 'k list" where
  "wallet_gen L w = (let derivation_path = get_derivation_path w in
     map (\<lambda>idx. sg_with_chain_id L (Some (wl_chain_id w)) (sg_build L (Some (derivation_path @ decimal idx)))) [0..<wl_amount w])"

definition wallet_default :: "'k signer_lib \<Rightarrow> 'k wallet" where
  "wallet_default L = wallet_new L 10"

text \<open>\<open>None\<close> is the panic of \<open>unwrap\<close>, or of an index out of range.\<close>

definition get_signers :: "'k signer_lib \<Rightarrow> nat \<Rightarrow> 'k list option" where
  "get_signers L n = those (map (\<lambda>w. sg_from_slice L (sg_to_bytes L w)) (wallet_gen L (wallet_new L n)))"

definition get_account :: "'k signer_lib \<Rightarrow> nat \<Rightarrow> 'k option" where
  "get_account L num = (case get_signers L (num + 1) of None \<Rightarrow> None
     | Some all_wallets \<Rightarrow> if num < length all_wallets then Some (all_wallets ! num) else None)"

text \<open>
  When every key is read back from its bytes, as \<open>g\<close> says, then the account of an index does not depend on
  how many accounts are generated.
\<close>

definition keys_readable :: "'k signer_lib \<Rightarrow> ('k \<Rightarrow> 'k) \<Rightarrow> bool" where
  "keys_readable L g \<longleftrightarrow> (\<forall>k. sg_from_slice L (sg_to_bytes L k) = Some (g k))"

definition dev_key :: "'k signer_lib \<Rightarrow> ('k \<Rightarrow> 'k) \<Rightarrow> nat \<Rightarrow> 'k" where
  "dev_key L g i = g (sg_with_chain_id L (Some 1) (sg_build L (Some (''m/44'/60'/0'/0/'' @ decimal i))))"

lemma those_Some: "those (map (\<lambda>x. Some (f x)) xs) = Some (map f xs)"
  by (induction xs) simp_all

lemma get_signers_eq: "keys_readable L g \<Longrightarrow> get_signers L n = Some (map (dev_key L g) [0..<n])"
  by (simp add: get_signers_def keys_readable_def wallet_gen_def wallet_new_def get_derivation_path_def Let_def o_def
      those_Some dev_key_def)

lemma get_account_eq: "keys_readable L g \<Longrightarrow> get_account L i = Some (dev_key L g i)"
  by (simp add: get_account_def get_signers_eq nth_append)

section \<open>Deployments\<close>

text \<open>The contracts after their initialisers; \<open>initialNonce\<close>, root, signer and application state.\<close>

definition initialize_job_manager :: "address \<Rightarrow> address \<Rightarrow> address \<Rightarrow> (address \<Rightarrow> 'a consumer) \<Rightarrow> 'a job_manager" where
  "initialize_job_manager initial_owner relayer coprocessor_operator consumers =
     \<lparr>jm_owner = initial_owner, jm_relayer = relayer, jm_operator = coprocessor_operator, jm_jobs = (\<lambda>_. no_job),
      jm_blobhashes = (\<lambda>_. []), jm_consumers = consumers\<rparr>"

definition initialize_consumer :: "u64 \<Rightarrow> b256 \<Rightarrow> address \<Rightarrow> 'a \<Rightarrow> 'a consumer" where
  "initialize_consumer initial_max_nonce initial_state_root offchain_signer state =
     \<lparr>cn_max_nonce = initial_max_nonce, cn_onchain_input = (\<lambda>_. []), cn_offchain_input_hash = (\<lambda>_. 0),
      cn_latest_state_root = initial_state_root, cn_offchain_signer = offchain_signer, cn_app = state\<rparr>"

definition empty_clob_consumer :: clob_consumer where
  "empty_clob_consumer = \<lparr>cc_deposited_base = (\<lambda>_. 0), cc_deposited_quote = (\<lambda>_. 0), cc_free_base = (\<lambda>_. 0),
     cc_free_quote = (\<lambda>_. 0), cc_locked_base = (\<lambda>_. 0), cc_locked_quote = (\<lambda>_. 0)\<rparr>"

record 'k job_manager_deploy_info =
  jd_rpc_url :: string
  jd_job_manager :: address
  jd_relayer :: 'k
  jd_coprocessor_operator :: 'k

text \<open>\<open>proxy\<close>: the address at which the chain deploys the proxy.\<close>

definition job_manager_deploy :: "'k signer_lib \<Rightarrow> address \<Rightarrow> (address \<Rightarrow> 'a consumer) \<Rightarrow> string
    \<Rightarrow> ('k job_manager_deploy_info \<times> 'a job_manager) option" where
  "job_manager_deploy L proxy consumers rpc_url =
     (case get_signers L 5 of
        None \<Rightarrow> None
      | Some signers \<Rightarrow>
          let initial_owner = signers ! 0; relayer = signers ! 1; coprocessor_operator = signers ! 2
          in Some (\<lparr>jd_rpc_url = rpc_url, jd_job_manager = proxy, jd_relayer = relayer,
                jd_coprocessor_operator = coprocessor_operator\<rparr>,
              initialize_job_manager (sg_address L initial_owner) (sg_address L relayer)
                (sg_address L coprocessor_operator) consumers))"

record 'k ivm_exec_clob =
  ic_clob_signer :: 'k
  ic_clob_consumer :: address
  ic_quote_erc20 :: address
  ic_base_erc20 :: address

definition clob_consumer_deploy :: "'k signer_lib \<Rightarrow> (clob_state \<Rightarrow> b256) \<Rightarrow> address \<times> address \<times> address
    \<Rightarrow> ('k ivm_exec_clob \<times> clob_consumer consumer) option" where
  "clob_consumer_deploy L borsh_keccak256 addresses =
     (case addresses of (base_erc20, quote_erc20, proxy) \<Rightarrow>
        case get_signers L 6 of
          None \<Rightarrow> None
        | Some signers \<Rightarrow>
            let clob_signer = signers ! 5; init_state_hash = borsh_keccak256 default_clob_state
            in Some (\<lparr>ic_clob_signer = clob_signer, ic_clob_consumer = proxy, ic_quote_erc20 = quote_erc20,
                  ic_base_erc20 = base_erc20\<rparr>,
                initialize_consumer 0 init_state_hash (sg_address L clob_signer) empty_clob_consumer))"

definition matching_game_consumer_deploy :: "'k signer_lib \<Rightarrow> ('k \<times> (address \<Rightarrow> address) consumer) option" where
  "matching_game_consumer_deploy L =
     (case get_signers L 6 of
        None \<Rightarrow> None
      | Some signers \<Rightarrow>
          let matching_game_signer = signers ! 5; init_state_hash = 0
          in Some (matching_game_signer,
               initialize_consumer 0 init_state_hash (sg_address L matching_game_signer) (\<lambda>_. 0)))"

text \<open>
  \<open>mint_and_approve\<close>: for each account, the largest \<open>u64\<close> of both tokens, minted and approved;
  \<open>send\<close> is the receipt of a transaction on the token contracts, \<open>None\<close> a panic.
\<close>

datatype token_call = Mint address address u256 | Approve address address address u256

fun send_all :: "('t \<Rightarrow> token_call \<Rightarrow> 't option) \<Rightarrow> token_call list \<Rightarrow> 't \<Rightarrow> 't option" where
  "send_all send [] t = Some t"
| "send_all send (c # cs) t = (case send t c of None \<Rightarrow> None | Some t \<Rightarrow> send_all send cs t)"

definition mint_and_approve :: "'k signer_lib \<Rightarrow> ('t \<Rightarrow> token_call \<Rightarrow> 't option) \<Rightarrow> 'k ivm_exec_clob \<Rightarrow> nat \<Rightarrow> 't \<Rightarrow> 't option" where
  "mint_and_approve L send clob n t =
     (case get_signers L n of
        None \<Rightarrow> None
      | Some signers \<Rightarrow>
          let amount = ucast (- 1 :: u64)
          in send_all send (concat (map (\<lambda>signer.
               [Mint (ic_quote_erc20 clob) (sg_address L signer) amount,
                Approve (ic_quote_erc20 clob) (sg_address L signer) (ic_clob_consumer clob) amount,
                Mint (ic_base_erc20 clob) (sg_address L signer) amount,
                Approve (ic_base_erc20 clob) (sg_address L signer) (ic_clob_consumer clob) amount]) signers)) t)"

text \<open>A fresh consumer is where the theorems on settlement start.\<close>

lemma deployed_clob_start:
  assumes "clob_consumer_deploy L (\<lambda>s. be_keccak256 env (be_state_borsh env s)) addresses = Some (d, c)"
  shows "cn_latest_state_root c = be_keccak256 env (be_state_borsh env default_clob_state)"
    and "held_by (cn_app c) fd a = 0"
    and "cn_offchain_signer c = sg_address L (ic_clob_signer d)"
  using assms by (auto simp: clob_consumer_deploy_def initialize_consumer_def empty_clob_consumer_def held_by_def Let_def
      split: prod.splits option.splits field.split)

lemma deployed_game_start:
  assumes "matching_game_consumer_deploy L = Some (k, c)"
  shows "cn_latest_state_root c = 0" and "cn_app c = (\<lambda>_. 0)"
  using assms by (auto simp: matching_game_consumer_deploy_def initialize_consumer_def Let_def split: option.splits)

section \<open>Signing a job request\<close>

text \<open>\<open>None\<close> is the panic when signing fails.\<close>

definition create_and_sign_offchain_request :: "'k signer_lib \<Rightarrow> (bytes \<Rightarrow> b256) \<Rightarrow> (offchain_job_request \<Rightarrow> bytes) \<Rightarrow> u64
    \<Rightarrow> u64 \<Rightarrow> address \<Rightarrow> bytes \<Rightarrow> bytes \<Rightarrow> 'k \<Rightarrow> bytes \<Rightarrow> (bytes \<times> bytes) option" where
  "create_and_sign_offchain_request L keccak256 abi_encode nonce max_cycles consumer_addr onchain_input program_id
     offchain_signer offchain_input =
     (let job_params = \<lparr>jp_nonce = nonce, jp_max_cycles = max_cycles, jp_consumer_address = consumer_addr,
            jp_onchain_input = onchain_input, jp_program_id = program_id,
            jp_offchain_input_hash = keccak256 offchain_input\<rparr>;
          encoded_job_request = abi_encode_offchain_job_request abi_encode job_params
      in case sg_sign L offchain_signer encoded_job_request of
           None \<Rightarrow> None
         | Some signature \<Rightarrow> Some (encoded_job_request, signature))"

text \<open>
  What the libraries must agree on: the ABI encoding of a request is decoded again, a signature is not
  empty, and the contract recovers the signer's address from it.
\<close>

definition signing_agrees :: "'k signer_lib \<Rightarrow> 'p exec_libs \<Rightarrow> (bytes \<Rightarrow> offchain_job_request option) \<Rightarrow> contract_libs \<Rightarrow> bool" where
  "signing_agrees L P abi_decode C \<longleftrightarrow> (\<forall>r. abi_decode (lib_encode_request P r) = Some r) \<and>
     (\<forall>k m s. sg_sign L k m = Some s \<longrightarrow> s \<noteq> [] \<and> cl_recover C m s = sg_address L k)"

text \<open>
  C25. A request that the tools sign is accepted on both sides: for the consumer that they deploy, with
  cycles, a program and the offchain input that was signed, the server takes the request as a pending job
  with these parts under the id of its nonce and consumer, the relayer rebuilds from the job the payload that was signed, and
  the deployed consumer accepts the signature on it.
\<close>

theorem signed_request_accepted:
  assumes libs: "signing_agrees L P abi_decode C"
    and deployed: "clob_consumer_deploy L root addresses = Some (d, c)"
    and signed: "create_and_sign_offchain_request L (lib_keccak256 P) (lib_encode_request P) nonce max_cycles
        (ic_clob_consumer d) onchain_input program_id (ic_clob_signer d) offchain_input = Some (request, signature)"
    and parts: "max_cycles \<noteq> 0" "program_id \<noteq> []"
  shows "\<exists>j. request_job P abi_decode \<lparr>sr_request = request, sr_signature = signature,
        sr_offchain_input = offchain_input, sr_relay_strategy = strategy\<rparr> = Inr j
    \<and> is_pending j \<and> jb_id j = get_job_id (lib_keccak256 P) nonce (ic_clob_consumer d)
    \<and> jb_program_id j = program_id \<and> jb_max_cycles j = max_cycles
    \<and> jb_onchain_input j = onchain_input \<and> jb_offchain_input j = offchain_input
    \<and> map_option (abi_encode_offchain_job_request (lib_encode_request P)) (job_params_try_from (lib_keccak256 P) j) = Some request
    \<and> is_valid_signature C c request signature"
proof -
  let ?r = "\<lparr>ojr_nonce = nonce, ojr_max_cycles = max_cycles, ojr_consumer = ic_clob_consumer d,
    ojr_program_id = program_id, ojr_onchain_input = onchain_input, ojr_offchain_input_hash = lib_keccak256 P offchain_input\<rparr>"
  have r: "request = lib_encode_request P ?r" "sg_sign L (ic_clob_signer d) request = Some signature"
    using signed by (auto simp: create_and_sign_offchain_request_def abi_encode_offchain_job_request_def Let_def split: option.splits)
  then have d: "abi_decode request = Some ?r" "signature \<noteq> []" "cl_recover C request signature = sg_address L (ic_clob_signer d)"
    using libs by (auto simp: signing_agrees_def)
  have "cn_offchain_signer c = sg_address L (ic_clob_signer d)"
    using deployed by (auto simp: clob_consumer_deploy_def initialize_consumer_def Let_def split: prod.splits option.splits)
  then have v: "is_valid_signature C c request signature" by (simp add: is_valid_signature_def d(3))
  show ?thesis
    using v parts
    by (auto simp: request_job_def d r(1) [symmetric] job_predicates job_params_try_from_def
        abi_encode_offchain_job_request_def)
qed

text \<open>Sample libraries: requests are numbered, and one key signs everything.\<close>

instance offchain_job_request_ext :: (countable) countable
  by (rule countable_classI [of "\<lambda>r. to_nat (ojr_nonce r, ojr_max_cycles r, ojr_consumer r, ojr_program_id r, ojr_onchain_input r,
    ojr_offchain_input_hash r, offchain_job_request.more r)"]) auto

definition one_key :: "nat signer_lib" where
  "one_key = \<lparr>sg_build = (\<lambda>_. 7), sg_with_chain_id = (\<lambda>_ k. k), sg_to_bytes = of_nat, sg_from_slice = (\<lambda>b. Some (unat b)),
     sg_address = of_nat, sg_sign = (\<lambda>k m. if k = 7 then Some [7] else None)\<rparr>"

definition numbered_libs :: "bytes exec_libs" where
  "numbered_libs = sample_libs\<lparr>lib_encode_request := (\<lambda>r. replicate (to_nat r) 0)\<rparr>"

definition one_key_contracts :: contract_libs where
  "one_key_contracts = sample_contracts\<lparr>cl_recover := (\<lambda>m s. 7)\<rparr>"

lemma one_key_agrees: "signing_agrees one_key numbered_libs (\<lambda>bs. Some (from_nat (length bs))) one_key_contracts"
  by (simp add: signing_agrees_def numbered_libs_def one_key_def one_key_contracts_def)

lemma one_key_signers: "get_signers one_key n = Some (map (\<lambda>_. 7) [0..<n])"
proof -
  have "keys_readable one_key (\<lambda>k. unat (of_nat k :: b256))" by (simp add: keys_readable_def one_key_def)
  then show ?thesis by (simp add: get_signers_eq dev_key_def one_key_def)
qed

theorem signed_request_accepted_witness:
  "\<exists>d c request j. clob_consumer_deploy one_key (\<lambda>_. 0) (1, 2, 3) = Some (d, c)
    \<and> create_and_sign_offchain_request one_key (lib_keccak256 numbered_libs) (lib_encode_request numbered_libs) 1 1000 3 [4] [5]
        (ic_clob_signer d) [6] = Some (request, [7])
    \<and> request_job numbered_libs (\<lambda>bs. Some (from_nat (length bs))) \<lparr>sr_request = request, sr_signature = [7],
        sr_offchain_input = [6], sr_relay_strategy = 1\<rparr> = Inr j
    \<and> is_pending j \<and> is_valid_signature one_key_contracts c request [7]"
proof -
  obtain d c where d: "clob_consumer_deploy one_key (\<lambda>_. 0) (1, 2, 3) = Some (d, c)" "ic_clob_signer d = 7" "ic_clob_consumer d = 3"
    by (simp add: clob_consumer_deploy_def one_key_signers)
  obtain request where r: "create_and_sign_offchain_request one_key (lib_keccak256 numbered_libs) (lib_encode_request numbered_libs)
      1 1000 (ic_clob_consumer d) [4] [5] (ic_clob_signer d) [6] = Some (request, [7])"
    by (simp add: create_and_sign_offchain_request_def Let_def one_key_def d)
  from signed_request_accepted [OF one_key_agrees d(1) r, where strategy = 1] r d show ?thesis by auto
qed

section \<open>Waiting for a job\<close>

text \<open>
  The decoded answer of the gateway, with the optional parts of the message; \<open>None\<close> is a failed request or an
  answer that is not a result.
\<close>

definition get_result_status :: "job_status option option option \<Rightarrow> int option" where
  "get_result_status response =
     (case response of
        None \<Rightarrow> None
      | Some job_result \<Rightarrow>
          (case job_result of
             Some st \<Rightarrow> (case st of Some st \<Rightarrow> Some (sint (js_status st)) | None \<Rightarrow> Some 0)
           | None \<Rightarrow> Some 0))"

definition RETRY_TIMEOUT_MS :: nat where "RETRY_TIMEOUT_MS = 10"
definition MAX_RETRY_MS :: nat where "MAX_RETRY_MS = 60 * 1000"
definition RETRIES :: nat where "RETRIES = MAX_RETRY_MS div RETRY_TIMEOUT_MS"

datatype wait_result = Completed | RequestFailed | TimedOut

text \<open>The polls from the \<open>i\<close>-th on, and for how long the loop sleeps.\<close>

fun wait_polls :: "nat \<Rightarrow> (nat \<Rightarrow> job_status option option option) \<Rightarrow> nat \<Rightarrow> wait_result \<times> nat" where
  "wait_polls 0 poll i = (TimedOut, 0)"
| "wait_polls (Suc n) poll i =
     (case get_result_status (poll i) of
        None \<Rightarrow> (RequestFailed, 0)
      | Some st \<Rightarrow>
          if st = sint (job_status_code JDone) then (Completed, 0)
          else (case wait_polls n poll (Suc i) of (r, ms) \<Rightarrow> (r, ms + RETRY_TIMEOUT_MS)))"

definition wait_until_job_completed :: "(nat \<Rightarrow> job_status option option option) \<Rightarrow> wait_result \<times> nat" where
  "wait_until_job_completed poll = wait_polls RETRIES poll 0"

text \<open>
  A job that is relayed before the first poll that could see it done is never seen as completed, although its
  result is on chain: the load test waits for a minute and reports a timeout.
\<close>

lemma wait_polls_timeout:
  "(\<And>k. k < n \<Longrightarrow> \<exists>st. get_result_status (poll (i + k)) = Some st \<and> st \<noteq> sint (job_status_code JDone)) \<Longrightarrow>
     wait_polls n poll i = (TimedOut, n * RETRY_TIMEOUT_MS)"
proof (induction n arbitrary: i)
  case (Suc n)
  have "\<exists>st. get_result_status (poll (Suc i + k)) = Some st \<and> st \<noteq> sint (job_status_code JDone)" if "k < n" for k
    using Suc.prems [of "Suc k"] that by simp
  then have "wait_polls n poll (Suc i) = (TimedOut, n * RETRY_TIMEOUT_MS)" by (rule Suc.IH)
  moreover obtain st where "get_result_status (poll i) = Some st" "st \<noteq> sint (job_status_code JDone)"
    using Suc.prems [of 0] by auto
  ultimately show ?case by simp
qed simp

lemma relayed_job_times_out:
  assumes "\<And>i. \<exists>st. poll i = Some (Some (Some st)) \<and> (js_status st = job_status_code JPending \<or> js_status st = job_status_code JRelayed)"
  shows "wait_until_job_completed poll = (TimedOut, 60000)"
proof -
  have "\<exists>st. get_result_status (poll i) = Some st \<and> st \<noteq> sint (job_status_code JDone)" for i
    using assms [of i] by (auto simp: get_result_status_def)
  then show ?thesis
    unfolding wait_until_job_completed_def
    by (subst wait_polls_timeout) (simp_all add: RETRIES_def MAX_RETRY_MS_def RETRY_TIMEOUT_MS_def)
qed

end
