(* ===== verification/Tasks.thy ===== *)
theory Tasks
  imports Prelude
begin

text \<open>
  \<open>tokio::try_join!\<close> over the tasks of a node, as the coprocessor node and both application nodes use it: the first
  task that fails ends the node with its error, and the node ends without one only when all tasks have ended.
\<close>

text \<open>
  \<open>result\<close> is what awaiting a task yields; \<open>ends\<close> lists the tasks that have ended, in the order in which they
  are polled. \<open>None\<close> means that it still waits.
\<close>

fun join_tasks :: "('r \<Rightarrow> 'e + 'u) \<Rightarrow> 't list \<Rightarrow> ('t \<times> 'r) list \<Rightarrow> ('e + unit) option" where
  "join_tasks result running [] = (if running = [] then Some (Inr ()) else None)"
| "join_tasks result running ((t, r) # ends) =
     (if running = [] then Some (Inr ())
      else case result r of
        Inl e \<Rightarrow> Some (Inl e)
      | Inr _ \<Rightarrow> join_tasks result (removeAll t running) ends)"

lemma join_tasks_exact:
  assumes "distinct running" and "distinct (map fst ends)" and "fst ` set ends \<subseteq> set running" and "running \<noteq> []"
  shows "join_tasks result running ends =
    (case List.find (\<lambda>(t, r). isl (result r)) ends of
       Some (t, r) \<Rightarrow> Some (Inl (projl (result r)))
     | None \<Rightarrow> if length ends = length running then Some (Inr ()) else None)"
  using assms
proof (induction result running ends rule: join_tasks.induct)
  case (2 result running t r ends)
  show ?case
  proof (cases "result r")
    case (Inl e)
    with "2.prems" show ?thesis by simp
  next
    case (Inr u)
    have t: "t \<in> set running" using "2.prems" by simp
    have len: "length (removeAll t running) = length running - 1"
      using "2.prems"(1) t by (simp add: distinct_remove1_removeAll [symmetric] length_remove1)
    have "join_tasks result (removeAll t running) ends = (case List.find (\<lambda>(t, r). isl (result r)) ends of
       Some (t, r) \<Rightarrow> Some (Inl (projl (result r)))
     | None \<Rightarrow> if length ends = length (removeAll t running) then Some (Inr ()) else None)"
    proof (cases "removeAll t running = []")
      case True
      have "fst ` set ends \<subseteq> set (removeAll t running)" using "2.prems"(2,3) by auto
      then have "ends = []" unfolding True by simp
      with True show ?thesis by simp
    next
      case False
      have "distinct (removeAll t running)" "distinct (map fst ends)" "fst ` set ends \<subseteq> set (removeAll t running)"
        using "2.prems"(1-3) by (auto intro: distinct_removeAll)
      from "2.IH" [OF "2.prems"(4) Inr this False] show ?thesis .
    qed
    moreover have "0 < length running" using "2.prems"(4) by simp
    ultimately show ?thesis using "2.prems"(4) len by (simp add: Inr Suc_diff_Suc split: option.splits) linarith
  qed
qed simp

end
