(* ===== verification/NodeMain.thy ===== *)
theory NodeMain
  imports CoprocNode Tasks
begin

text \<open>
  Starting and ending the coprocessor node, and its HTTP side: the command line
  (\<^verbatim>\<open>crates/coproc/src/cli.rs\<close>), the tasks that \<open>run\<close> starts and joins
  (\<^verbatim>\<open>crates/coproc/src/node.rs\<close>), the handlers of the gateway (\<^verbatim>\<open>crates/coproc/src/gateway.rs\<close>),
  and the limit on offchain input (\<^verbatim>\<open>crates/eip4844/src/lib.rs\<close>).
\<close>

section \<open>Blob capacity\<close>

text \<open>The constants of the library: usable bytes and field elements of a blob.\<close>

definition USABLE_BYTES_PER_BLOB :: nat where "USABLE_BYTES_PER_BLOB = 254 * 4096 div 8"
definition FIELD_ELEMENTS_PER_BLOB :: nat where "FIELD_ELEMENTS_PER_BLOB = 4096"

definition SIMPLE_CODER_MAX_DATA_PER_BLOB :: nat where
  "SIMPLE_CODER_MAX_DATA_PER_BLOB = USABLE_BYTES_PER_BLOB - 32 - FIELD_ELEMENTS_PER_BLOB"

definition MAX_BLOBS_PER_BLOCK :: nat where "MAX_BLOBS_PER_BLOCK = 6"

definition MAX_DA_PER_JOB :: nat where
  "MAX_DA_PER_JOB = SIMPLE_CODER_MAX_DATA_PER_BLOB * MAX_BLOBS_PER_BLOCK"

section \<open>The command line\<close>

text \<open>\<open>BlockNumberOrTag\<close>: of a tag only a number counts.\<close>

datatype block_tag = Latest | Finalized | Safe | Earliest | Pending | Number u64

fun as_number :: "block_tag \<Rightarrow> u64 option" where
  "as_number (Number n) = Some n"
| "as_number _ = None"

record opts =
  op_grpc_address :: string
  op_http_address :: string
  op_prom_address :: string
  op_job_manager_address :: address
  op_http_eth_rpc :: string
  op_ws_eth_rpc :: string
  op_ws_backoff_limit_ms :: u64
  op_ws_backoff_multiplier_ms :: u64
  op_chain_id :: "u64 option"
  op_db_dir :: string
  op_worker_count :: u64
  op_dlq_max_retries :: u64
  op_initial_relay_max_retries :: u32
  op_exec_queue_bound :: u64
  op_job_sync_start :: block_tag
  op_confirmations :: u64
  op_max_da_per_job :: nat
  op_disable_events :: bool

text \<open>The options when only the address of the job manager is given.\<close>

definition default_opts :: "string \<Rightarrow> u64 \<Rightarrow> address \<Rightarrow> opts" where
  "default_opts db_dir physical_cores job_manager_address =
     \<lparr>op_grpc_address = ''127.0.0.1:50051'', op_http_address = ''127.0.0.1:8080'',
      op_prom_address = ''127.0.0.1:3001'', op_job_manager_address = job_manager_address,
      op_http_eth_rpc = ''http://127.0.0.1:8545'', op_ws_eth_rpc = ''ws://127.0.0.1:8545'',
      op_ws_backoff_limit_ms = 5 * 60 * 1000, op_ws_backoff_multiplier_ms = 10,
      op_chain_id = Some 31337, op_db_dir = db_dir, op_worker_count = default_worker_count physical_cores,
      op_dlq_max_retries = 3, op_initial_relay_max_retries = 1000, op_exec_queue_bound = 256,
      op_job_sync_start = Earliest, op_confirmations = 1, op_max_da_per_job = MAX_DA_PER_JOB,
      op_disable_events = False\<rparr>"

datatype cli_error =
    CliDatabase
  | InvalidGrpcAddress
  | InvalidPromAddress
  | InvalidHttpAddress
  | OperatorPrivKeyNotSet
  | RelayerPrivKeyNotSet
  | CliSigner signer_error

definition ENV_RELAYER_PRIV_KEY :: string where "ENV_RELAYER_PRIV_KEY = ''RELAYER_PRIVATE_KEY''"
definition ENV_ZKVM_OPERATOR_PRIVATE_KEY :: string where
  "ENV_ZKVM_OPERATOR_PRIVATE_KEY = ''ZKVM_OPERATOR_PRIVATE_KEY''"

text \<open>
  What the command line uses of its surroundings: opening the database, the parsers for addresses (the
  gRPC address is an IPv4 one), the environment, and decoding a key.
\<close>

record ('sock, 'key) cli_env =
  ce_init_db :: "string \<Rightarrow> bool"
  ce_parse_addr :: "string \<Rightarrow> 'sock option"
  ce_parse_addr_v4 :: "string \<Rightarrow> 'sock option"
  ce_var :: "string \<Rightarrow> string option"
  ce_hex_decode :: "string \<Rightarrow> bytes option"
  ce_key_from_slice :: "bytes \<Rightarrow> 'key option"

definition env_signer :: "('sock, 'key) cli_env \<Rightarrow> string \<Rightarrow> cli_error \<Rightarrow> cli_error + 'key" where
  "env_signer E variable not_set =
     (case ce_var E variable of
        None \<Rightarrow> Inl not_set
      | Some secret \<Rightarrow>
          (case signer_from_hex (ce_hex_decode E) (ce_key_from_slice E) secret of
             Inl e \<Rightarrow> Inl (CliSigner e) | Inr key \<Rightarrow> Inr key))"

definition operator_signer :: "('sock, 'key) cli_env \<Rightarrow> cli_error + 'key" where
  "operator_signer E = env_signer E ENV_ZKVM_OPERATOR_PRIVATE_KEY OperatorPrivKeyNotSet"

definition relayer_signer :: "('sock, 'key) cli_env \<Rightarrow> cli_error + 'key" where
  "relayer_signer E = env_signer E ENV_RELAYER_PRIV_KEY RelayerPrivKeyNotSet"

record relay_config =
  rc_confirmations :: u64
  rc_dlq_max_retries :: u32
  rc_initial_relay_max_retries :: u32

text \<open>\<open>NodeConfig\<close>; the database handle is left out.\<close>

record ('sock, 'key) node_args =
  run_prom_addr :: 'sock
  run_grpc_addr :: 'sock
  run_http_listen_addr :: 'sock
  run_zkvm_operator :: 'key
  run_relayer :: 'key
  run_exec_queue_bound :: u64
  run_http_eth_rpc :: string
  run_job_manager_address :: address
  run_worker_count :: u64
  run_relay_config :: relay_config
  run_ws_config :: ws_config
  run_job_sync_start :: block_tag
  run_max_da_per_job :: nat
  run_unsafe_skip_program_id_check :: bool
  run_disable_events :: bool

text \<open>From the options to the configuration, in the order of the code.\<close>

definition cli_config :: "('sock, 'key) cli_env \<Rightarrow> opts \<Rightarrow> cli_error + ('sock, 'key) node_args" where
  "cli_config E opts =
     (if \<not> ce_init_db E (op_db_dir opts) then Inl CliDatabase
      else case ce_parse_addr E (op_prom_address opts) of None \<Rightarrow> Inl InvalidPromAddress
      | Some prom_addr \<Rightarrow> (case ce_parse_addr_v4 E (op_grpc_address opts) of None \<Rightarrow> Inl InvalidGrpcAddress
      | Some grpc_addr \<Rightarrow> (case ce_parse_addr E (op_http_address opts) of None \<Rightarrow> Inl InvalidHttpAddress
      | Some http_listen_addr \<Rightarrow> (case operator_signer E of Inl e \<Rightarrow> Inl e
      | Inr zkvm_operator \<Rightarrow> (case relayer_signer E of Inl e \<Rightarrow> Inl e
      | Inr relayer \<Rightarrow>
          Inr \<lparr>run_prom_addr = prom_addr, run_grpc_addr = grpc_addr, run_http_listen_addr = http_listen_addr,
            run_zkvm_operator = zkvm_operator, run_relayer = relayer,
            run_exec_queue_bound = op_exec_queue_bound opts, run_http_eth_rpc = op_http_eth_rpc opts,
            run_job_manager_address = op_job_manager_address opts, run_worker_count = op_worker_count opts,
            run_relay_config = \<lparr>rc_confirmations = op_confirmations opts,
              rc_dlq_max_retries = dlq_max_retries_of_opts (op_dlq_max_retries opts),
              rc_initial_relay_max_retries = op_initial_relay_max_retries opts\<rparr>,
            run_ws_config = \<lparr>ws_eth_rpc = op_ws_eth_rpc opts, ws_backoff_limit_ms = op_ws_backoff_limit_ms opts,
              ws_backoff_multiplier_ms = op_ws_backoff_multiplier_ms opts\<rparr>,
            run_job_sync_start = op_job_sync_start opts, run_max_da_per_job = op_max_da_per_job opts,
            run_unsafe_skip_program_id_check = False, run_disable_events = op_disable_events opts\<rparr>)))))"

text \<open>The part of the configuration that the steps of the node depend on.\<close>

definition step_config :: "('sock, 'key) node_args \<Rightarrow> node_config" where
  "step_config c =
     \<lparr>nc_intake = \<lparr>ic_max_da_per_job = run_max_da_per_job c,
        ic_unsafe_skip_program_id_check = run_unsafe_skip_program_id_check c\<rparr>,
      nc_initial_relay_max_retries = rc_initial_relay_max_retries (run_relay_config c),
      nc_dlq_max_retries = rc_dlq_max_retries (run_relay_config c)\<rparr>"

section \<open>Running the node\<close>

text \<open>
  The channel to the writer holds four times the bound of the execution queue, in 64-bit arithmetic;
  \<open>None\<close> is the panic of \<open>mpsc::channel\<close> on a capacity of 0 or above its largest.
\<close>

definition writer_channel :: "u64 \<Rightarrow> nat option" where
  "writer_channel exec_queue_bound =
     (let buffer = exec_queue_bound * 4 in
      if buffer = 0 \<or> unat buffer > 2 ^ 61 - 1 then None else Some (unat buffer))"

text \<open>The relayer: its URL is parsed first, then the signer must be there.\<close>

datatype relayer_build_error = HttpRpcUrlParse | MissingSigner

record 'key job_relayer =
  jr_signer :: 'key
  jr_rpc_url :: string
  jr_job_manager :: address
  jr_confirmations :: u64

definition job_relayer_build :: "(string \<Rightarrow> bool) \<Rightarrow> 'key option \<Rightarrow> string \<Rightarrow> address \<Rightarrow> u64
    \<Rightarrow> relayer_build_error + 'key job_relayer" where
  "job_relayer_build is_url signer http_rpc_url job_manager confirmations =
     (if \<not> is_url http_rpc_url then Inl HttpRpcUrlParse
      else case signer of
        None \<Rightarrow> Inl MissingSigner
      | Some signer \<Rightarrow> Inr \<lparr>jr_signer = signer, jr_rpc_url = http_rpc_url, jr_job_manager = job_manager,
          jr_confirmations = confirmations\<rparr>)"

text \<open>The tasks that are joined, and the errors they can end with.\<close>

datatype node_task = JobEventListenerTask | GrpcServerTask | MetricsTask | GatewayTask | RelayRetryTask | ThreadsTask

datatype run_error =
    RunGrpcServer
  | RunPrometheus
  | RunGateway
  | RunJobEventListener
  | RunRelayer relayer_build_error
  | RunRelayRetry
  | RunThreads thread_error

definition node_tasks :: "node_task list" where
  "node_tasks = [JobEventListenerTask, GrpcServerTask, MetricsTask, GatewayTask, RelayRetryTask, ThreadsTask]"

text \<open>\<open>try_join!\<close> of the flattened tasks.\<close>

definition try_join :: "node_task list \<Rightarrow> (node_task \<times> (run_error, unit) join) list
    \<Rightarrow> (run_error node_error + unit) option" where
  "try_join = join_tasks flatten"

text \<open>The end of the task that watches the writer thread.\<close>

definition threads_end :: "'r thread_end \<Rightarrow> (run_error, unit) join" where
  "threads_end t = Joined (case watch_writer t of Inl e \<Rightarrow> Inl (RunThreads e) | Inr _ \<Rightarrow> Inr ())"

text \<open>
  \<open>run\<close>: the start can fail before any task is joined, or panic (\<open>None\<close>); the event listener is replaced
  by \<open>noop_run\<close>, which has ended at once, when events are disabled.
\<close>

datatype run_result = RunPanics | RunStartFails run_error | RunWaits | RunEnds "run_error node_error + unit"

definition run :: "(string \<Rightarrow> bool) \<Rightarrow> ('sock, 'key) node_args
    \<Rightarrow> (node_task \<times> (run_error, unit) join) list \<Rightarrow> run_result" where
  "run is_url c ends =
     (case writer_channel (run_exec_queue_bound c) of
        None \<Rightarrow> RunPanics
      | Some _ \<Rightarrow>
          (case job_relayer_build is_url (Some (run_relayer c)) (run_http_eth_rpc c)
                  (run_job_manager_address c) (rc_confirmations (run_relay_config c)) of
             Inl e \<Rightarrow> RunStartFails (RunRelayer e)
           | Inr _ \<Rightarrow>
               let ends = (if run_disable_events c
                   then (JobEventListenerTask, Joined (Inr ())) # filter (\<lambda>(t, _). t \<noteq> JobEventListenerTask) ends
                   else ends) in
               case try_join node_tasks ends of None \<Rightarrow> RunWaits | Some r \<Rightarrow> RunEnds r))"

text \<open>
  The end of \<open>run\<close>: \<open>Kill\<close> is sent to the writer behind what is queued; what tasks that still run send
  after it stays in the channel.
\<close>

definition shutdown_writer :: "(bytes \<Rightarrow> b256) \<Rightarrow> db \<Rightarrow> ('r writer_msg \<times> tx_outcome) list
    \<Rightarrow> ('r writer_msg \<times> tx_outcome) list \<Rightarrow> db \<times> 'r list \<times> writer_exit" where
  "shutdown_writer sha256 d queued late = start_writer sha256 d (queued @ ((WKill, None), TxOk) # late)"

section \<open>The handlers of the gateway\<close>

record error_response =
  er_message :: string
  er_grpc_code :: int

text \<open>The gRPC codes of the statuses; \<open>internal\<close> is the message of an internal error.\<close>

definition error_response_of :: "(intake_error \<Rightarrow> string) \<Rightarrow> status \<Rightarrow> error_response" where
  "error_response_of internal s =
     (case s of
        InvalidArgument m \<Rightarrow> \<lparr>er_message = m, er_grpc_code = 3\<rparr>
      | NotFound m \<Rightarrow> \<lparr>er_message = m, er_grpc_code = 5\<rparr>
      | Internal e \<Rightarrow> \<lparr>er_message = internal e, er_grpc_code = 13\<rparr>)"

text \<open>The HTTP status and the body.\<close>

definition gateway_respond :: "(intake_error \<Rightarrow> string) \<Rightarrow> status + 'a \<Rightarrow> nat \<times> (error_response + 'a)" where
  "gateway_respond internal r =
     (case r of
        Inl s \<Rightarrow> (let e = error_response_of internal s in (http_status (er_grpc_code e), Inl e))
      | Inr response \<Rightarrow> (200, Inr response))"

definition gateway_submit_job :: "(intake_error \<Rightarrow> string) \<Rightarrow> 'p exec_libs \<Rightarrow> (bytes \<Rightarrow> offchain_job_request option)
    \<Rightarrow> intake_config \<Rightarrow> u64 option \<Rightarrow> submit_job_request \<Rightarrow> node \<Rightarrow> (nat \<times> (error_response + bytes)) option \<times> node" where
  "gateway_submit_job internal L dec cfg ans body n =
     (case server_submit_job L dec cfg ans body n of (r, n') \<Rightarrow> (map_option (gateway_respond internal) r, n'))"

definition gateway_get_result :: "(intake_error \<Rightarrow> string) \<Rightarrow> 'p exec_libs \<Rightarrow> node \<Rightarrow> bytes
    \<Rightarrow> nat \<times> (error_response + job_result)" where
  "gateway_get_result internal L n body = gateway_respond internal (server_get_result L n body)"

definition gateway_submit_program :: "(intake_error \<Rightarrow> string) \<Rightarrow> 'p exec_libs \<Rightarrow> intake_config \<Rightarrow> bytes \<Rightarrow> 32 word
    \<Rightarrow> bytes \<Rightarrow> node \<Rightarrow> (nat \<times> (error_response + bytes)) \<times> node" where
  "gateway_submit_program internal L cfg elf vm pid n =
     (case server_submit_program L cfg elf vm pid n of (r, n') \<Rightarrow> (gateway_respond internal r, n'))"

section \<open>Lemmas\<close>

text \<open>
  Offchain input within the default limit fits into the blobs of a block: the coder stores 31 bytes in a
  field element, after one element with the length.
\<close>

lemma max_da_fits_blobs:
  "n \<le> MAX_DA_PER_JOB \<Longrightarrow> 1 + (n + 30) div 31 \<le> MAX_BLOBS_PER_BLOCK * FIELD_ELEMENTS_PER_BLOB"
  by (simp add: MAX_DA_PER_JOB_def SIMPLE_CODER_MAX_DATA_PER_BLOB_def USABLE_BYTES_PER_BLOB_def
      FIELD_ELEMENTS_PER_BLOB_def MAX_BLOBS_PER_BLOCK_def)

text \<open>
  The command line starts the node exactly when the database opens, the three addresses parse and both
  keys can be read; the node then has the given options, never skips the check of program ids, and
  the limit on retries of the dead letter queue is cut to 32 bits.
\<close>

lemma cli_config_Inr:
  "cli_config E opts = Inr c \<longleftrightarrow>
     ce_init_db E (op_db_dir opts) \<and> ce_parse_addr E (op_prom_address opts) = Some (run_prom_addr c)
     \<and> ce_parse_addr_v4 E (op_grpc_address opts) = Some (run_grpc_addr c)
     \<and> ce_parse_addr E (op_http_address opts) = Some (run_http_listen_addr c)
     \<and> operator_signer E = Inr (run_zkvm_operator c) \<and> relayer_signer E = Inr (run_relayer c)
     \<and> run_exec_queue_bound c = op_exec_queue_bound opts \<and> run_http_eth_rpc c = op_http_eth_rpc opts
     \<and> run_job_manager_address c = op_job_manager_address opts \<and> run_worker_count c = op_worker_count opts
     \<and> run_relay_config c = \<lparr>rc_confirmations = op_confirmations opts,
          rc_dlq_max_retries = ucast (op_dlq_max_retries opts),
          rc_initial_relay_max_retries = op_initial_relay_max_retries opts\<rparr>
     \<and> run_ws_config c = \<lparr>ws_eth_rpc = op_ws_eth_rpc opts, ws_backoff_limit_ms = op_ws_backoff_limit_ms opts,
          ws_backoff_multiplier_ms = op_ws_backoff_multiplier_ms opts\<rparr>
     \<and> run_job_sync_start c = op_job_sync_start opts \<and> run_max_da_per_job c = op_max_da_per_job opts
     \<and> \<not> run_unsafe_skip_program_id_check c \<and> run_disable_events c = op_disable_events opts"
  by (cases c) (auto simp: cli_config_def dlq_max_retries_of_opts_def split: option.splits sum.splits)

text \<open>The chain id is read and never used.\<close>

lemma chain_id_ignored: "cli_config E (opts\<lparr>op_chain_id := i\<rparr>) = cli_config E opts"
  by (cases opts) (simp add: cli_config_def cong: option.case_cong sum.case_cong)

text \<open>A node from the command line stores a program only under the id that is derived from its ELF.\<close>

lemma cli_checks_program_ids:
  "cli_config E opts = Inr c \<Longrightarrow> known_program L (nc_intake (step_config c)) key program \<longleftrightarrow>
     (\<exists>elf p. lib_program_from L elf = Some p \<and> lib_bincode_serialize L p = Some program
        \<and> sha256_key_new (lib_sha256 L) (lib_sp1_setup L elf) = key)"
  by (simp add: cli_config_Inr known_program_def step_config_def)

text \<open>
  The node ends with the error of the first task that fails, and without an error only when all six
  tasks have ended. So an error of the writer's database does not end it: the watching task takes it
  for a success.
\<close>

lemma node_tasks_end:
  assumes "distinct (map fst ends)"
  shows "try_join node_tasks ends =
    (case List.find (\<lambda>(t, r). isl (flatten r)) ends of
       Some (t, r) \<Rightarrow> Some (Inl (projl (flatten r)))
     | None \<Rightarrow> if length ends = 6 then Some (Inr ()) else None)"
proof -
  have "t \<in> set node_tasks" for t by (cases t) (simp_all add: node_tasks_def)
  then have "fst ` set ends \<subseteq> set node_tasks" by blast
  moreover have "distinct node_tasks" "node_tasks \<noteq> []" "length node_tasks = 6" by (simp_all add: node_tasks_def)
  ultimately show ?thesis using join_tasks_exact [of node_tasks ends flatten] assms by (simp add: try_join_def)
qed

lemma node_survives_writer_error:
  "try_join node_tasks [(ThreadsTask, threads_end (Returned (Inl WriterDbError)))] = None"
  "try_join node_tasks [(ThreadsTask, threads_end Panicked)] = Some (Inl (TaskError (RunThreads StdJoin)))"
  by (simp_all add: try_join_def node_tasks_def threads_end_def)

text \<open>
  At the end of the node the writer commits what was queued before \<open>Kill\<close>, in order, and nothing that is
  sent after it.
\<close>

lemma shutdown_commits_queued:
  assumes "list_all (\<lambda>((w, r), out). w \<noteq> WKill \<and> out = TxOk) queued"
  shows "shutdown_writer sha256 d queued late =
    (fold (apply_write sha256) (map (fst \<circ> fst) queued) d, List.map_filter (snd \<circ> fst) queued, WriterKilled)"
  using assms unfolding shutdown_writer_def
  by (induction queued arbitrary: d) (auto simp: List.map_filter_def split: option.splits)

text \<open>
  What the gateway answers to a job: 409 to a request that the server finds invalid, 400 to one that the
  intake refuses, for whatever reason, and 200 otherwise; the job itself fares as over gRPC.
\<close>

lemma request_job_Inl: "request_job L dec req = Inl s \<Longrightarrow> \<exists>m. s = InvalidArgument m"
  by (auto simp: request_job_def split: option.splits if_splits)

lemma gateway_submit_job_status:
  "gateway_submit_job internal L dec cfg ans body n = (Some (code, answer), n') \<Longrightarrow>
     n' = snd (server_submit_job L dec cfg ans body n) \<and>
     code = (case request_job L dec body of
         Inl _ \<Rightarrow> 409
       | Inr j \<Rightarrow> (case fst (submit_job L cfg ans j n) of Some (Inl _) \<Rightarrow> 400 | _ \<Rightarrow> 200))"
  by (auto simp: gateway_submit_job_def server_submit_job_def gateway_respond_def error_response_of_def
      http_status_def Let_def dest!: request_job_Inl split: prod.splits sum.splits)

text \<open>A job id of the wrong length and an unknown job are both a conflict.\<close>

lemma gateway_get_result_status:
  "fst (gateway_get_result internal L n body) = (if isl (server_get_result L n body) then 409 else 200)"
  by (auto simp: gateway_get_result_def server_get_result_def gateway_respond_def error_response_of_def
      http_status_def Let_def split: option.splits)

end
