(* ===== verification/Grpc.thy ===== *)
theory Grpc
  imports NodeMain
begin

text \<open>
  The gRPC interface of the coprocessor node (\<^verbatim>\<open>crates/sdk/proto/src/coprocessor_node.v1.rs\<close>): its
  messages, the client that the batchers and the gateway call, and the service in front of the handlers
  of \<^verbatim>\<open>server.rs\<close>. The codec of the messages (prost) and the transport of a unary call (tonic) are
  parameters: bytes in, bytes or a status out. Interceptors are left out.
\<close>

section \<open>Messages\<close>

record submit_job_response =
  sjr_job_id :: bytes

record get_result_request =
  grq_job_id :: bytes

record get_result_response =
  grr_job_result :: "job_result option"

record submit_program_request =
  spq_program_elf :: bytes
  spq_program_id :: bytes
  spq_vm_type :: u32

record submit_program_response =
  spr_program_id :: bytes

record get_pending_jobs_request =
  gpq_consumer_address :: bytes

record get_pending_jobs_response =
  gpr_pending_jobs :: "u64 list"

record contains_program_request =
  cpq_program_id :: bytes

record contains_program_response =
  cpr_contains :: bool

record ('q, 'r) codec =
  co_encode_request :: "'q \<Rightarrow> bytes"
  co_decode_request :: "bytes \<Rightarrow> 'q option"
  co_encode_response :: "'r \<Rightarrow> bytes"
  co_decode_response :: "bytes \<Rightarrow> 'r option"

record grpc_codecs =
  gc_submit_job :: "(submit_job_request, submit_job_response) codec"
  gc_get_result :: "(get_result_request, get_result_response) codec"
  gc_submit_program :: "(submit_program_request, submit_program_response) codec"
  gc_get_pending_jobs :: "(get_pending_jobs_request, get_pending_jobs_response) codec"
  gc_contains_program :: "(contains_program_request, contains_program_response) codec"

section \<open>tonic\<close>

text \<open>\<open>tonic::Status\<close>: the code and the message.\<close>

record rpc_status =
  st_code :: int
  st_message :: string

record http_request =
  hq_path :: string
  hq_method :: "string \<times> string"
  hq_body :: bytes

text \<open>A response with its status header, if it has one, its content type and its body.\<close>

record http_response =
  hp_grpc_status :: "rpc_status option"
  hp_content_type :: string
  hp_body :: bytes

text \<open>Settings of a client or of the service; \<open>None\<close> is the default limit of tonic.\<close>

record 'e grpc_settings =
  gs_accept_compression_encodings :: "'e list"
  gs_send_compression_encodings :: "'e list"
  gs_max_decoding_message_size :: "nat option"
  gs_max_encoding_message_size :: "nat option"

text \<open>
  The two sides of a unary call. The client gets the channel, the path and the name of the method, and the
  encoded message; the service gets the handler on encoded messages. A call may not return (\<open>None\<close>), and it runs on
  the state \<open>'n\<close> of the server. \<open>tn_too_large\<close> is the message about a size over its limit.
\<close>

type_synonym ('a, 'n) outcome = "(rpc_status + 'a) option \<times> 'n"
type_synonym ('a, 'b, 'n) handler = "'a \<Rightarrow> 'n \<Rightarrow> ('b, 'n) outcome"
type_synonym 'n channel = "http_request \<Rightarrow> 'n \<Rightarrow> http_response option \<times> 'n"

record ('e, 'n) tonic_lib =
  tn_client_unary :: "'e grpc_settings \<Rightarrow> 'n channel \<Rightarrow> string \<Rightarrow> string \<times> string \<Rightarrow> (bytes, bytes, 'n) handler"
  tn_server_unary :: "'e grpc_settings \<Rightarrow> (bytes, bytes, 'n) handler \<Rightarrow> 'n channel"
  tn_decode_error :: rpc_status
  tn_too_large :: "nat \<Rightarrow> nat \<Rightarrow> string"

section \<open>The client\<close>

record 'e coprocessor_node_client =
  cl_origin :: "string option"
  cl_settings :: "'e grpc_settings"

definition default_settings :: "'e grpc_settings" where
  "default_settings = \<lparr>gs_accept_compression_encodings = [], gs_send_compression_encodings = [],
     gs_max_decoding_message_size = None, gs_max_encoding_message_size = None\<rparr>"

definition rpc_client_new :: "'e coprocessor_node_client" where
  "rpc_client_new = \<lparr>cl_origin = None, cl_settings = default_settings\<rparr>"

definition rpc_client_with_origin :: "string \<Rightarrow> 'e coprocessor_node_client" where
  "rpc_client_with_origin origin = \<lparr>cl_origin = Some origin, cl_settings = default_settings\<rparr>"

text \<open>\<open>connect\<close>: the endpoint may be invalid, and connecting to it may fail.\<close>

definition rpc_client_connect :: "('d \<Rightarrow> 'err + 'ep) \<Rightarrow> ('ep \<Rightarrow> 'err + unit) \<Rightarrow> 'd
    \<Rightarrow> 'err + 'e coprocessor_node_client" where
  "rpc_client_connect endpoint connect dst =
     (case endpoint dst of
        Inl e \<Rightarrow> Inl e
      | Inr ep \<Rightarrow> (case connect ep of Inl e \<Rightarrow> Inl e | Inr _ \<Rightarrow> Inr rpc_client_new))"

text \<open>A client sends with one encoding and accepts any number.\<close>

definition client_send_compressed :: "'e \<Rightarrow> 'e coprocessor_node_client \<Rightarrow> 'e coprocessor_node_client" where
  "client_send_compressed encoding self =
     self\<lparr>cl_settings := (cl_settings self)\<lparr>gs_send_compression_encodings := [encoding]\<rparr>\<rparr>"

definition client_accept_compressed :: "'e \<Rightarrow> 'e coprocessor_node_client \<Rightarrow> 'e coprocessor_node_client" where
  "client_accept_compressed encoding self = self\<lparr>cl_settings := (cl_settings self)
     \<lparr>gs_accept_compression_encodings := List.insert encoding (gs_accept_compression_encodings (cl_settings self))\<rparr>\<rparr>"

definition client_max_decoding :: "nat \<Rightarrow> 'e coprocessor_node_client \<Rightarrow> 'e coprocessor_node_client" where
  "client_max_decoding limit self =
     self\<lparr>cl_settings := (cl_settings self)\<lparr>gs_max_decoding_message_size := Some limit\<rparr>\<rparr>"

definition client_max_encoding :: "nat \<Rightarrow> 'e coprocessor_node_client \<Rightarrow> 'e coprocessor_node_client" where
  "client_max_encoding limit self =
     self\<lparr>cl_settings := (cl_settings self)\<lparr>gs_max_encoding_message_size := Some limit\<rparr>\<rparr>"

text \<open>
  What the five methods share: the channel must be ready (\<open>ready\<close> is its error, if it is not), and the reply is
  decoded with the codec of the method.
\<close>

definition rpc_call :: "('e, 'n) tonic_lib \<Rightarrow> 'e coprocessor_node_client \<Rightarrow> string option \<Rightarrow> 'n channel
    \<Rightarrow> ('q, 'r) codec \<Rightarrow> string \<Rightarrow> string \<times> string \<Rightarrow> ('q, 'r, 'n) handler" where
  "rpc_call T self ready chan codec p callee req n =
     (case ready of
        Some e \<Rightarrow> (Some (Inl \<lparr>st_code = 2, st_message = ''Service was not ready: '' @ e\<rparr>), n)
      | None \<Rightarrow>
          (case tn_client_unary T (cl_settings self) chan p callee (co_encode_request codec req) n of
             (None, n') \<Rightarrow> (None, n')
           | (Some (Inl s), n') \<Rightarrow> (Some (Inl s), n')
           | (Some (Inr bs), n') \<Rightarrow>
               (Some (case co_decode_response codec bs of None \<Rightarrow> Inl (tn_decode_error T) | Some r \<Rightarrow> Inr r), n')))"

definition rpc_submit_job :: "('e, 'n) tonic_lib \<Rightarrow> grpc_codecs \<Rightarrow> 'e coprocessor_node_client \<Rightarrow> string option
    \<Rightarrow> 'n channel \<Rightarrow> (submit_job_request, submit_job_response, 'n) handler" where
  "rpc_submit_job T M self ready chan =
     rpc_call T self ready chan (gc_submit_job M) ''/coprocessor_node.v1.CoprocessorNode/SubmitJob''
       (''coprocessor_node.v1.CoprocessorNode'', ''SubmitJob'')"

definition rpc_get_result :: "('e, 'n) tonic_lib \<Rightarrow> grpc_codecs \<Rightarrow> 'e coprocessor_node_client \<Rightarrow> string option
    \<Rightarrow> 'n channel \<Rightarrow> (get_result_request, get_result_response, 'n) handler" where
  "rpc_get_result T M self ready chan =
     rpc_call T self ready chan (gc_get_result M) ''/coprocessor_node.v1.CoprocessorNode/GetResult''
       (''coprocessor_node.v1.CoprocessorNode'', ''GetResult'')"

definition rpc_submit_program :: "('e, 'n) tonic_lib \<Rightarrow> grpc_codecs \<Rightarrow> 'e coprocessor_node_client \<Rightarrow> string option
    \<Rightarrow> 'n channel \<Rightarrow> (submit_program_request, submit_program_response, 'n) handler" where
  "rpc_submit_program T M self ready chan =
     rpc_call T self ready chan (gc_submit_program M) ''/coprocessor_node.v1.CoprocessorNode/SubmitProgram''
       (''coprocessor_node.v1.CoprocessorNode'', ''SubmitProgram'')"

definition rpc_get_pending_jobs :: "('e, 'n) tonic_lib \<Rightarrow> grpc_codecs \<Rightarrow> 'e coprocessor_node_client \<Rightarrow> string option
    \<Rightarrow> 'n channel \<Rightarrow> (get_pending_jobs_request, get_pending_jobs_response, 'n) handler" where
  "rpc_get_pending_jobs T M self ready chan =
     rpc_call T self ready chan (gc_get_pending_jobs M) ''/coprocessor_node.v1.CoprocessorNode/GetPendingJobs''
       (''coprocessor_node.v1.CoprocessorNode'', ''GetPendingJobs'')"

definition rpc_contains_program :: "('e, 'n) tonic_lib \<Rightarrow> grpc_codecs \<Rightarrow> 'e coprocessor_node_client \<Rightarrow> string option
    \<Rightarrow> 'n channel \<Rightarrow> (contains_program_request, contains_program_response, 'n) handler" where
  "rpc_contains_program T M self ready chan =
     rpc_call T self ready chan (gc_contains_program M) ''/coprocessor_node.v1.CoprocessorNode/ContainsProgram''
       (''coprocessor_node.v1.CoprocessorNode'', ''ContainsProgram'')"

section \<open>The service\<close>

text \<open>The trait \<open>CoprocessorNode\<close>.\<close>

record 'n coprocessor_node =
  tr_submit_job :: "(submit_job_request, submit_job_response, 'n) handler"
  tr_get_result :: "(get_result_request, get_result_response, 'n) handler"
  tr_submit_program :: "(submit_program_request, submit_program_response, 'n) handler"
  tr_get_pending_jobs :: "(get_pending_jobs_request, get_pending_jobs_response, 'n) handler"
  tr_contains_program :: "(contains_program_request, contains_program_response, 'n) handler"

record ('e, 'n) coprocessor_node_server =
  cs_inner :: "'n coprocessor_node"
  cs_accept_compression_encodings :: "'e list"
  cs_send_compression_encodings :: "'e list"
  cs_max_decoding_message_size :: "nat option"
  cs_max_encoding_message_size :: "nat option"

definition rpc_server_new :: "'n coprocessor_node \<Rightarrow> ('e, 'n) coprocessor_node_server" where
  "rpc_server_new inner =
     \<lparr>cs_inner = inner, cs_accept_compression_encodings = [], cs_send_compression_encodings = [],
       cs_max_decoding_message_size = None, cs_max_encoding_message_size = None\<rparr>"

definition server_accept_compressed :: "'e \<Rightarrow> ('e, 'n) coprocessor_node_server \<Rightarrow> ('e, 'n) coprocessor_node_server" where
  "server_accept_compressed encoding self =
     self\<lparr>cs_accept_compression_encodings := List.insert encoding (cs_accept_compression_encodings self)\<rparr>"

definition server_send_compressed :: "'e \<Rightarrow> ('e, 'n) coprocessor_node_server \<Rightarrow> ('e, 'n) coprocessor_node_server" where
  "server_send_compressed encoding self =
     self\<lparr>cs_send_compression_encodings := List.insert encoding (cs_send_compression_encodings self)\<rparr>"

definition server_max_decoding :: "nat \<Rightarrow> ('e, 'n) coprocessor_node_server \<Rightarrow> ('e, 'n) coprocessor_node_server" where
  "server_max_decoding limit self = self\<lparr>cs_max_decoding_message_size := Some limit\<rparr>"

definition server_max_encoding :: "nat \<Rightarrow> ('e, 'n) coprocessor_node_server \<Rightarrow> ('e, 'n) coprocessor_node_server" where
  "server_max_encoding limit self = self\<lparr>cs_max_encoding_message_size := Some limit\<rparr>"

text \<open>
  \<open>Grpc::new(codec)\<close> with the compression and size settings of the server, and a \<open>UnaryService\<close> behind the
  codec: a message that cannot be decoded does not reach the handler.
\<close>

definition server_settings :: "('e, 'n) coprocessor_node_server \<Rightarrow> 'e grpc_settings" where
  "server_settings self =
     \<lparr>gs_accept_compression_encodings = cs_accept_compression_encodings self,
       gs_send_compression_encodings = cs_send_compression_encodings self,
       gs_max_decoding_message_size = cs_max_decoding_message_size self,
       gs_max_encoding_message_size = cs_max_encoding_message_size self\<rparr>"

definition service :: "('e, 'n) tonic_lib \<Rightarrow> ('q, 'r) codec \<Rightarrow> ('q, 'r, 'n) handler \<Rightarrow> (bytes, bytes, 'n) handler" where
  "service T codec h bs n =
     (case co_decode_request codec bs of
        None \<Rightarrow> (Some (Inl (tn_decode_error T)), n)
      | Some req \<Rightarrow> (case h req n of (r, n') \<Rightarrow> (map_option (map_sum id (co_encode_response codec)) r, n')))"

text \<open>The arms of \<open>call\<close>.\<close>

definition submit_job_svc :: "('e, 'n) tonic_lib \<Rightarrow> grpc_codecs \<Rightarrow> ('e, 'n) coprocessor_node_server \<Rightarrow> 'n channel" where
  "submit_job_svc T M self =
     tn_server_unary T (server_settings self) (service T (gc_submit_job M) (tr_submit_job (cs_inner self)))"

definition get_result_svc :: "('e, 'n) tonic_lib \<Rightarrow> grpc_codecs \<Rightarrow> ('e, 'n) coprocessor_node_server \<Rightarrow> 'n channel" where
  "get_result_svc T M self =
     tn_server_unary T (server_settings self) (service T (gc_get_result M) (tr_get_result (cs_inner self)))"

definition submit_program_svc :: "('e, 'n) tonic_lib \<Rightarrow> grpc_codecs \<Rightarrow> ('e, 'n) coprocessor_node_server \<Rightarrow> 'n channel" where
  "submit_program_svc T M self =
     tn_server_unary T (server_settings self) (service T (gc_submit_program M) (tr_submit_program (cs_inner self)))"

definition get_pending_jobs_svc :: "('e, 'n) tonic_lib \<Rightarrow> grpc_codecs \<Rightarrow> ('e, 'n) coprocessor_node_server \<Rightarrow> 'n channel" where
  "get_pending_jobs_svc T M self =
     tn_server_unary T (server_settings self) (service T (gc_get_pending_jobs M) (tr_get_pending_jobs (cs_inner self)))"

definition contains_program_svc :: "('e, 'n) tonic_lib \<Rightarrow> grpc_codecs \<Rightarrow> ('e, 'n) coprocessor_node_server \<Rightarrow> 'n channel" where
  "contains_program_svc T M self =
     tn_server_unary T (server_settings self) (service T (gc_contains_program M) (tr_contains_program (cs_inner self)))"

text \<open>The last arm: the code of \<open>Unimplemented\<close> and no body.\<close>

definition unimplemented_response :: http_response where
  "unimplemented_response =
     \<lparr>hp_grpc_status = Some \<lparr>st_code = 12, st_message = []\<rparr>, hp_content_type = ''application/grpc'', hp_body = []\<rparr>"

definition server_call :: "('e, 'n) tonic_lib \<Rightarrow> grpc_codecs \<Rightarrow> ('e, 'n) coprocessor_node_server \<Rightarrow> 'n channel" where
  "server_call T M self req n =
     (if hq_path req = ''/coprocessor_node.v1.CoprocessorNode/SubmitJob'' then submit_job_svc T M self req n
      else if hq_path req = ''/coprocessor_node.v1.CoprocessorNode/GetResult'' then get_result_svc T M self req n
      else if hq_path req = ''/coprocessor_node.v1.CoprocessorNode/SubmitProgram'' then submit_program_svc T M self req n
      else if hq_path req = ''/coprocessor_node.v1.CoprocessorNode/GetPendingJobs'' then get_pending_jobs_svc T M self req n
      else if hq_path req = ''/coprocessor_node.v1.CoprocessorNode/ContainsProgram'' then contains_program_svc T M self req n
      else (Some unimplemented_response, n))"

section \<open>The handlers as an implementation of the trait\<close>

text \<open>The statuses of the handlers with their codes; \<open>internal\<close> is the message of an internal error.\<close>

fun rpc_status_of :: "(intake_error \<Rightarrow> string) \<Rightarrow> status \<Rightarrow> rpc_status" where
  "rpc_status_of internal (InvalidArgument m) = \<lparr>st_code = 3, st_message = m\<rparr>"
| "rpc_status_of internal (NotFound m) = \<lparr>st_code = 5, st_message = m\<rparr>"
| "rpc_status_of internal (Internal e) = \<lparr>st_code = 13, st_message = internal e\<rparr>"

definition node_service :: "(intake_error \<Rightarrow> string) \<Rightarrow> 'p exec_libs \<Rightarrow> (bytes \<Rightarrow> offchain_job_request option)
    \<Rightarrow> intake_config \<Rightarrow> u64 option \<Rightarrow> node coprocessor_node" where
  "node_service internal L dec cfg ans =
     (let failed = rpc_status_of internal in
      \<lparr>tr_submit_job = \<lambda>req n. (case server_submit_job L dec cfg ans req n of (r, n') \<Rightarrow>
           (map_option (map_sum failed (\<lambda>i. \<lparr>sjr_job_id = i\<rparr>)) r, n')),
        tr_get_result = \<lambda>req n.
           (Some (map_sum failed (\<lambda>r. \<lparr>grr_job_result = Some r\<rparr>) (server_get_result L n (grq_job_id req))), n),
        tr_submit_program = \<lambda>req n.
           (case server_submit_program L cfg (spq_program_elf req) (spq_vm_type req) (spq_program_id req) n of (r, n') \<Rightarrow>
             (Some (map_sum failed (\<lambda>i. \<lparr>spr_program_id = i\<rparr>) r), n')),
        tr_get_pending_jobs = \<lambda>req n.
           (map_option (map_sum failed (\<lambda>ps. \<lparr>gpr_pending_jobs = ps\<rparr>))
              (server_get_pending_jobs n (gpq_consumer_address req)), n),
        tr_contains_program = \<lambda>req n.
           (Some (Inr \<lparr>cpr_contains = server_contains_program L n (cpq_program_id req)\<rparr>), n)\<rparr>)"

section \<open>The gateway as a client\<close>

definition error_response_from :: "rpc_status \<Rightarrow> error_response" where
  "error_response_from s = \<lparr>er_message = st_message s, er_grpc_code = st_code s\<rparr>"

definition http_answer :: "('a, 'n) outcome \<Rightarrow> (nat \<times> (error_response + 'a)) option \<times> 'n" where
  "http_answer = map_prod (map_option (\<lambda>r. case r of
     Inl s \<Rightarrow> (http_status (er_grpc_code (error_response_from s)), Inl (error_response_from s))
   | Inr response \<Rightarrow> (200, Inr response))) id"

text \<open>The handlers; the channel of the gateway is ready.\<close>

definition http_submit_job :: "('e, 'n) tonic_lib \<Rightarrow> grpc_codecs \<Rightarrow> 'e coprocessor_node_client \<Rightarrow> 'n channel
    \<Rightarrow> submit_job_request \<Rightarrow> 'n \<Rightarrow> (nat \<times> (error_response + submit_job_response)) option \<times> 'n" where
  "http_submit_job T M client chan body n = http_answer (rpc_submit_job T M client None chan body n)"

definition http_get_result :: "('e, 'n) tonic_lib \<Rightarrow> grpc_codecs \<Rightarrow> 'e coprocessor_node_client \<Rightarrow> 'n channel
    \<Rightarrow> get_result_request \<Rightarrow> 'n \<Rightarrow> (nat \<times> (error_response + get_result_response)) option \<times> 'n" where
  "http_get_result T M client chan body n = http_answer (rpc_get_result T M client None chan body n)"

definition http_submit_program :: "('e, 'n) tonic_lib \<Rightarrow> grpc_codecs \<Rightarrow> 'e coprocessor_node_client \<Rightarrow> 'n channel
    \<Rightarrow> submit_program_request \<Rightarrow> 'n \<Rightarrow> (nat \<times> (error_response + submit_program_response)) option \<times> 'n" where
  "http_submit_program T M client chan body n = http_answer (rpc_submit_program T M client None chan body n)"

section \<open>What tonic and prost promise\<close>

text \<open>
  A message over the sender's limit, which is unlimited by default, is not sent; one over the receiver's limit,
  which is 4 MB by default, is not taken. Both have the code \<open>OutOfRange\<close>.
\<close>

definition DEFAULT_MAX_DECODING :: nat where "DEFAULT_MAX_DECODING = 4 * 1024 * 1024"

definition over_limit :: "('e, 'n) tonic_lib \<Rightarrow> nat \<Rightarrow> bytes \<Rightarrow> rpc_status option" where
  "over_limit T limit bs =
     (if limit < length bs then Some \<lparr>st_code = 11, st_message = tn_too_large T (length bs) limit\<rparr> else None)"

definition send_error :: "('e, 'n) tonic_lib \<Rightarrow> 'e grpc_settings \<Rightarrow> bytes \<Rightarrow> rpc_status option" where
  "send_error T s bs = Option.bind (gs_max_encoding_message_size s) (\<lambda>limit. over_limit T limit bs)"

definition receive_error :: "('e, 'n) tonic_lib \<Rightarrow> 'e grpc_settings \<Rightarrow> bytes \<Rightarrow> rpc_status option" where
  "receive_error T s bs =
     over_limit T (case gs_max_decoding_message_size s of None \<Rightarrow> DEFAULT_MAX_DECODING | Some limit \<Rightarrow> limit) bs"

definition size_error :: "('e, 'n) tonic_lib \<Rightarrow> 'e grpc_settings \<Rightarrow> 'e grpc_settings \<Rightarrow> bytes \<Rightarrow> rpc_status option" where
  "size_error T sender receiver bs =
     (case send_error T sender bs of Some e \<Rightarrow> Some e | None \<Rightarrow> receive_error T receiver bs)"

text \<open>The outcome of a handler behind the limits of both sides, for any encoding of its messages.\<close>

definition limited :: "('e, 'n) tonic_lib \<Rightarrow> 'e grpc_settings \<Rightarrow> 'e grpc_settings \<Rightarrow> ('q \<Rightarrow> bytes) \<Rightarrow> ('r \<Rightarrow> bytes)
    \<Rightarrow> ('q, 'r, 'n) handler \<Rightarrow> ('q, 'r, 'n) handler" where
  "limited T c s enc_q enc_r h q n =
     (case size_error T c s (enc_q q) of
        Some e \<Rightarrow> (Some (Inl e), n)
      | None \<Rightarrow>
          (case h q n of
             (Some (Inr r), n') \<Rightarrow> (Some (case size_error T s c (enc_r r) of Some e \<Rightarrow> Inl e | None \<Rightarrow> Inr r), n')
           | out \<Rightarrow> out))"

text \<open>
  A unary call of a client with the settings \<open>c\<close>, on a channel that hands requests for its path to a service with
  the settings \<open>s\<close>, when the service takes the encoding the client sends with.
\<close>

definition tonic_carries :: "('e, 'n) tonic_lib \<Rightarrow> 'e grpc_settings \<Rightarrow> 'e grpc_settings \<Rightarrow> bool" where
  "tonic_carries T c s \<longleftrightarrow>
     (\<forall>chan p callee h. (\<forall>r n. hq_path r = p \<longrightarrow> chan r n = tn_server_unary T s h r n) \<longrightarrow>
        tn_client_unary T c chan p callee = limited T c s id id h)"

definition faithful :: "('q, 'r) codec \<Rightarrow> bool" where
  "faithful C \<longleftrightarrow> (\<forall>q. co_decode_request C (co_encode_request C q) = Some q)
     \<and> (\<forall>r. co_decode_response C (co_encode_response C r) = Some r)"

section \<open>Lemmas\<close>

lemma rpc_call_served:
  assumes "tonic_carries T (cl_settings c) s" and "faithful C"
    and "\<And>r n. hq_path r = p \<Longrightarrow> chan r n = tn_server_unary T s (service T C h) r n"
  shows "rpc_call T c None chan C p callee q n
    = limited T (cl_settings c) s (co_encode_request C) (co_encode_response C) h q n"
proof -
  have "tn_client_unary T (cl_settings c) chan p callee = limited T (cl_settings c) s id id (service T C h)"
    using assms(1,3) unfolding tonic_carries_def by blast
  then show ?thesis
    using assms(2)
    by (auto simp: rpc_call_def limited_def service_def faithful_def split: prod.splits option.splits sum.splits)
qed

text \<open>Each method of the client reaches the handler of the same name, and no other path reaches a handler.\<close>

lemma calls_reach_handlers:
  assumes "tonic_carries T (cl_settings c) (server_settings srv)"
  shows "faithful (gc_submit_job M) \<Longrightarrow> rpc_submit_job T M c None (server_call T M srv) q1 n
      = limited T (cl_settings c) (server_settings srv) (co_encode_request (gc_submit_job M))
          (co_encode_response (gc_submit_job M)) (tr_submit_job (cs_inner srv)) q1 n"
    and "faithful (gc_get_result M) \<Longrightarrow> rpc_get_result T M c None (server_call T M srv) q2 n
      = limited T (cl_settings c) (server_settings srv) (co_encode_request (gc_get_result M))
          (co_encode_response (gc_get_result M)) (tr_get_result (cs_inner srv)) q2 n"
    and "faithful (gc_submit_program M) \<Longrightarrow> rpc_submit_program T M c None (server_call T M srv) q3 n
      = limited T (cl_settings c) (server_settings srv) (co_encode_request (gc_submit_program M))
          (co_encode_response (gc_submit_program M)) (tr_submit_program (cs_inner srv)) q3 n"
    and "faithful (gc_get_pending_jobs M) \<Longrightarrow> rpc_get_pending_jobs T M c None (server_call T M srv) q4 n
      = limited T (cl_settings c) (server_settings srv) (co_encode_request (gc_get_pending_jobs M))
          (co_encode_response (gc_get_pending_jobs M)) (tr_get_pending_jobs (cs_inner srv)) q4 n"
    and "faithful (gc_contains_program M) \<Longrightarrow> rpc_contains_program T M c None (server_call T M srv) q5 n
      = limited T (cl_settings c) (server_settings srv) (co_encode_request (gc_contains_program M))
          (co_encode_response (gc_contains_program M)) (tr_contains_program (cs_inner srv)) q5 n"
  unfolding rpc_submit_job_def rpc_get_result_def rpc_submit_program_def rpc_get_pending_jobs_def
    rpc_contains_program_def
  by (rule rpc_call_served [OF assms]; simp add: server_call_def submit_job_svc_def get_result_svc_def
      submit_program_svc_def get_pending_jobs_svc_def contains_program_svc_def)+

lemma other_paths_unimplemented:
  assumes "hq_path r \<notin> (\<lambda>m. ''/coprocessor_node.v1.CoprocessorNode/'' @ m)
    ` {''SubmitJob'', ''GetResult'', ''SubmitProgram'', ''GetPendingJobs'', ''ContainsProgram''}"
  shows "server_call T M srv r n = (Some unimplemented_response, n)"
  using assms by (auto simp: server_call_def)

lemma calls_not_ready:
  "rpc_call T c (Some e) chan C p callee q n =
     (Some (Inl \<lparr>st_code = 2, st_message = ''Service was not ready: '' @ e\<rparr>), n)"
  by (simp add: rpc_call_def)

section \<open>The gateway and the handlers\<close>

lemma new_settings [simp]:
  "cl_settings rpc_client_new = default_settings" "server_settings (rpc_server_new inner) = default_settings"
  "cs_inner (rpc_server_new inner) = inner"
  by (simp_all add: rpc_client_new_def server_settings_def rpc_server_new_def default_settings_def)

lemma size_error_default:
  "size_error T default_settings default_settings bs = over_limit T 4194304 bs"
  by (simp add: size_error_def send_error_def receive_error_def default_settings_def DEFAULT_MAX_DECODING_def)

lemma error_response_from_status: "error_response_from (rpc_status_of internal s) = error_response_of internal s"
  by (cases s) (simp_all add: error_response_from_def error_response_of_def)

lemma http_answer_handler:
  "http_answer (map_option (map_sum (rpc_status_of internal) f) r, n)
     = (map_option (\<lambda>r. map_prod id (map_sum id f) (gateway_respond internal r)) r, n)"
proof (cases r)
  case (Some x)
  then show ?thesis
    by (cases x) (simp_all add: http_answer_def gateway_respond_def error_response_from_status Let_def)
qed (simp add: http_answer_def)

lemma map_sum_Inr: "map_sum f g x = Inr r \<longleftrightarrow> (\<exists>i. x = Inr i \<and> r = g i)"
  by (cases x) auto

text \<open>Below the limit, and when the responses fit as well, a call is the handler.\<close>

lemma limited_fits:
  assumes "length (enc_q q) \<le> 4194304"
    and "\<And>r n'. h q n = (Some (Inr r), n') \<Longrightarrow> length (enc_r r) \<le> 4194304"
  shows "limited T default_settings default_settings enc_q enc_r h q n = h q n"
  using assms by (auto simp: limited_def size_error_default over_limit_def split: prod.splits option.splits sum.splits)

lemma limited_refuses:
  assumes "\<not> length (enc_q q) \<le> 4194304"
  shows "http_answer (limited T default_settings default_settings enc_q enc_r h q n)
    = (Some (409, Inl \<lparr>er_message = tn_too_large T (length (enc_q q)) 4194304, er_grpc_code = 11\<rparr>), n)"
  using assms
  by (simp add: limited_def size_error_default over_limit_def http_answer_def error_response_from_def http_status_def)

text \<open>The responses are short: a job id has 32 bytes, and the answer to a program repeats its id.\<close>

lemma server_submit_job_answer:
  assumes "server_submit_job L dec cfg ans q n = (Some (Inr i), n')"
  shows "length i = 32"
proof (cases "request_job L dec q")
  case (Inr j)
  obtain r m where r: "submit_job L cfg ans j n = (r, m)" by force
  with assms Inr obtain x where "r = Some x" by (auto simp: server_submit_job_def)
  with assms Inr r show ?thesis by (cases x) (auto simp: server_submit_job_def b256_key_encode_def)
qed (use assms in \<open>simp add: server_submit_job_def\<close>)

lemma server_submit_program_answer:
  "server_submit_program L cfg elf vm pid n = (Inr i, n') \<Longrightarrow> i = pid"
  by (auto simp: server_submit_program_def submit_elf_def Let_def split: if_splits option.splits sum.splits prod.splits)

lemma job_response:
  assumes "tr_submit_job (node_service internal L dec cfg ans) q n = (Some (Inr r), n')"
  shows "length (sjr_job_id r) = 32"
  using assms server_submit_job_answer [of L dec cfg ans q n]
  by (auto simp: node_service_def Let_def map_sum_Inr split: prod.splits)

lemma program_response:
  assumes "tr_submit_program (node_service internal L dec cfg ans) q n = (Some (Inr r), n')"
  shows "r = \<lparr>spr_program_id = spq_program_id q\<rparr>"
  using assms server_submit_program_answer
  by (fastforce simp: node_service_def Let_def map_sum_Inr split: prod.splits)

text \<open>The handlers of the trait, answered over HTTP.\<close>

lemma job_answer:
  "http_answer (tr_submit_job (node_service internal L dec cfg ans) q n)
     = map_prod (map_option (map_prod id (map_sum id (\<lambda>i. \<lparr>sjr_job_id = i\<rparr>)))) id
         (gateway_submit_job internal L dec cfg ans q n)"
  by (simp add: node_service_def Let_def gateway_submit_job_def http_answer_handler option.map_comp comp_def
      split: prod.splits)

lemma program_answer:
  "http_answer (tr_submit_program (node_service internal L dec cfg ans) q n)
     = map_prod (\<lambda>r. Some (map_prod id (map_sum id (\<lambda>i. \<lparr>spr_program_id = i\<rparr>)) r)) id
         (gateway_submit_program internal L cfg (spq_program_elf q) (spq_vm_type q) (spq_program_id q) n)"
  by (simp add: node_service_def Let_def gateway_submit_program_def
      http_answer_handler [where r = "Some r" for r, simplified] split: prod.splits)

text \<open>
  C40. The gateway is the handlers behind the limit of the gRPC server. It accepts HTTP bodies of any size, but
  it hands a job or a program on through the client, and the server keeps the default limit of tonic. A
  request whose message has at most 4 MB gets exactly what the handler answers, with the state of the handler; a
  larger one is refused with 409 and the node does not change.
\<close>

theorem gateway_limited_by_grpc:
  assumes "tonic_carries T default_settings default_settings"
    and "faithful (gc_submit_job M)" and "faithful (gc_submit_program M)"
    and "\<forall>r. length (co_encode_response (gc_submit_job M) r) \<le> length (sjr_job_id r) + 16"
    and "\<forall>q. length (co_encode_response (gc_submit_program M) \<lparr>spr_program_id = spq_program_id q\<rparr>)
              \<le> length (co_encode_request (gc_submit_program M) q)"
    and "chan = server_call T M (rpc_server_new (node_service internal L dec cfg ans))"
  shows "http_submit_job T M rpc_client_new chan job n =
      (let bs = co_encode_request (gc_submit_job M) job in
       if length bs \<le> 4194304
       then map_prod (map_option (map_prod id (map_sum id (\<lambda>i. \<lparr>sjr_job_id = i\<rparr>)))) id
              (gateway_submit_job internal L dec cfg ans job n)
       else (Some (409, Inl \<lparr>er_message = tn_too_large T (length bs) 4194304, er_grpc_code = 11\<rparr>), n))
    \<and> http_submit_program T M rpc_client_new chan program n =
      (let bs = co_encode_request (gc_submit_program M) program in
       if length bs \<le> 4194304
       then map_prod (\<lambda>r. Some (map_prod id (map_sum id (\<lambda>i. \<lparr>spr_program_id = i\<rparr>)) r)) id
              (gateway_submit_program internal L cfg (spq_program_elf program) (spq_vm_type program)
                (spq_program_id program) n)
       else (Some (409, Inl \<lparr>er_message = tn_too_large T (length bs) 4194304, er_grpc_code = 11\<rparr>), n))"
proof -
  let ?s = "node_service internal L dec cfg ans"
  have carries: "tonic_carries T (cl_settings rpc_client_new) (server_settings (rpc_server_new ?s))"
    using assms(1) by simp
  note reach = calls_reach_handlers [OF carries, unfolded new_settings]
  have job: "limited T default_settings default_settings (co_encode_request (gc_submit_job M))
      (co_encode_response (gc_submit_job M)) (tr_submit_job ?s) job n = tr_submit_job ?s job n"
    if "length (co_encode_request (gc_submit_job M) job) \<le> 4194304"
    using that
  proof (rule limited_fits)
    show "length (co_encode_response (gc_submit_job M) r) \<le> 4194304"
      if "tr_submit_job ?s job n = (Some (Inr r), n')" for r n'
      using job_response [OF that] assms(4) [rule_format, of r] by simp
  qed
  have program: "limited T default_settings default_settings (co_encode_request (gc_submit_program M))
      (co_encode_response (gc_submit_program M)) (tr_submit_program ?s) program n = tr_submit_program ?s program n"
    if fits: "length (co_encode_request (gc_submit_program M) program) \<le> 4194304"
    using that
  proof (rule limited_fits)
    show "length (co_encode_response (gc_submit_program M) r) \<le> 4194304"
      if "tr_submit_program ?s program n = (Some (Inr r), n')" for r n'
      using program_response [OF that] assms(5) fits order_trans by blast
  qed
  show ?thesis
    by (simp add: http_submit_job_def http_submit_program_def assms(6) reach(1) [OF assms(2)] reach(3) [OF assms(3)]
        Let_def limited_refuses job program job_answer program_answer)
qed

text \<open>
  A transport and codecs: the server answers with the status or the encoded message; byte strings end at a zero,
  and a one comes before each of their bytes.
\<close>

definition status_reply :: "rpc_status \<Rightarrow> http_response" where
  "status_reply e = \<lparr>hp_grpc_status = Some e, hp_content_type = ''application/grpc'', hp_body = []\<rparr>"

definition body_reply :: "bytes \<Rightarrow> http_response" where
  "body_reply bs = \<lparr>hp_grpc_status = None, hp_content_type = ''application/grpc'', hp_body = bs\<rparr>"

definition sample_client_unary :: "('e, 'n) tonic_lib \<Rightarrow> 'e grpc_settings \<Rightarrow> 'n channel \<Rightarrow> string \<Rightarrow> string \<times> string
    \<Rightarrow> (bytes, bytes, 'n) handler" where
  "sample_client_unary T c chan p callee bs n =
     (case send_error T c bs of
        Some e \<Rightarrow> (Some (Inl e), n)
      | None \<Rightarrow>
          (case chan \<lparr>hq_path = p, hq_method = callee, hq_body = bs\<rparr> n of
             (None, n') \<Rightarrow> (None, n')
           | (Some resp, n') \<Rightarrow>
               (Some (case hp_grpc_status resp of
                  Some e \<Rightarrow> Inl e
                | None \<Rightarrow> (case receive_error T c (hp_body resp) of Some e \<Rightarrow> Inl e | None \<Rightarrow> Inr (hp_body resp))), n')))"

definition sample_server_unary :: "('e, 'n) tonic_lib \<Rightarrow> 'e grpc_settings \<Rightarrow> (bytes, bytes, 'n) handler \<Rightarrow> 'n channel" where
  "sample_server_unary T s h req n =
     (case receive_error T s (hq_body req) of
        Some e \<Rightarrow> (Some (status_reply e), n)
      | None \<Rightarrow>
          (case h (hq_body req) n of
             (None, n') \<Rightarrow> (None, n')
           | (Some (Inl e), n') \<Rightarrow> (Some (status_reply e), n')
           | (Some (Inr bs), n') \<Rightarrow>
               (Some (case send_error T s bs of Some e \<Rightarrow> status_reply e | None \<Rightarrow> body_reply bs), n')))"

definition sample_tonic :: "('e, 'n) tonic_lib \<Rightarrow> ('e, 'n) tonic_lib" where
  "sample_tonic T =
     T\<lparr>tn_client_unary := sample_client_unary T, tn_server_unary := sample_server_unary T\<rparr>"

lemma sample_tonic_simps [simp]:
  "tn_client_unary (sample_tonic T) = sample_client_unary T" "tn_server_unary (sample_tonic T) = sample_server_unary T"
  "tn_decode_error (sample_tonic T) = tn_decode_error T" "tn_too_large (sample_tonic T) = tn_too_large T"
  by (simp_all add: sample_tonic_def)

lemma sample_over_limit [simp]: "over_limit (sample_tonic T) = over_limit T"
  by (intro ext) (simp add: over_limit_def cong: if_cong)

lemma sample_sizes [simp]:
  "send_error (sample_tonic T) = send_error T" "receive_error (sample_tonic T) = receive_error T"
  by (intro ext, simp add: send_error_def receive_error_def)+

lemma sample_size_error [simp]: "size_error (sample_tonic T) = size_error T"
  by (intro ext) (simp add: size_error_def cong: option.case_cong)

lemma sample_tonic_carries: "tonic_carries (sample_tonic T) c s"
  unfolding tonic_carries_def sample_tonic_simps
proof (intro allI impI ext)
  fix chan :: "'b channel" and p callee h bs n
  assume "\<forall>r n. hq_path r = p \<longrightarrow> chan r n = sample_server_unary T s h r n"
  then have chan: "chan \<lparr>hq_path = p, hq_method = callee, hq_body = bs\<rparr> n
      = sample_server_unary T s h \<lparr>hq_path = p, hq_method = callee, hq_body = bs\<rparr> n"
    by simp
  show "sample_client_unary T c chan p callee bs n = limited (sample_tonic T) c s id id h bs n"
    by (auto simp: sample_client_unary_def chan sample_server_unary_def limited_def size_error_def [of T]
        status_reply_def body_reply_def split: option.splits prod.splits sum.splits)
qed

fun stuff :: "bytes \<Rightarrow> bytes" where
  "stuff [] = [0]"
| "stuff (b # bs) = 1 # b # stuff bs"

fun unstuff :: "bytes \<Rightarrow> (bytes \<times> bytes) option" where
  "unstuff [] = None"
| "unstuff (x # r) =
     (if x = 0 then Some ([], r)
      else case r of [] \<Rightarrow> None | b # r' \<Rightarrow> map_option (map_prod (\<lambda>bs. b # bs) id) (unstuff r'))"

lemma unstuff_stuff [simp]: "unstuff (stuff bs @ r) = Some (bs, r)"
  by (induction bs) simp_all

lemma length_stuff [simp]: "length (stuff bs) = 2 * length bs + 1"
  by (induction bs) simp_all

definition job_codec :: "(submit_job_request, submit_job_response) codec" where
  "job_codec =
     \<lparr>co_encode_request = \<lambda>q. stuff (sr_request q) @ stuff (sr_signature q) @ stuff (sr_offchain_input q)
        @ u32_to_le_bytes (sr_relay_strategy q),
      co_decode_request = \<lambda>bs. Option.bind (unstuff bs) (\<lambda>(request, bs). Option.bind (unstuff bs) (\<lambda>(sig, bs).
        Option.bind (unstuff bs) (\<lambda>(inp, bs). map_option (\<lambda>w. \<lparr>sr_request = request, sr_signature = sig,
          sr_offchain_input = inp, sr_relay_strategy = w\<rparr>) (u32_from_le_bytes bs)))),
      co_encode_response = sjr_job_id,
      co_decode_response = \<lambda>bs. Some \<lparr>sjr_job_id = bs\<rparr>\<rparr>"

definition program_codec :: "(submit_program_request, submit_program_response) codec" where
  "program_codec =
     \<lparr>co_encode_request = \<lambda>q. stuff (spq_program_elf q) @ stuff (spq_program_id q) @ u32_to_le_bytes (spq_vm_type q),
      co_decode_request = \<lambda>bs. Option.bind (unstuff bs) (\<lambda>(elf, bs). Option.bind (unstuff bs) (\<lambda>(pid, bs).
        map_option (\<lambda>w. \<lparr>spq_program_elf = elf, spq_program_id = pid, spq_vm_type = w\<rparr>) (u32_from_le_bytes bs))),
      co_encode_response = spr_program_id,
      co_decode_response = \<lambda>bs. Some \<lparr>spr_program_id = bs\<rparr>\<rparr>"

definition sample_codecs :: grpc_codecs where
  "sample_codecs =
     \<lparr>gc_submit_job = job_codec,
      gc_get_result = \<lparr>co_encode_request = grq_job_id, co_decode_request = \<lambda>bs. Some \<lparr>grq_job_id = bs\<rparr>,
        co_encode_response = \<lambda>_. [], co_decode_response = \<lambda>_. None\<rparr>,
      gc_submit_program = program_codec,
      gc_get_pending_jobs = \<lparr>co_encode_request = gpq_consumer_address,
        co_decode_request = \<lambda>bs. Some \<lparr>gpq_consumer_address = bs\<rparr>,
        co_encode_response = \<lambda>_. [], co_decode_response = \<lambda>_. None\<rparr>,
      gc_contains_program = \<lparr>co_encode_request = cpq_program_id, co_decode_request = \<lambda>bs. Some \<lparr>cpq_program_id = bs\<rparr>,
        co_encode_response = \<lambda>_. [], co_decode_response = \<lambda>_. None\<rparr>\<rparr>"

lemma sample_codecs_faithful: "faithful job_codec" "faithful program_codec"
  by (simp_all add: faithful_def job_codec_def program_codec_def u32_le_roundtrip)

definition default_tonic :: "(unit, node) tonic_lib" where
  "default_tonic = sample_tonic
     \<lparr>tn_client_unary = \<lambda>_ _ _ _ _ n. (None, n), tn_server_unary = \<lambda>_ _ _ n. (None, n),
       tn_decode_error = \<lparr>st_code = 13, st_message = ''failed to decode Protobuf message''\<rparr>,
       tn_too_large = \<lambda>_ _. ''decoded message length too large''\<rparr>"

definition sample_channel :: "node channel" where
  "sample_channel = server_call default_tonic sample_codecs
     (rpc_server_new (node_service (\<lambda>_. []) sample_libs (\<lambda>_. None) sample_config None))"

text \<open>A program of two bytes is accepted and one of 4 MB refused.\<close>

theorem gateway_limited_by_grpc_witness:
  "fst (http_submit_program default_tonic sample_codecs rpc_client_new sample_channel
      \<lparr>spq_program_elf = [3, 4], spq_program_id = [3, 4], spq_vm_type = 0\<rparr> (node_start empty_db))
    = Some (200, Inr \<lparr>spr_program_id = [3, 4]\<rparr>)
   \<and> http_submit_program default_tonic sample_codecs rpc_client_new sample_channel
      \<lparr>spq_program_elf = replicate 4194304 0, spq_program_id = [], spq_vm_type = 0\<rparr> (node_start empty_db)
    = (Some (409, Inl \<lparr>er_message = ''decoded message length too large'', er_grpc_code = 11\<rparr>), node_start empty_db)"
proof -
  have carries: "tonic_carries default_tonic default_settings default_settings"
    unfolding default_tonic_def by (rule sample_tonic_carries)
  have codecs: "gc_submit_job sample_codecs = job_codec" "gc_submit_program sample_codecs = program_codec"
    by (simp_all add: sample_codecs_def)
  have laws: "faithful (gc_submit_job sample_codecs)" "faithful (gc_submit_program sample_codecs)"
    "\<forall>r. length (co_encode_response (gc_submit_job sample_codecs) r) \<le> length (sjr_job_id r) + 16"
    "\<forall>q. length (co_encode_response (gc_submit_program sample_codecs) \<lparr>spr_program_id = spq_program_id q\<rparr>)
       \<le> length (co_encode_request (gc_submit_program sample_codecs) q)"
    unfolding codecs using sample_codecs_faithful by (simp_all add: job_codec_def program_codec_def)
  note limited = conjunct2 [OF gateway_limited_by_grpc [OF carries laws sample_channel_def, where n = "node_start empty_db"],
      unfolded codecs]
  have program: "length (co_encode_request program_codec q) = 2 * length (spq_program_elf q) + 2 * length (spq_program_id q) + 6" for q
    by (simp add: program_codec_def)
  have "tn_too_large default_tonic k l = ''decoded message length too large''" for k l
    by (simp add: default_tonic_def)
  moreover have "fst (gateway_submit_program (\<lambda>_. []) sample_libs sample_config [3, 4] 0 [3, 4] (node_start empty_db))
      = (200, Inr [3, 4])"
    by (simp add: gateway_submit_program_def gateway_respond_def server_submit_program_def submit_elf_def
        vm_type_try_from_def get_elf_def node_start_def empty_db_def sample_config_def create_elf_def
        sp1_derive_program_id_def create_program_def sp1_derive_program_def sample_libs_def Let_def)
  ultimately show ?thesis
    using limited [of "\<lparr>spq_program_elf = [3, 4], spq_program_id = [3, 4], spq_vm_type = 0\<rparr>"]
      limited [of "\<lparr>spq_program_elf = replicate 4194304 0, spq_program_id = [], spq_vm_type = 0\<rparr>"]
    by (simp add: program Let_def)
qed

end
