(* ===== verification/ExecConfig.thy ===== *)
theory ExecConfig
  imports Prelude
begin

text \<open>
  The configuration of the execution client: the transaction allow list
  (\<^verbatim>\<open>bin/exec/src/config/transaction.rs\<close>), the forks that select it by block timestamp, their
  TOML form and the built-in networks (\<^verbatim>\<open>bin/exec/src/config/mod.rs\<close>), and the choice of a
  configuration at start (\<^verbatim>\<open>bin/exec/src/main.rs\<close>). A \<open>HashSet\<close> is a set; the TOML printer and
  parser are parameters, and what the file system answers is an input.
\<close>

section \<open>The allow list\<close>

record allow_config =
  ac_all :: bool
  ac_to :: "address set"
  ac_sender :: "address set"

definition allow_config_is_allowed :: "allow_config \<Rightarrow> address \<Rightarrow> address option \<Rightarrow> bool" where
  "allow_config_is_allowed self sender to =
     (if ac_all self then True
      else if (case to of Some t \<Rightarrow> t \<in> ac_to self | None \<Rightarrow> False) then True
      else sender \<in> ac_sender self)"

definition allow_config_default :: allow_config where
  "allow_config_default = \<lparr>ac_all = False, ac_to = {}, ac_sender = {}\<rparr>"

definition allow_config_allow_all :: allow_config where
  "allow_config_allow_all = allow_config_default\<lparr>ac_all := True\<rparr>"

definition allow_config_deny_all :: allow_config where
  "allow_config_deny_all = \<lparr>ac_all = False, ac_to = {}, ac_sender = {}\<rparr>"

definition add_to :: "allow_config \<Rightarrow> address \<Rightarrow> allow_config" where
  "add_to self to = self\<lparr>ac_to := insert to (ac_to self)\<rparr>"

definition add_sender :: "allow_config \<Rightarrow> address \<Rightarrow> allow_config" where
  "add_sender self sender = self\<lparr>ac_sender := insert sender (ac_sender self)\<rparr>"

definition set_all :: "allow_config \<Rightarrow> bool \<Rightarrow> allow_config" where
  "set_all self allow_all = self\<lparr>ac_all := allow_all\<rparr>"

section \<open>The configuration\<close>

record ivm_config =
  ic_forks :: "(u64, allow_config) btree"
  ic_priority_senders :: "address set"

definition is_allowed :: "ivm_config \<Rightarrow> address \<Rightarrow> address option \<Rightarrow> u64 \<Rightarrow> bool" where
  "is_allowed self sender to timestamp =
     (if timestamp = 0 then True
      else case bt_floor (ic_forks self) timestamp of
             Some (_, c) \<Rightarrow> allow_config_is_allowed c sender to
           | None \<Rightarrow> False)"

definition is_priority_sender :: "ivm_config \<Rightarrow> address \<Rightarrow> bool" where
  "is_priority_sender self sender \<longleftrightarrow> sender \<in> ic_priority_senders self"

definition config_allow_all :: ivm_config where
  "config_allow_all = \<lparr>ic_forks = bt_collect [(0, allow_config_allow_all)], ic_priority_senders = {}\<rparr>"

definition config_deny_all :: ivm_config where
  "config_deny_all = \<lparr>ic_forks = [], ic_priority_senders = {}\<rparr>"

definition config_default :: ivm_config where
  "config_default = config_deny_all"

definition set_fork :: "ivm_config \<Rightarrow> u64 \<Rightarrow> allow_config \<Rightarrow> ivm_config" where
  "set_fork self timestamp c = self\<lparr>ic_forks := bt_insert timestamp c (ic_forks self)\<rparr>"

section \<open>The TOML form and the file\<close>

record fork_toml =
  ft_activation_timestamp :: u64
  ft_allow_config :: allow_config

record config_toml =
  ct_forks :: "fork_toml list"
  ct_priority_senders :: "address set"

definition config_from_toml :: "config_toml \<Rightarrow> ivm_config" where
  "config_from_toml toml =
     \<lparr>ic_forks = bt_collect (map (\<lambda>f. (ft_activation_timestamp f, ft_allow_config f)) (ct_forks toml)),
      ic_priority_senders = ct_priority_senders toml\<rparr>"

definition config_to_toml :: "ivm_config \<Rightarrow> config_toml" where
  "config_to_toml c =
     \<lparr>ct_forks = map (\<lambda>(t, a). \<lparr>ft_activation_timestamp = t, ft_allow_config = a\<rparr>) (ic_forks c),
      ct_priority_senders = ic_priority_senders c\<rparr>"

text \<open>What the file system answers to reading, to creating the directory and to writing.\<close>

datatype read_result = ReadOk string | NotFound | ReadErr string

record file_system =
  fs_read :: read_result
  fs_has_parent :: bool
  fs_create_dir :: "string option"
  fs_write :: "string option"

text \<open>\<open>IvmConfig::from_path\<close>: the result and the text written, if any.\<close>

definition from_path :: "(string \<Rightarrow> string + config_toml) \<Rightarrow> (config_toml \<Rightarrow> string + string)
    \<Rightarrow> file_system \<Rightarrow> (string + ivm_config) \<times> string option" where
  "from_path from_str to_string_pretty fs =
     (case fs_read fs of
        ReadOk cfg_string \<Rightarrow>
          (case from_str cfg_string of
             Inl e \<Rightarrow> (Inl (''failed to parse TOML: '' @ e), None)
           | Inr cfg \<Rightarrow> (Inr (config_from_toml cfg), None))
      | NotFound \<Rightarrow>
          (case (if fs_has_parent fs then fs_create_dir fs else None) of
             Some e \<Rightarrow> (Inl (''failed to create directory: '' @ e), None)
           | None \<Rightarrow>
               (case to_string_pretty (config_to_toml config_default) of
                  Inl e \<Rightarrow> (Inl (''failed to serialize to TOML: '' @ e), None)
                | Inr s \<Rightarrow>
                    (case fs_write fs of
                       Some e \<Rightarrow> (Inl (''failed to write configuration file: '' @ e), None)
                     | None \<Rightarrow> (Inr config_default, Some s))))
      | ReadErr e \<Rightarrow> (Inl (''failed to load configuration: '' @ e), None))"

section \<open>Networks and the choice at start\<close>

datatype network = Suzuka | Monza

definition suzuka_senders :: "address list" where
  "suzuka_senders = [
     0x20f33ce90a13a4b5e7697e3544c3083b8f8a51d4,
     0xf8bbb414ff7f6d8061cb16b7c23685300b6b5527,
     0x367457e0f4ae06bd090795ebdf585e04f6ee2c7f,
     0x0a065cedfe7d1b9435152dde846aa1f2f4b49776,
     0xa3354f9024f4dea7199bc944b0f27d95ea6295b1,
     0x51e163d5fd1d98fa714241e8d60e2bf5c6166ebb,
     0x24e3ae70c81a16ac3fe5674e0556b769ea611cb6,
     0x100bbbad1a19b680d84e5c1370c21dd637d8a6ce,
     0xbb0b808cce0c4f780bdfce67674eb1d6d24c7e12,
     0xf9fa39d99d3f7c62bf52966a20af60e673d45f3e,
     0xf791e9a8db4ab69caaf0179fa6ed808010277d96,
     0xcc1e4f683ab0eef001d2dd6c5c87c07a15c71f70,
     0xb6da9b28619412d728be31643ee10b1001c7d463,
     0x3361cddea38de48e38a78d0c8e147c4b068ee710]"

definition suzuka_to :: "address list" where
  "suzuka_to = [
     0x4242424242424242424242424242424242424242,
     0xf1508594b19bc7c19e7ddc0c38d0f6034fc7cc2b,
     0xe28da10f95837b327bd541ec8eea5cf9191a3f02,
     0xa45f78c667fd0d4857b52705f5d69eacc8d21f33,
     0x0d558ed9bf39194b3addc46a686ea151b88758d7,
     0xcb22256e10095506bff52f38362a09f7622fb6ce,
     0x52e73d5849d368ee516dc136c418d265703b4065]"

definition monza_senders :: "address list" where
  "monza_senders = [
     0xe7a63aaf0afc13e559774917fc681ebabdf477ed,
     0x5bb4305ae8d6d227b8f2b4ec1e842c754ae4e089,
     0xccd8368aa81d10ba1100d5bb6645bf5426424751,
     0xbb5430a58ef147a21f3362da6be68dfb70bc6d95,
     0x93c2266960a9b278a062f685e0a119c867614a38,
     0x71dfbca871aece51e0ea1f2b7d8c91872cc6627a,
     0xbe5a8f4bb624e69c4a08a7ebe14856e0f081aa7b,
     0x67f20d73130373fcf21eb165a095f79099d221a6,
     0x090d9e39939440a2c9a94040c61daff8b7c3b192,
     0x2545ce5ae87283527a305fdc30a9c7167ca33dbc,
     0x2a22352a44b79e7771a5bef021591e114622bebb,
     0xf504f5f76a94145c75d04e495d307c4a88297966,
     0x20fe96e8783fba91acf07260b5fa40c3e655c5ff,
     0x20f33ce90a13a4b5e7697e3544c3083b8f8a51d4]"

definition monza_to :: "address list" where
  "monza_to = [0x4242424242424242424242424242424242424242]"

text \<open>Both branches build their only fork with the same two loops.\<close>

definition genesis_config :: "address list \<Rightarrow> address list \<Rightarrow> ivm_config" where
  "genesis_config addresses_sender addresses_to =
     (let (fork, priority_senders) =
            fold (\<lambda>addr (f, p). (add_sender f addr, insert addr p)) addresses_sender
              (allow_config_deny_all, {});
          fork0 = fold (\<lambda>addr f. add_to f addr) addresses_to fork
      in \<lparr>ic_forks = bt_collect [(0, fork0)], ic_priority_senders = priority_senders\<rparr>)"

fun from_network :: "network \<Rightarrow> ivm_config" where
  "from_network Suzuka = genesis_config suzuka_senders suzuka_to"
| "from_network Monza = genesis_config monza_senders monza_to"

record cli_ext =
  cli_ivm_config :: "string option"
  cli_allow_all :: bool
  cli_ivm_network :: "network option"

definition IVM_CONFIG_FILE :: string where
  "IVM_CONFIG_FILE = ''ivm_config.toml''"

text \<open>\<open>load path\<close> is \<open>IvmConfig::from_path\<close> on that path; \<open>join\<close> is \<open>Path::join\<close>.\<close>

definition choose_config :: "(string \<Rightarrow> string + ivm_config) \<Rightarrow> (string \<Rightarrow> string \<Rightarrow> string) \<Rightarrow> string
    \<Rightarrow> cli_ext \<Rightarrow> string + ivm_config" where
  "choose_config load join data_dir args =
     (if cli_allow_all args then Inr config_allow_all
      else case cli_ivm_network args of
             Some network \<Rightarrow> Inr (from_network network)
           | None \<Rightarrow>
               load (case cli_ivm_config args of
                       Some ivm_config \<Rightarrow> ivm_config
                     | None \<Rightarrow> join data_dir IVM_CONFIG_FILE))"

section \<open>Lemmas\<close>

definition config_ok :: "ivm_config \<Rightarrow> bool" where
  "config_ok c \<longleftrightarrow> bt_ok (ic_forks c)"

named_theorems allow_defs \<open>definitions of the allow list\<close>

lemmas [allow_defs] = allow_config_is_allowed_def allow_config_default_def allow_config_allow_all_def
  allow_config_deny_all_def add_to_def add_sender_def set_all_def

lemma config_ok_from_toml: "config_ok (config_from_toml t)"
  by (simp add: config_ok_def config_from_toml_def bt_ok_collect)

lemma config_toml_roundtrip: "config_ok c \<Longrightarrow> config_from_toml (config_to_toml c) = c"
  by (simp add: config_ok_def config_from_toml_def config_to_toml_def comp_def case_prod_beta bt_collect_ok)

lemma config_ok_set_fork: "config_ok c \<Longrightarrow> config_ok (set_fork c t a)"
  by (simp add: config_ok_def set_fork_def)

lemma fold_add_sender:
  "fold (\<lambda>addr (f, p). (add_sender f addr, insert addr p)) as (f, p) =
     (f\<lparr>ac_sender := set as \<union> ac_sender f\<rparr>, set as \<union> p)"
  by (induction as arbitrary: f p) (auto simp: add_sender_def)

lemma fold_add_to: "fold (\<lambda>addr f. add_to f addr) as f = f\<lparr>ac_to := set as \<union> ac_to f\<rparr>"
  by (induction as arbitrary: f) (auto simp: add_to_def)

lemma genesis_config_eq:
  "genesis_config ss ts =
     \<lparr>ic_forks = [(0, \<lparr>ac_all = False, ac_to = set ts, ac_sender = set ss\<rparr>)], ic_priority_senders = set ss\<rparr>"
  by (simp add: genesis_config_def fold_add_sender fold_add_to allow_config_deny_all_def bt_collect_def)

lemma config_ok_choice [simp]:
  "config_ok config_allow_all" "config_ok config_deny_all" "config_ok (from_network n)"
  by (simp_all add: config_ok_def config_allow_all_def config_deny_all_def bt_collect_def)
     (cases n; simp add: genesis_config_eq)

text \<open>The fork that governs a timestamp: the latest one not after it.\<close>

definition governing_fork :: "ivm_config \<Rightarrow> u64 \<Rightarrow> u64 \<Rightarrow> allow_config \<Rightarrow> bool" where
  "governing_fork c t k a \<longleftrightarrow> map_of (ic_forks c) k = Some a \<and> k \<le> t \<and>
     (\<forall>k' \<in> dom (map_of (ic_forks c)). k' \<le> t \<longrightarrow> k' \<le> k)"

lemma is_allowed_iff:
  assumes "config_ok c" and "t \<noteq> 0"
  shows "is_allowed c sender to t \<longleftrightarrow>
    (\<exists>k a. governing_fork c t k a \<and>
      (ac_all a \<or> sender \<in> ac_sender a \<or> (\<exists>x. to = Some x \<and> x \<in> ac_to a)))"
proof -
  have g: "governing_fork c t k a \<longleftrightarrow> bt_floor (ic_forks c) t = Some (k, a)" for k a
    using bt.floor_law [of "ic_forks c" t k a] assms(1) by (simp add: config_ok_def governing_fork_def)
  have a: "allow_config_is_allowed a sender to \<longleftrightarrow>
      ac_all a \<or> sender \<in> ac_sender a \<or> (\<exists>x. to = Some x \<and> x \<in> ac_to a)" for a
    by (cases to) (auto simp: allow_config_is_allowed_def)
  show ?thesis
  proof (cases "bt_floor (ic_forks c) t")
    case None
    then show ?thesis using assms(2) by (simp add: g is_allowed_def)
  next
    case (Some e)
    obtain k b where "e = (k, b)" by force
    then show ?thesis using Some assms(2) by (simp add: g is_allowed_def a)
  qed
qed

lemma is_allowed_set_future_fork:
  "config_ok c \<Longrightarrow> t < k \<Longrightarrow> is_allowed (set_fork c k a) sender to t = is_allowed c sender to t"
  by (simp add: is_allowed_def set_fork_def config_ok_def bt.floor_put_above_eq)

lemma is_allowed_genesis:
  "t \<noteq> 0 \<Longrightarrow> is_allowed (genesis_config ss ts) sender to t \<longleftrightarrow>
     sender \<in> set ss \<or> (\<exists>x. to = Some x \<and> x \<in> set ts)"
  by (auto simp: is_allowed_def genesis_config_eq bt_floor_def allow_defs split: option.splits)

lemma from_path_written:
  assumes "from_path from_str to_str fs = (r, Some s)"
    and "\<And>t s. to_str t = Inr s \<Longrightarrow> from_str s = Inr t"
  shows "r = Inr config_default \<and> fst (from_path from_str to_str (fs\<lparr>fs_read := ReadOk s\<rparr>)) = r"
  using assms
  by (auto simp: from_path_def config_default_def config_toml_roundtrip
      split: read_result.splits sum.splits option.splits if_splits)

end
