(* ===== verification/ExecPool.thy ===== *)
theory ExecPool
  imports ExecConfig "HOL-Library.Option_ord"
begin

text \<open>
  The transaction pool of the execution client: the validator, its builder and what a new head
  block does to it (\<^verbatim>\<open>bin/exec/src/pool/validator.rs\<close>), and the ordering
  (\<^verbatim>\<open>bin/exec/src/pool/mod.rs\<close>). What the validator takes from \<open>reth\<close> and \<open>alloy\<close> is the record
  \<open>pool_libs\<close>: the constants, the checks of intrinsic gas, init code size and blobs, and the
  accessors that strip a blob from a transaction. A transaction is the record of what the
  interface \<open>EthPoolTransaction\<close> answers about it. \<open>Option\<close> values are compared as in Rust, \<open>None\<close>
  below every \<open>Some\<close> (theory \<open>Option_ord\<close>).
\<close>

section \<open>Transactions, errors and outcomes\<close>

datatype 'b sidecar = SidecarNone | SidecarMissing | SidecarPresent 'b

record 'b pool_tx =
  tx_ty :: u8
  tx_is_eip1559 :: bool
  tx_is_eip4844 :: bool
  tx_is_eip7702 :: bool
  tx_hash :: b256
  tx_sender :: address
  tx_to :: "address option"
  tx_input :: bytes
  tx_gas_limit :: u64
  tx_max_fee_per_gas :: u128
  tx_max_priority_fee_per_gas :: "u128 option"
  tx_chain_id :: "u64 option"
  tx_nonce :: u64
  tx_authorizations :: "address list option"
  tx_blob_hashes :: "b256 list option"
  tx_sidecar :: "'b sidecar"

datatype invalid_tx =
    Eip2930Disabled | Eip1559Disabled | Eip4844Disabled | Eip7702Disabled
  | TxTypeNotSupported | TipAboveFeeCap | ChainIdMismatch | SignerAccountHasBytecode
  | NonceNotConsistent u64 u64

datatype pool_error =
    InvalidTx invalid_tx
  | OversizedData nat nat
  | ExceedsGasLimit u64 u64
  | Underpriced
  | MissingEip7702AuthorizationList
  | NoEip4844Blobs
  | TooManyEip4844Blobs u64 u64
  | MissingEip4844BlobSidecar
  | InvalidEip4844Blob string
  | LibraryCheck string
  | NonAllowedSenderAndRecipient

text \<open>\<open>PoolTransactionError::is_bad_transaction\<close> of the one error the validator adds.\<close>

definition non_allowed_is_bad_transaction :: bool where
  "non_allowed_is_bad_transaction = True"

datatype origin = Local | External | Private

datatype 'b outcome =
    Invalid "'b pool_tx" pool_error
  | OutcomeError b256 string
  | Valid (valid_balance: u256) (valid_state_nonce: u64) (valid_tx: "'b pool_tx")
      (valid_blob: "'b option") (valid_propagate: bool)

section \<open>The environment\<close>

record account =
  acc_nonce :: u64
  acc_balance :: u256
  acc_bytecode_hash :: "b256 option"

text \<open>\<open>Account::default()\<close>.\<close>

definition account_default :: account where
  "account_default = \<lparr>acc_nonce = 0, acc_balance = 0, acc_bytecode_hash = None\<rparr>"

text \<open>A state provider; \<open>sp_code_is_eip7702\<close> is \<open>bytecode_by_hash\<close> followed by
  \<open>unwrap_or_default().is_eip7702()\<close>.\<close>

record state_provider =
  sp_basic_account :: "address \<Rightarrow> string + account option"
  sp_code_is_eip7702 :: "b256 \<Rightarrow> string + bool"

record chain_spec =
  cs_chain_id :: u64
  cs_shanghai :: "u64 \<Rightarrow> bool"
  cs_cancun :: "u64 \<Rightarrow> bool"
  cs_prague :: "u64 \<Rightarrow> bool"

record fork_tracker =
  fk_shanghai :: bool
  fk_cancun :: bool
  fk_prague :: bool
  fk_max_blob_count :: u64

text \<open>\<open>LocalTransactionConfig\<close>: \<open>is_local\<close> of the library and the flag the code reads.\<close>

record local_config =
  lc_is_local :: "origin \<Rightarrow> address \<Rightarrow> bool"
  lc_propagate_local_transactions :: bool

record 'b pool_libs =
  pl_block_gas_limit_36m :: u64
  pl_default_max_tx_input_bytes :: nat
  pl_prague_max_blob_count :: u64
  pl_cancun_max_blob_count :: u64
  pl_default_local_config :: local_config
  pl_ensure_max_init_code_size :: "'b pool_tx \<Rightarrow> string option"
  pl_ensure_intrinsic_gas :: "'b pool_tx \<Rightarrow> fork_tracker \<Rightarrow> string option"
  pl_take_blob :: "'b pool_tx \<Rightarrow> 'b sidecar \<times> 'b pool_tx"
  pl_validate_blob :: "'b pool_tx \<Rightarrow> 'b \<Rightarrow> string option"
  pl_blob_store_contains :: "b256 \<Rightarrow> string + bool"

section \<open>The builder\<close>

record builder =
  bd_chain_spec :: chain_spec
  bd_shanghai :: bool
  bd_cancun :: bool
  bd_prague :: bool
  bd_eip2718 :: bool
  bd_eip1559 :: bool
  bd_eip4844 :: bool
  bd_eip7702 :: bool
  bd_block_gas_limit :: u64
  bd_minimum_priority_fee :: "u128 option"
  bd_additional_tasks :: nat
  bd_local_config :: local_config
  bd_max_tx_input_bytes :: nat

definition builder_new :: "'b pool_libs \<Rightarrow> chain_spec \<Rightarrow> builder" where
  "builder_new libs chain_spec =
     \<lparr>bd_chain_spec = chain_spec, bd_shanghai = True, bd_cancun = True, bd_prague = False,
      bd_eip2718 = True, bd_eip1559 = True, bd_eip4844 = True, bd_eip7702 = True,
      bd_block_gas_limit = pl_block_gas_limit_36m libs, bd_minimum_priority_fee = None,
      bd_additional_tasks = 1, bd_local_config = pl_default_local_config libs,
      bd_max_tx_input_bytes = pl_default_max_tx_input_bytes libs\<rparr>"

definition with_head_timestamp :: "builder \<Rightarrow> u64 \<Rightarrow> builder" where
  "with_head_timestamp self timestamp =
     self\<lparr>bd_cancun := cs_cancun (bd_chain_spec self) timestamp,
          bd_shanghai := cs_shanghai (bd_chain_spec self) timestamp,
          bd_prague := cs_prague (bd_chain_spec self) timestamp\<rparr>"

definition with_local_transactions_config :: "builder \<Rightarrow> local_config \<Rightarrow> builder" where
  "with_local_transactions_config self c = self\<lparr>bd_local_config := c\<rparr>"

definition with_minimum_priority_fee :: "builder \<Rightarrow> u128 \<Rightarrow> builder" where
  "with_minimum_priority_fee self fee = self\<lparr>bd_minimum_priority_fee := Some fee\<rparr>"

definition with_additional_tasks :: "builder \<Rightarrow> nat \<Rightarrow> builder" where
  "with_additional_tasks self n = self\<lparr>bd_additional_tasks := n\<rparr>"

definition with_max_tx_input_bytes :: "builder \<Rightarrow> nat \<Rightarrow> builder" where
  "with_max_tx_input_bytes self n = self\<lparr>bd_max_tx_input_bytes := n\<rparr>"

definition set_block_gas_limit :: "builder \<Rightarrow> u64 \<Rightarrow> builder" where
  "set_block_gas_limit self n = self\<lparr>bd_block_gas_limit := n\<rparr>"

definition set_shanghai :: "builder \<Rightarrow> bool \<Rightarrow> builder" where
  "set_shanghai self b = self\<lparr>bd_shanghai := b\<rparr>"

definition set_cancun :: "builder \<Rightarrow> bool \<Rightarrow> builder" where
  "set_cancun self b = self\<lparr>bd_cancun := b\<rparr>"

definition set_prague :: "builder \<Rightarrow> bool \<Rightarrow> builder" where
  "set_prague self b = self\<lparr>bd_prague := b\<rparr>"

definition set_eip2718 :: "builder \<Rightarrow> bool \<Rightarrow> builder" where
  "set_eip2718 self b = self\<lparr>bd_eip2718 := b\<rparr>"

definition set_eip1559 :: "builder \<Rightarrow> bool \<Rightarrow> builder" where
  "set_eip1559 self b = self\<lparr>bd_eip1559 := b\<rparr>"

definition set_eip4844 :: "builder \<Rightarrow> bool \<Rightarrow> builder" where
  "set_eip4844 self b = self\<lparr>bd_eip4844 := b\<rparr>"

definition no_shanghai :: "builder \<Rightarrow> builder" where
  "no_shanghai self = set_shanghai self False"

definition no_cancun :: "builder \<Rightarrow> builder" where
  "no_cancun self = set_cancun self False"

definition no_prague :: "builder \<Rightarrow> builder" where
  "no_prague self = set_prague self False"

definition no_eip2718 :: "builder \<Rightarrow> builder" where
  "no_eip2718 self = set_eip2718 self False"

definition no_eip1559 :: "builder \<Rightarrow> builder" where
  "no_eip1559 self = set_eip1559 self False"

definition no_eip4844 :: "builder \<Rightarrow> builder" where
  "no_eip4844 self = set_eip4844 self False"

section \<open>The validator\<close>

record validator =
  vd_chain_spec :: chain_spec
  vd_forks :: fork_tracker
  vd_eip2718 :: bool
  vd_eip1559 :: bool
  vd_eip4844 :: bool
  vd_eip7702 :: bool
  vd_block_gas_limit :: u64
  vd_minimum_priority_fee :: "u128 option"
  vd_local_config :: local_config
  vd_max_tx_input_bytes :: nat

record ivm_validator =
  iv_eth :: validator
  iv_config :: ivm_config
  iv_latest_timestamp :: u64

definition build :: "'b pool_libs \<Rightarrow> builder \<Rightarrow> ivm_config \<Rightarrow> ivm_validator" where
  "build libs self ivm_config =
     (let max_blob_count = (if bd_prague self then pl_prague_max_blob_count libs
                            else pl_cancun_max_blob_count libs);
          tracker = \<lparr>fk_shanghai = bd_shanghai self, fk_cancun = bd_cancun self,
            fk_prague = bd_prague self, fk_max_blob_count = max_blob_count\<rparr>;
          inner = \<lparr>vd_chain_spec = bd_chain_spec self, vd_forks = tracker,
            vd_eip2718 = bd_eip2718 self, vd_eip1559 = bd_eip1559 self, vd_eip4844 = bd_eip4844 self,
            vd_eip7702 = bd_eip7702 self, vd_block_gas_limit = bd_block_gas_limit self,
            vd_minimum_priority_fee = bd_minimum_priority_fee self,
            vd_local_config = bd_local_config self, vd_max_tx_input_bytes = bd_max_tx_input_bytes self\<rparr>
      in \<lparr>iv_eth = inner, iv_config = ivm_config, iv_latest_timestamp = 0\<rparr>)"

text \<open>The validator of the running node (\<open>IvmPoolBuilder::build_pool\<close>).\<close>

definition pool_validator :: "'b pool_libs \<Rightarrow> chain_spec \<Rightarrow> u64 \<Rightarrow> local_config \<Rightarrow> nat \<Rightarrow> ivm_config
    \<Rightarrow> ivm_validator" where
  "pool_validator libs spec head_timestamp local_config additional_tasks ivm_config =
     build libs
       (with_additional_tasks
         (with_local_transactions_config
           (with_head_timestamp (builder_new libs spec) head_timestamp) local_config) additional_tasks)
       ivm_config"

subsection \<open>The checks, in the order of the code\<close>

text \<open>The transaction type identifiers: legacy 0, EIP-2930 1, EIP-1559 2, EIP-4844 3, EIP-7702 4.\<close>

definition check_tx_type :: "validator \<Rightarrow> 'b pool_tx \<Rightarrow> pool_error option" where
  "check_tx_type self tx =
     (if tx_ty tx = 0 then None
      else if tx_ty tx = 1 then (if \<not> vd_eip2718 self then Some (InvalidTx Eip2930Disabled) else None)
      else if tx_ty tx = 2 then (if \<not> vd_eip1559 self then Some (InvalidTx Eip1559Disabled) else None)
      else if tx_ty tx = 3 then (if \<not> vd_eip4844 self then Some (InvalidTx Eip4844Disabled) else None)
      else if tx_ty tx = 4 then (if \<not> vd_eip7702 self then Some (InvalidTx Eip7702Disabled) else None)
      else Some (InvalidTx TxTypeNotSupported))"

definition check_size :: "'b pool_libs \<Rightarrow> validator \<Rightarrow> 'b pool_tx \<Rightarrow> pool_error option" where
  "check_size libs self tx =
     (let tx_input_len = length (tx_input tx) in
      if tx_input_len > vd_max_tx_input_bytes self
      then Some (OversizedData tx_input_len (vd_max_tx_input_bytes self))
      else if fk_shanghai (vd_forks self)
      then map_option LibraryCheck (pl_ensure_max_init_code_size libs tx)
      else None)"

definition check_gas_limit :: "validator \<Rightarrow> 'b pool_tx \<Rightarrow> pool_error option" where
  "check_gas_limit self tx =
     (if tx_gas_limit tx > vd_block_gas_limit self
      then Some (ExceedsGasLimit (tx_gas_limit tx) (vd_block_gas_limit self)) else None)"

definition check_fees :: "validator \<Rightarrow> origin \<Rightarrow> 'b pool_tx \<Rightarrow> pool_error option" where
  "check_fees self orig tx =
     (if tx_max_priority_fee_per_gas tx > Some (tx_max_fee_per_gas tx)
      then Some (InvalidTx TipAboveFeeCap)
      else if \<not> lc_is_local (vd_local_config self) orig (tx_sender tx) \<and> tx_is_eip1559 tx
        \<and> tx_max_priority_fee_per_gas tx < vd_minimum_priority_fee self
      then Some Underpriced
      else None)"

definition check_chain_id :: "validator \<Rightarrow> 'b pool_tx \<Rightarrow> pool_error option" where
  "check_chain_id self tx =
     (case tx_chain_id tx of
        Some chain_id \<Rightarrow> if chain_id \<noteq> cs_chain_id (vd_chain_spec self)
                         then Some (InvalidTx ChainIdMismatch) else None
      | None \<Rightarrow> None)"

definition check_eip7702 :: "validator \<Rightarrow> 'b pool_tx \<Rightarrow> pool_error option" where
  "check_eip7702 self tx =
     (if tx_is_eip7702 tx
      then if \<not> fk_prague (vd_forks self) then Some (InvalidTx TxTypeNotSupported)
           else if (case tx_authorizations tx of None \<Rightarrow> True | Some l \<Rightarrow> l = [])
           then Some MissingEip7702AuthorizationList
           else None
      else None)"

definition check_intrinsic_gas :: "'b pool_libs \<Rightarrow> validator \<Rightarrow> 'b pool_tx \<Rightarrow> pool_error option" where
  "check_intrinsic_gas libs self tx =
     map_option LibraryCheck (pl_ensure_intrinsic_gas libs tx (vd_forks self))"

text \<open>\<open>b.len() as u64\<close>.\<close>

definition blob_count :: "'b pool_tx \<Rightarrow> u64" where
  "blob_count tx = (case tx_blob_hashes tx of Some b \<Rightarrow> of_nat (length b) | None \<Rightarrow> 0)"

definition check_blob_count :: "validator \<Rightarrow> 'b pool_tx \<Rightarrow> pool_error option" where
  "check_blob_count self tx =
     (if tx_is_eip4844 tx
      then if \<not> fk_cancun (vd_forks self) then Some (InvalidTx TxTypeNotSupported)
           else if blob_count tx = 0 then Some NoEip4844Blobs
           else if blob_count tx > fk_max_blob_count (vd_forks self)
           then Some (TooManyEip4844Blobs (blob_count tx) (fk_max_blob_count (vd_forks self)))
           else None
      else None)"

text \<open>The checks before the state is read, each an early return of the function.\<close>

definition stateless_checks :: "'b pool_libs \<Rightarrow> validator \<Rightarrow> origin \<Rightarrow> 'b pool_tx
    \<Rightarrow> (pool_error option) list" where
  "stateless_checks libs self orig tx =
     [check_tx_type self tx, check_size libs self tx, check_gas_limit self tx,
      check_fees self orig tx, check_chain_id self tx, check_eip7702 self tx,
      check_intrinsic_gas libs self tx, check_blob_count self tx]"

fun first_error :: "('e option) list \<Rightarrow> 'e option" where
  "first_error [] = None"
| "first_error (Some e # cs) = Some e"
| "first_error (None # cs) = first_error cs"

text \<open>Whether the sender's code allows it to send: \<open>Inl\<close> is a failed read of the state.\<close>

definition sender_may_send :: "validator \<Rightarrow> state_provider \<Rightarrow> account \<Rightarrow> string + bool" where
  "sender_may_send self state a =
     (case acc_bytecode_hash a of
        None \<Rightarrow> Inr True
      | Some code_hash \<Rightarrow>
          if fk_prague (vd_forks self) then sp_code_is_eip7702 state code_hash else Inr False)"

text \<open>The heavy blob validation: the error, or the blob to store; the blob is taken out of the
  transaction first.\<close>

definition check_blob :: "'b pool_libs \<Rightarrow> 'b pool_tx \<Rightarrow> 'b pool_tx \<times> (pool_error + 'b option)" where
  "check_blob libs tx =
     (if tx_is_eip4844 tx
      then case pl_take_blob libs tx of
             (SidecarNone, tx') \<Rightarrow> (tx', Inl (InvalidTx TxTypeNotSupported))
           | (SidecarMissing, tx') \<Rightarrow>
               (tx', if pl_blob_store_contains libs (tx_hash tx') = Inr True then Inr None
                     else Inl MissingEip4844BlobSidecar)
           | (SidecarPresent blob, tx') \<Rightarrow>
               (tx', case pl_validate_blob libs tx' blob of
                       Some err \<Rightarrow> Inl (InvalidEip4844Blob err)
                     | None \<Rightarrow> Inr (Some blob))
      else (tx, Inr None))"

definition propagate :: "validator \<Rightarrow> origin \<Rightarrow> bool" where
  "propagate self orig = (case orig of
     External \<Rightarrow> True
   | Local \<Rightarrow> lc_propagate_local_transactions (vd_local_config self)
   | Private \<Rightarrow> False)"

text \<open>From the state provider on.\<close>

definition validate_with_state :: "'b pool_libs \<Rightarrow> validator \<Rightarrow> origin \<Rightarrow> 'b pool_tx \<Rightarrow> state_provider
    \<Rightarrow> 'b outcome" where
  "validate_with_state libs self orig tx state =
     (case sp_basic_account state (tx_sender tx) of
        Inl err \<Rightarrow> OutcomeError (tx_hash tx) err
      | Inr maybe_account \<Rightarrow>
          let a = (case maybe_account of Some a \<Rightarrow> a | None \<Rightarrow> account_default) in
          (case sender_may_send self state a of
             Inl err \<Rightarrow> OutcomeError (tx_hash tx) err
           | Inr False \<Rightarrow> Invalid tx (InvalidTx SignerAccountHasBytecode)
           | Inr True \<Rightarrow>
               if tx_nonce tx < acc_nonce a
               then Invalid tx (InvalidTx (NonceNotConsistent (tx_nonce tx) (acc_nonce a)))
               else case check_blob libs tx of
                      (tx', Inl err) \<Rightarrow> Invalid tx' err
                    | (tx', Inr maybe_blob) \<Rightarrow>
                        Valid (- 1) (acc_nonce a) tx' maybe_blob (propagate self orig)))"

text \<open>\<open>latest\<close> is \<open>client.latest()\<close>; the second component is \<open>maybe_state\<close> after the call.\<close>

definition validate_one_with_provider :: "'b pool_libs \<Rightarrow> (string + state_provider) \<Rightarrow> validator \<Rightarrow> origin
    \<Rightarrow> 'b pool_tx \<Rightarrow> state_provider option \<Rightarrow> 'b outcome \<times> state_provider option" where
  "validate_one_with_provider libs latest self orig tx maybe_state =
     (case first_error (stateless_checks libs self orig tx) of
        Some err \<Rightarrow> (Invalid tx err, maybe_state)
      | None \<Rightarrow>
          (case maybe_state of
             Some state \<Rightarrow> (validate_with_state libs self orig tx state, maybe_state)
           | None \<Rightarrow>
               (case latest of
                  Inl err \<Rightarrow> (OutcomeError (tx_hash tx) err, None)
                | Inr state \<Rightarrow> (validate_with_state libs self orig tx state, Some state))))"

definition eth_validate_one :: "'b pool_libs \<Rightarrow> (string + state_provider) \<Rightarrow> validator \<Rightarrow> origin
    \<Rightarrow> 'b pool_tx \<Rightarrow> 'b outcome" where
  "eth_validate_one libs latest self orig tx =
     fst (validate_one_with_provider libs latest self orig tx None)"

definition validate_one :: "'b pool_libs \<Rightarrow> (string + state_provider) \<Rightarrow> ivm_validator \<Rightarrow> origin
    \<Rightarrow> 'b pool_tx \<Rightarrow> 'b outcome" where
  "validate_one libs latest self orig tx =
     (if \<not> is_allowed (iv_config self) (tx_sender tx) (tx_to tx) (iv_latest_timestamp self)
      then Invalid tx NonAllowedSenderAndRecipient
      else eth_validate_one libs latest (iv_eth self) orig tx)"

text \<open>\<open>latest i\<close> is what \<open>client.latest()\<close> answers to the \<open>i\<close>-th call.\<close>

definition validate_all :: "'b pool_libs \<Rightarrow> (nat \<Rightarrow> string + state_provider) \<Rightarrow> ivm_validator
    \<Rightarrow> (origin \<times> 'b pool_tx) list \<Rightarrow> 'b outcome list" where
  "validate_all libs latest self transactions =
     map (\<lambda>(i, orig, tx). validate_one libs (latest i) self orig tx) (enumerate 0 transactions)"

subsection \<open>A new head block\<close>

record head_block =
  hb_timestamp :: u64
  hb_gas_limit :: u64

definition eth_on_new_head_block :: "validator \<Rightarrow> head_block \<Rightarrow> validator" where
  "eth_on_new_head_block self b =
     (let spec = vd_chain_spec self; f0 = vd_forks self;
          f1 = (if cs_cancun spec (hb_timestamp b) then f0\<lparr>fk_cancun := True\<rparr> else f0);
          f2 = (if cs_shanghai spec (hb_timestamp b) then f1\<lparr>fk_shanghai := True\<rparr> else f1);
          f3 = (if cs_prague spec (hb_timestamp b) then f2\<lparr>fk_prague := True\<rparr> else f2)
      in self\<lparr>vd_forks := f3, vd_block_gas_limit := hb_gas_limit b\<rparr>)"

definition on_new_head_block :: "ivm_validator \<Rightarrow> head_block \<Rightarrow> ivm_validator" where
  "on_new_head_block self b =
     self\<lparr>iv_eth := eth_on_new_head_block (iv_eth self) b, iv_latest_timestamp := hb_timestamp b\<rparr>"

section \<open>Ordering\<close>

text \<open>\<open>GaslessOrdering\<close>; the pool itself is built with the library's \<open>CoinbaseTipOrdering\<close>.\<close>

definition gasless_priority :: "ivm_config \<Rightarrow> 'b pool_tx \<Rightarrow> u64 \<Rightarrow> u32" where
  "gasless_priority config tx base_fee = (if is_priority_sender config (tx_sender tx) then 1 else 0)"

section \<open>The checks as rules\<close>

lemma first_error_None: "first_error cs = None \<longleftrightarrow> list_all (\<lambda>c. c = None) cs"
  by (induction cs rule: first_error.induct) auto

lemma first_error_SomeD: "first_error cs = Some e \<Longrightarrow> Some e \<in> set cs"
  by (induction cs rule: first_error.induct) auto

text \<open>What the pool asks of a transaction by itself, whatever the order of the checks.\<close>

definition type_enabled :: "validator \<Rightarrow> 'b pool_tx \<Rightarrow> bool" where
  "type_enabled self tx \<longleftrightarrow> tx_ty tx = 0 \<or> tx_ty tx = 1 \<and> vd_eip2718 self
     \<or> tx_ty tx = 2 \<and> vd_eip1559 self \<or> tx_ty tx = 3 \<and> vd_eip4844 self \<or> tx_ty tx = 4 \<and> vd_eip7702 self"

definition size_ok :: "'b pool_libs \<Rightarrow> validator \<Rightarrow> 'b pool_tx \<Rightarrow> bool" where
  "size_ok libs self tx \<longleftrightarrow> length (tx_input tx) \<le> vd_max_tx_input_bytes self
     \<and> (fk_shanghai (vd_forks self) \<longrightarrow> pl_ensure_max_init_code_size libs tx = None)"

definition fees_ok :: "validator \<Rightarrow> origin \<Rightarrow> 'b pool_tx \<Rightarrow> bool" where
  "fees_ok self orig tx \<longleftrightarrow>
     (\<forall>p. tx_max_priority_fee_per_gas tx = Some p \<longrightarrow> p \<le> tx_max_fee_per_gas tx)
     \<and> (lc_is_local (vd_local_config self) orig (tx_sender tx) \<or> \<not> tx_is_eip1559 tx
        \<or> (\<forall>m. vd_minimum_priority_fee self = Some m \<longrightarrow>
             (\<exists>p. tx_max_priority_fee_per_gas tx = Some p \<and> m \<le> p)))"

definition kind_ok :: "validator \<Rightarrow> 'b pool_tx \<Rightarrow> bool" where
  "kind_ok self tx \<longleftrightarrow>
     (tx_is_eip7702 tx \<longrightarrow> fk_prague (vd_forks self) \<and> (\<exists>x xs. tx_authorizations tx = Some (x # xs)))
     \<and> (tx_is_eip4844 tx \<longrightarrow> fk_cancun (vd_forks self) \<and> blob_count tx \<noteq> 0
          \<and> blob_count tx \<le> fk_max_blob_count (vd_forks self))"

definition admissible :: "'b pool_libs \<Rightarrow> validator \<Rightarrow> origin \<Rightarrow> 'b pool_tx \<Rightarrow> bool" where
  "admissible libs self orig tx \<longleftrightarrow>
     type_enabled self tx \<and> size_ok libs self tx \<and> tx_gas_limit tx \<le> vd_block_gas_limit self
     \<and> fees_ok self orig tx \<and> (\<forall>c. tx_chain_id tx = Some c \<longrightarrow> c = cs_chain_id (vd_chain_spec self))
     \<and> pl_ensure_intrinsic_gas libs tx (vd_forks self) = None \<and> kind_ok self tx"

named_theorems check_defs \<open>definitions of the single checks\<close>

lemmas [check_defs] = check_tx_type_def check_size_def check_gas_limit_def check_fees_def
  check_chain_id_def check_eip7702_def check_intrinsic_gas_def check_blob_count_def

lemma check_tx_type_None: "check_tx_type self tx = None \<longleftrightarrow> type_enabled self tx"
  by (simp add: check_defs type_enabled_def)

lemma check_size_None: "check_size libs self tx = None \<longleftrightarrow> size_ok libs self tx"
  by (auto simp: check_defs size_ok_def Let_def)

lemma check_fees_None: "check_fees self orig tx = None \<longleftrightarrow> fees_ok self orig tx"
  by (cases "tx_max_priority_fee_per_gas tx"; cases "vd_minimum_priority_fee self")
     (auto simp: check_defs fees_ok_def not_less)

lemma check_kind_None:
  "check_eip7702 self tx = None \<and> check_blob_count self tx = None \<longleftrightarrow> kind_ok self tx"
  by (auto simp: check_defs kind_ok_def not_less neq_Nil_conv split: option.splits list.splits)

lemma stateless_checks_None:
  "first_error (stateless_checks libs self orig tx) = None \<longleftrightarrow> admissible libs self orig tx"
proof -
  have "check_gas_limit self tx = None \<longleftrightarrow> tx_gas_limit tx \<le> vd_block_gas_limit self"
    by (auto simp: check_defs not_le)
  moreover have "check_chain_id self tx = None \<longleftrightarrow>
      (\<forall>c. tx_chain_id tx = Some c \<longrightarrow> c = cs_chain_id (vd_chain_spec self))"
    by (cases "tx_chain_id tx") (auto simp: check_defs)
  moreover have "check_intrinsic_gas libs self tx = None \<longleftrightarrow>
      pl_ensure_intrinsic_gas libs tx (vd_forks self) = None"
    by (simp add: check_defs)
  ultimately show ?thesis
    unfolding first_error_None stateless_checks_def admissible_def check_kind_None [symmetric]
    by (auto simp: check_tx_type_None check_size_None check_fees_None)
qed

text \<open>What it asks of the sender's account, and of the blob.\<close>

definition sender_ok :: "validator \<Rightarrow> state_provider \<Rightarrow> 'b pool_tx \<Rightarrow> u64 \<Rightarrow> bool" where
  "sender_ok self state tx nonce \<longleftrightarrow>
     (\<exists>ma. sp_basic_account state (tx_sender tx) = Inr ma \<and>
       (case ma of None \<Rightarrow> nonce = 0
        | Some a \<Rightarrow> nonce = acc_nonce a \<and> nonce \<le> tx_nonce tx
            \<and> (\<forall>h. acc_bytecode_hash a = Some h \<longrightarrow>
                 fk_prague (vd_forks self) \<and> sp_code_is_eip7702 state h = Inr True)))"

lemma validate_with_state_Valid:
  "validate_with_state libs self orig tx state = Valid b n tx' blob p \<longleftrightarrow>
     sender_ok self state tx n \<and> check_blob libs tx = (tx', Inr blob) \<and> b = - 1 \<and> p = propagate self orig"
proof (cases "sp_basic_account state (tx_sender tx)")
  case (Inl e)
  then show ?thesis by (simp add: validate_with_state_def sender_ok_def)
next
  case (Inr ma)
  have c: "(case check_blob libs tx of (t, Inl err) \<Rightarrow> Invalid t err
      | (t, Inr mb) \<Rightarrow> Valid (- 1) k t mb (propagate self orig)) = Valid b n tx' blob p \<longleftrightarrow>
      check_blob libs tx = (tx', Inr blob) \<and> b = - 1 \<and> n = k \<and> p = propagate self orig" for k
    by (auto split: prod.splits sum.splits)
  show ?thesis
  proof (cases ma)
    case None
    then show ?thesis using Inr
      by (auto simp: validate_with_state_def sender_ok_def sender_may_send_def account_default_def c)
  next
    case (Some a)
    show ?thesis
    proof (cases "acc_bytecode_hash a")
      case None
      then show ?thesis using Inr \<open>ma = Some a\<close>
        by (auto simp: validate_with_state_def sender_ok_def sender_may_send_def c not_less)
    next
      case (Some h)
      then show ?thesis using Inr \<open>ma = Some a\<close>
        by (cases "fk_prague (vd_forks self)"; cases "sp_code_is_eip7702 state h")
           (auto simp: validate_with_state_def sender_ok_def sender_may_send_def c not_less split: bool.splits)
    qed
  qed
qed

lemma eth_validate_one_Valid:
  "eth_validate_one libs latest self orig tx = Valid b n tx' blob p \<longleftrightarrow>
     admissible libs self orig tx \<and>
     (\<exists>state. latest = Inr state \<and> sender_ok self state tx n) \<and>
     check_blob libs tx = (tx', Inr blob) \<and> b = - 1 \<and> p = propagate self orig"
  unfolding stateless_checks_None [symmetric]
  by (cases "first_error (stateless_checks libs self orig tx)"; cases latest)
     (auto simp: eth_validate_one_def validate_one_with_provider_def validate_with_state_Valid)

lemma checks_not_non_allowed:
  "check_tx_type self tx \<noteq> Some NonAllowedSenderAndRecipient"
  "check_size libs self tx \<noteq> Some NonAllowedSenderAndRecipient"
  "check_gas_limit self tx \<noteq> Some NonAllowedSenderAndRecipient"
  "check_fees self orig tx \<noteq> Some NonAllowedSenderAndRecipient"
  "check_chain_id self tx \<noteq> Some NonAllowedSenderAndRecipient"
  "check_eip7702 self tx \<noteq> Some NonAllowedSenderAndRecipient"
  "check_intrinsic_gas libs self tx \<noteq> Some NonAllowedSenderAndRecipient"
  "check_blob_count self tx \<noteq> Some NonAllowedSenderAndRecipient"
  by (simp_all add: check_defs Let_def split: option.splits)

lemma first_error_not_non_allowed:
  "first_error (stateless_checks libs self orig tx) \<noteq> Some NonAllowedSenderAndRecipient"
proof
  assume "first_error (stateless_checks libs self orig tx) = Some NonAllowedSenderAndRecipient"
  then have "Some NonAllowedSenderAndRecipient \<in> set (stateless_checks libs self orig tx)"
    by (rule first_error_SomeD)
  then show False
    by (simp add: stateless_checks_def checks_not_non_allowed [symmetric] del: not_None_eq)
qed

lemma validate_with_state_not_non_allowed:
  "validate_with_state libs self orig tx state \<noteq> Invalid tx' NonAllowedSenderAndRecipient"
  by (auto simp: validate_with_state_def check_blob_def Let_def split: sum.splits if_splits bool.splits
      prod.splits sidecar.splits option.splits)

lemma eth_validate_one_not_non_allowed:
  "eth_validate_one libs latest self orig tx \<noteq> Invalid tx' NonAllowedSenderAndRecipient"
  using first_error_not_non_allowed [of libs self orig tx]
  by (auto simp: eth_validate_one_def validate_one_with_provider_def validate_with_state_not_non_allowed
      split: option.splits sum.splits)

section \<open>Head blocks\<close>

text \<open>The validator as a machine that receives head blocks, and what they have made of it.\<close>

definition head_step :: "ivm_validator \<Rightarrow> head_block \<Rightarrow> ivm_validator \<times> unit list" where
  "head_step v b = (on_new_head_block v b, [])"

definition forks_after :: "validator \<Rightarrow> head_block list \<Rightarrow> fork_tracker" where
  "forks_after e bs =
     \<lparr>fk_shanghai = fk_shanghai (vd_forks e) \<or> (\<exists>b \<in> set bs. cs_shanghai (vd_chain_spec e) (hb_timestamp b)),
      fk_cancun = fk_cancun (vd_forks e) \<or> (\<exists>b \<in> set bs. cs_cancun (vd_chain_spec e) (hb_timestamp b)),
      fk_prague = fk_prague (vd_forks e) \<or> (\<exists>b \<in> set bs. cs_prague (vd_chain_spec e) (hb_timestamp b)),
      fk_max_blob_count = fk_max_blob_count (vd_forks e)\<rparr>"

definition after_heads :: "ivm_validator \<Rightarrow> head_block list \<Rightarrow> ivm_validator" where
  "after_heads v bs =
     v\<lparr>iv_eth := (iv_eth v)\<lparr>vd_forks := forks_after (iv_eth v) bs,
          vd_block_gas_limit := (if bs = [] then vd_block_gas_limit (iv_eth v) else hb_gas_limit (last bs))\<rparr>,
       iv_latest_timestamp := (if bs = [] then iv_latest_timestamp v else hb_timestamp (last bs))\<rparr>"

lemma after_heads_snoc: "on_new_head_block (after_heads v bs) b = after_heads v (bs @ [b])"
  by (simp add: on_new_head_block_def after_heads_def eth_on_new_head_block_def forks_after_def Let_def)

interpretation heads: event_machine "\<lambda>_ _. True" head_step "\<lambda>v bs _. v = after_heads start bs" for start
  by unfold_locales (simp add: head_step_def after_heads_snoc)

definition run_heads :: "ivm_validator \<Rightarrow> head_block list \<Rightarrow> ivm_validator" where
  "run_heads v bs = fst (run_events head_step v bs)"

lemma enabled_run_True: "enabled_run (\<lambda>_ _. True) step s es"
  by (induction es arbitrary: s) auto

lemma after_heads_Nil: "after_heads v [] = v"
  by (simp add: after_heads_def forks_after_def)

lemma run_heads_eq: "run_heads v bs = after_heads v bs"
proof -
  obtain v' os where r: "run_events head_step v bs = (v', os)" by force
  then have "v' = after_heads v bs"
    by (rule heads.run_inv_start [where start = v and s = v and fs = bs and os' = os, rotated 2])
       (simp_all add: after_heads_Nil enabled_run_True)
  with r show ?thesis by (simp add: run_heads_def)
qed

section \<open>Properties\<close>

text \<open>A small environment for the witnesses.\<close>

definition sample_pool_libs :: "bytes pool_libs" where
  "sample_pool_libs = \<lparr>pl_block_gas_limit_36m = 36000000, pl_default_max_tx_input_bytes = 131072,
     pl_prague_max_blob_count = 9, pl_cancun_max_blob_count = 6,
     pl_default_local_config = \<lparr>lc_is_local = (\<lambda>orig _. orig = Local), lc_propagate_local_transactions = True\<rparr>,
     pl_ensure_max_init_code_size = (\<lambda>_. None), pl_ensure_intrinsic_gas = (\<lambda>_ _. None),
     pl_take_blob = (\<lambda>tx. (tx_sidecar tx, tx\<lparr>tx_sidecar := SidecarMissing\<rparr>)),
     pl_validate_blob = (\<lambda>_ _. None), pl_blob_store_contains = (\<lambda>_. Inr False)\<rparr>"

text \<open>A chain with Shanghai and Cancun from the start and Prague from timestamp 100.\<close>

definition sample_spec :: chain_spec where
  "sample_spec = \<lparr>cs_chain_id = 1, cs_shanghai = (\<lambda>_. True), cs_cancun = (\<lambda>_. True), cs_prague = (\<lambda>t. 100 \<le> t)\<rparr>"

definition sample_blob_tx :: "nat \<Rightarrow> bytes pool_tx" where
  "sample_blob_tx n = \<lparr>tx_ty = 3, tx_is_eip1559 = False, tx_is_eip4844 = True, tx_is_eip7702 = False,
     tx_hash = 5, tx_sender = 7, tx_to = Some 8, tx_input = [], tx_gas_limit = 21000,
     tx_max_fee_per_gas = 0, tx_max_priority_fee_per_gas = Some 0, tx_chain_id = Some 1, tx_nonce = 0,
     tx_authorizations = None, tx_blob_hashes = Some (replicate n 1), tx_sidecar = SidecarPresent [1]\<rparr>"

definition sample_provider :: state_provider where
  "sample_provider = \<lparr>sp_basic_account = (\<lambda>_. Inr (Some \<lparr>acc_nonce = 0, acc_balance = 0, acc_bytecode_hash = None\<rparr>)),
     sp_code_is_eip7702 = (\<lambda>_. Inr False)\<rparr>"

definition sample_validator :: "ivm_config \<Rightarrow> u64 \<Rightarrow> ivm_validator" where
  "sample_validator c t = pool_validator sample_pool_libs sample_spec t
     (pl_default_local_config sample_pool_libs) 1 c"

text \<open>
  C16. The pool accepts a transaction exactly when it satisfies every rule, in whatever order the code
  checks them: the allow list, the rules on the transaction by itself (enabled type, size, gas limit,
  fees, chain, intrinsic gas, and the conditions of its kind), the rules on the sender's account (no
  code other than a delegation, a nonce that is not used up) and the rules on its blob. It is then
  reported with the largest balance, the account's nonce, and a propagation that depends on the origin.
\<close>

theorem pool_accepts_exactly:
  "validate_one libs latest v orig tx = Valid b n tx' blob p \<longleftrightarrow>
     is_allowed (iv_config v) (tx_sender tx) (tx_to tx) (iv_latest_timestamp v)
     \<and> type_enabled (iv_eth v) tx \<and> size_ok libs (iv_eth v) tx
     \<and> tx_gas_limit tx \<le> vd_block_gas_limit (iv_eth v) \<and> fees_ok (iv_eth v) orig tx
     \<and> tx_chain_id tx \<in> {None, Some (cs_chain_id (vd_chain_spec (iv_eth v)))}
     \<and> pl_ensure_intrinsic_gas libs tx (vd_forks (iv_eth v)) = None \<and> kind_ok (iv_eth v) tx
     \<and> (\<exists>state. latest = Inr state \<and> sender_ok (iv_eth v) state tx n)
     \<and> check_blob libs tx = (tx', Inr blob) \<and> b = - 1 \<and> p = propagate (iv_eth v) orig"
  by (cases "tx_chain_id tx") (auto simp: validate_one_def eth_validate_one_Valid admissible_def)

text \<open>
  The provider with other balances.
\<close>

definition with_balances :: "(address \<Rightarrow> u256) \<Rightarrow> state_provider \<Rightarrow> state_provider" where
  "with_balances bal sp = sp\<lparr>sp_basic_account :=
     (\<lambda>a. map_sum id (map_option (\<lambda>acc. acc\<lparr>acc_balance := bal a\<rparr>)) (sp_basic_account sp a))\<rparr>"

lemma sender_may_send_balance:
  "sender_may_send self sp (a\<lparr>acc_balance := x\<rparr>) = sender_may_send self sp a"
  "sender_may_send self (with_balances bal sp) a = sender_may_send self sp a"
  by (simp_all add: sender_may_send_def with_balances_def split: option.split)

lemma validate_with_state_balances:
  "validate_with_state libs self orig tx (with_balances bal sp) = validate_with_state libs self orig tx sp"
proof (cases "sp_basic_account sp (tx_sender tx)")
  case (Inl e)
  then show ?thesis by (simp add: validate_with_state_def with_balances_def)
next
  case (Inr ma)
  then have "sp_basic_account (with_balances bal sp) (tx_sender tx) =
      Inr (map_option (\<lambda>acc. acc\<lparr>acc_balance := bal (tx_sender tx)\<rparr>) ma)"
    by (simp add: with_balances_def)
  with Inr show ?thesis
    by (cases ma) (simp_all add: validate_with_state_def sender_may_send_balance Let_def
        split: sum.split bool.split)
qed

text \<open>
  Transactions are accepted without funds: whatever balances the accounts have, the outcome of the
  validation is the same.
\<close>

theorem validation_ignores_balances:
  "validate_one libs (map_sum id (with_balances bal) latest) v orig tx = validate_one libs latest v orig tx"
  by (cases latest) (simp_all add: validate_one_def eth_validate_one_def validate_one_with_provider_def
      validate_with_state_balances split: option.splits)

text \<open>
  C35. The allow list is that of the head: after any head blocks, a transaction is refused as not
  allowed exactly when there was a block, the timestamp of the last one is not zero, and the fork of
  the configuration that governs this timestamp (the latest not after it) allows neither the sender
  nor the recipient nor everything. Until the first head block nobody is refused for that reason.
\<close>

theorem allow_list_enforced_by_head:
  assumes "config_ok c"
  shows "validate_one libs latest (run_heads (pool_validator libs spec t0 lc k c) bs) orig tx
      = Invalid tx NonAllowedSenderAndRecipient \<longleftrightarrow>
    bs \<noteq> [] \<and> hb_timestamp (last bs) \<noteq> 0 \<and>
    \<not> (\<exists>k a. governing_fork c (hb_timestamp (last bs)) k a \<and>
         (ac_all a \<or> tx_sender tx \<in> ac_sender a \<or> (\<exists>x. tx_to tx = Some x \<and> x \<in> ac_to a)))"
proof -
  let ?v = "run_heads (pool_validator libs spec t0 lc k c) bs"
  have v: "iv_config ?v = c" "iv_latest_timestamp ?v = (if bs = [] then 0 else hb_timestamp (last bs))"
    by (simp_all add: run_heads_eq after_heads_def pool_validator_def build_def Let_def)
  have "validate_one libs latest ?v orig tx = Invalid tx NonAllowedSenderAndRecipient \<longleftrightarrow>
      \<not> is_allowed c (tx_sender tx) (tx_to tx) (iv_latest_timestamp ?v)"
    by (simp add: validate_one_def v(1) eth_validate_one_not_non_allowed)
  moreover have "is_allowed c (tx_sender tx) (tx_to tx) 0" by (simp add: is_allowed_def)
  ultimately show ?thesis
    using is_allowed_iff [OF assms, of "hb_timestamp (last bs)" "tx_sender tx" "tx_to tx"]
    by (cases "bs = [] \<or> hb_timestamp (last bs) = 0") (auto simp: v(2))
qed

theorem allow_list_enforced_by_head_witness:
  "validate_one sample_pool_libs (Inl ''unavailable'')
     (run_heads (sample_validator (from_network Monza) 0) [\<lparr>hb_timestamp = 50, hb_gas_limit = 0\<rparr>])
     External (sample_blob_tx 1) = Invalid (sample_blob_tx 1) NonAllowedSenderAndRecipient"
proof -
  have g: "governing_fork (from_network Monza) t k a \<Longrightarrow>
      a = \<lparr>ac_all = False, ac_to = set monza_to, ac_sender = set monza_senders\<rparr>" for t k a
    by (auto simp: governing_fork_def genesis_config_eq split: if_splits)
  show ?thesis
    unfolding sample_validator_def allow_list_enforced_by_head [OF config_ok_choice(3)]
    by (auto dest!: g simp: monza_senders_def monza_to_def sample_blob_tx_def simp del: from_network.simps)
qed

text \<open>
  What head blocks do to the validator: a fork is active as soon as one block's timestamp has it,
  and stays active whatever comes later; the gas limit is that of the last block; the limit on blobs
  is that of the start.
\<close>

theorem head_blocks_exact:
  "let e = iv_eth v; spec = vd_chain_spec e; w = iv_eth (run_heads v bs) in
     fk_shanghai (vd_forks w) = (fk_shanghai (vd_forks e) \<or> list_ex (\<lambda>b. cs_shanghai spec (hb_timestamp b)) bs)
     \<and> fk_cancun (vd_forks w) = (fk_cancun (vd_forks e) \<or> list_ex (\<lambda>b. cs_cancun spec (hb_timestamp b)) bs)
     \<and> fk_prague (vd_forks w) = (fk_prague (vd_forks e) \<or> list_ex (\<lambda>b. cs_prague spec (hb_timestamp b)) bs)
     \<and> fk_max_blob_count (vd_forks w) = fk_max_blob_count (vd_forks e)
     \<and> vd_block_gas_limit w = last (vd_block_gas_limit e # map hb_gas_limit bs)
     \<and> w\<lparr>vd_forks := vd_forks e, vd_block_gas_limit := vd_block_gas_limit e\<rparr> = e"
  by (auto simp: run_heads_eq after_heads_def forks_after_def list_ex_iff last_map Let_def)

text \<open>
  C39. A node that was started before Prague keeps Cancun's limit on blobs: when a head block has
  activated Prague, it refuses every blob transaction above the old limit, while a node started at
  that block admits its number of blobs.
\<close>

theorem prague_blob_limit_stale:
  assumes "\<not> cs_prague spec t0" and "cs_prague spec (hb_timestamp b)" and "cs_cancun spec (hb_timestamp b)"
    and "tx_is_eip4844 tx" and "pl_cancun_max_blob_count libs < blob_count tx"
    and "blob_count tx \<le> pl_prague_max_blob_count libs"
  shows "fk_prague (vd_forks (iv_eth (run_heads (pool_validator libs spec t0 lc k c) (bs @ [b]))))
    \<and> \<not> (\<exists>bal n tx' blob p. validate_one libs latest
          (run_heads (pool_validator libs spec t0 lc k c) (bs @ [b])) orig tx = Valid bal n tx' blob p)
    \<and> check_blob_count (iv_eth (pool_validator libs spec (hb_timestamp b) lc k c)) tx = None"
proof -
  let ?v = "run_heads (pool_validator libs spec t0 lc k c) (bs @ [b])"
  have f: "fk_prague (vd_forks (iv_eth ?v))" "fk_max_blob_count (vd_forks (iv_eth ?v)) = pl_cancun_max_blob_count libs"
    using assms(1,2)
    by (simp_all add: run_heads_eq after_heads_def forks_after_def pool_validator_def build_def Let_def
        builder_new_def with_head_timestamp_def with_local_transactions_config_def with_additional_tasks_def)
  then have "\<not> kind_ok (iv_eth ?v) tx" using assms(4,5) by (auto simp: kind_ok_def not_le)
  moreover have "check_blob_count (iv_eth (pool_validator libs spec (hb_timestamp b) lc k c)) tx = None"
    using assms(2-6)
    by (auto simp: check_blob_count_def pool_validator_def build_def Let_def
        builder_new_def with_head_timestamp_def with_local_transactions_config_def with_additional_tasks_def)
  ultimately show ?thesis using f(1) by (simp add: validate_one_def eth_validate_one_Valid admissible_def)
qed

theorem prague_blob_limit_stale_witness:
  "\<not> (\<exists>bal n tx' blob p. validate_one sample_pool_libs (Inr sample_provider)
      (run_heads (sample_validator config_allow_all 50) [\<lparr>hb_timestamp = 100, hb_gas_limit = 36000000\<rparr>])
      External (sample_blob_tx 7) = Valid bal n tx' blob p)"
  using prague_blob_limit_stale [where spec = sample_spec and tx = "sample_blob_tx 7" and bs = "[]"
      and libs = sample_pool_libs and c = config_allow_all and k = 1 and latest = "Inr sample_provider" and orig = External
      and b = "\<lparr>hb_timestamp = 100, hb_gas_limit = 36000000\<rparr>" and ?t0.0 = 50
      and lc = "pl_default_local_config sample_pool_libs"]
  by (simp add: sample_validator_def sample_spec_def sample_blob_tx_def sample_pool_libs_def blob_count_def)

end
