(* ===== verification/ExecEvm.thy ===== *)
theory ExecEvm
  imports Prelude
begin

text \<open>
  The gas rules of the execution client (\<^verbatim>\<open>bin/exec/src/evm/gas.rs\<close>): the five hooks that
  \<open>ivm_gas_handler_register\<close> puts into the handler of \<open>revm\<close>, and the timestamp rule of the engine
  validator (\<^verbatim>\<open>bin/exec/src/engine.rs\<close>). The journaled state is the view it gives of the accounts;
  that loading an account can fail in the database is an input.
\<close>

section \<open>State and transaction\<close>

datatype bytecode = CodeEmpty | CodeEip7702 address | CodeOther bytes

record evm_account =
  ea_balance :: u256
  ea_nonce :: u64
  ea_code :: "bytecode option"
  ea_touched :: bool

type_synonym journal = "address \<Rightarrow> evm_account"

datatype tx_kind = TxCall address | TxCreate

record evm_tx =
  et_caller :: address
  et_transact_to :: tx_kind
  et_nonce :: "u64 option"

datatype evm_error =
    RejectCallerWithCode
  | NonceTooLow u64 u64
  | NonceTooHigh u64 u64
  | DatabaseError string

text \<open>\<open>load_account\<close>: \<open>db a\<close> is the error of the database for the account, if any.\<close>

definition load_account :: "(address \<Rightarrow> string option) \<Rightarrow> journal \<Rightarrow> address \<Rightarrow> evm_error + evm_account" where
  "load_account db j a = (case db a of Some e \<Rightarrow> Inl (DatabaseError e) | None \<Rightarrow> Inr (j a))"

section \<open>The hooks\<close>

text \<open>\<open>u64::saturating_add(1)\<close>.\<close>

definition saturating_inc :: "u64 \<Rightarrow> u64" where
  "saturating_inc n = (if n = - 1 then n else n + 1)"

definition deduct_caller :: "(address \<Rightarrow> string option) \<Rightarrow> evm_tx \<Rightarrow> journal \<Rightarrow> evm_error + journal" where
  "deduct_caller db tx j =
     (let caller = et_caller tx in
      case load_account db j caller of
        Inl e \<Rightarrow> Inl e
      | Inr acct \<Rightarrow>
          let acct = (case et_transact_to tx of
                 TxCall _ \<Rightarrow> acct\<lparr>ea_nonce := saturating_inc (ea_nonce acct)\<rparr>
               | TxCreate \<Rightarrow> acct)
          in Inr (j(caller := acct\<lparr>ea_touched := True\<rparr>)))"

definition tx_against_state :: "(address \<Rightarrow> string option) \<Rightarrow> evm_tx \<Rightarrow> journal \<Rightarrow> evm_error option" where
  "tx_against_state db tx j =
     (case load_account db j (et_caller tx) of
        Inl e \<Rightarrow> Some e
      | Inr acct \<Rightarrow>
          if (case ea_code acct of Some (CodeOther _) \<Rightarrow> True | _ \<Rightarrow> False)
          then Some RejectCallerWithCode
          else let state_nonce = ea_nonce acct in
               case et_nonce tx of
                 Some tx_nonce \<Rightarrow>
                   if tx_nonce < state_nonce then Some (NonceTooLow tx_nonce state_nonce)
                   else if tx_nonce > state_nonce then Some (NonceTooHigh tx_nonce state_nonce)
                   else None
               | None \<Rightarrow> None)"

text \<open>\<open>'g\<close> is the gas accounting of a finished frame.\<close>

record 'g gas_handler =
  gh_tx_against_state :: "(address \<Rightarrow> string option) \<Rightarrow> evm_tx \<Rightarrow> journal \<Rightarrow> evm_error option"
  gh_deduct_caller :: "(address \<Rightarrow> string option) \<Rightarrow> evm_tx \<Rightarrow> journal \<Rightarrow> evm_error + journal"
  gh_refund :: "'g \<Rightarrow> u64 \<Rightarrow> 'g"
  gh_reimburse_caller :: "'g \<Rightarrow> evm_tx \<Rightarrow> journal \<Rightarrow> evm_error + journal"
  gh_reward_beneficiary :: "'g \<Rightarrow> evm_tx \<Rightarrow> journal \<Rightarrow> evm_error + journal"

definition ivm_gas_handler_register :: "'g gas_handler \<Rightarrow> 'g gas_handler" where
  "ivm_gas_handler_register handler =
     handler\<lparr>gh_deduct_caller := deduct_caller,
             gh_tx_against_state := tx_against_state,
             gh_refund := (\<lambda>gas _. gas),
             gh_reimburse_caller := (\<lambda>_ _ j. Inr j),
             gh_reward_beneficiary := (\<lambda>_ _ j. Inr j)\<rparr>"

section \<open>The EVM\<close>

text \<open>
  \<open>evm_with_env\<close> and \<open>evm_with_env_and_inspector\<close> (\<^verbatim>\<open>bin/exec/src/evm/mod.rs\<close>): the handler of the
  library for the hard fork, with the registers appended in this order. Of the environment only the
  hard fork matters here; the inspector's register wraps hooks of the library.
\<close>

record ('spec, 'cfg, 'blk) evm_env =
  en_spec :: 'spec
  en_cfg_env :: 'cfg
  en_block_env :: 'blk

record ('cfg, 'blk, 'g) evm =
  vm_cfg_env :: 'cfg
  vm_block_env :: 'blk
  vm_handler :: "'g gas_handler"

definition evm_with_env :: "('spec \<Rightarrow> 'g gas_handler) \<Rightarrow> ('spec, 'cfg, 'blk) evm_env \<Rightarrow> ('cfg, 'blk, 'g) evm" where
  "evm_with_env mainnet env =
     \<lparr>vm_cfg_env = en_cfg_env env, vm_block_env = en_block_env env,
      vm_handler = ivm_gas_handler_register (mainnet (en_spec env))\<rparr>"

definition evm_with_env_and_inspector :: "('spec \<Rightarrow> 'g gas_handler) \<Rightarrow> ('g gas_handler \<Rightarrow> 'g gas_handler)
    \<Rightarrow> ('spec, 'cfg, 'blk) evm_env \<Rightarrow> ('cfg, 'blk, 'g) evm" where
  "evm_with_env_and_inspector mainnet inspector_handle_register env =
     \<lparr>vm_cfg_env = en_cfg_env env, vm_block_env = en_block_env env,
      vm_handler = ivm_gas_handler_register (inspector_handle_register (mainnet (en_spec env)))\<rparr>"

section \<open>The engine validator\<close>

definition validate_payload_attributes_against_header :: "'attr \<Rightarrow> 'header \<Rightarrow> string + unit" where
  "validate_payload_attributes_against_header attr header = Inr ()"

section \<open>Properties\<close>

text \<open>A fee hook in isolation: what it changes of the state.\<close>

lemma deduct_caller_Inr:
  "deduct_caller db tx j = Inr j' \<longleftrightarrow>
     db (et_caller tx) = None \<and>
     j' = j(et_caller tx := (j (et_caller tx))
       \<lparr>ea_nonce := (case et_transact_to tx of TxCall _ \<Rightarrow> saturating_inc (ea_nonce (j (et_caller tx)))
                     | TxCreate \<Rightarrow> ea_nonce (j (et_caller tx))),
        ea_touched := True\<rparr>)"
  by (auto simp: deduct_caller_def load_account_def Let_def split: option.splits tx_kind.splits)

lemma tx_against_state_None:
  "tx_against_state db tx j = None \<longleftrightarrow>
     db (et_caller tx) = None \<and>
     (case ea_code (j (et_caller tx)) of Some (CodeOther _) \<Rightarrow> False | _ \<Rightarrow> True) \<and>
     (case et_nonce tx of Some n \<Rightarrow> n = ea_nonce (j (et_caller tx)) | None \<Rightarrow> True)"
  by (auto simp: tx_against_state_def load_account_def Let_def
      split: option.splits if_splits bytecode.splits)

text \<open>
  Traced and untraced execution follow the same fee rules, in every hard fork: the inspector's register
  cannot replace them, since it comes first.
\<close>

lemma inspected_evm_same_hooks:
  "vm_handler (evm_with_env_and_inspector mainnet reg env) = vm_handler (evm_with_env mainnet' env')"
  by (simp add: evm_with_env_def evm_with_env_and_inspector_def ivm_gas_handler_register_def)

text \<open>
  No fee ever moves. With the registered hooks, charging the caller changes no balance and no code
  and of the nonces only the caller's, by one for a call and not at all for a creation; after any
  execution, refund, reimbursement and reward leave the gas and the state as they are.
\<close>

theorem gasless_hooks:
  "let h = ivm_gas_handler_register h0 in
     (case gh_deduct_caller h db tx j of
        Inl e \<Rightarrow> db (et_caller tx) \<noteq> None
      | Inr j1 \<Rightarrow> ea_balance \<circ> j1 = ea_balance \<circ> j \<and> ea_code \<circ> j1 = ea_code \<circ> j
          \<and> ea_nonce \<circ> j1 = (ea_nonce \<circ> j)(et_caller tx :=
               (case et_transact_to tx of TxCall _ \<Rightarrow> saturating_inc (ea_nonce (j (et_caller tx)))
                | TxCreate \<Rightarrow> ea_nonce (j (et_caller tx))))
          \<and> ea_touched \<circ> j1 = (ea_touched \<circ> j)(et_caller tx := True))
     \<and> gh_refund h gas r = gas
     \<and> gh_reimburse_caller h gas tx executed = Inr executed
     \<and> gh_reward_beneficiary h gas tx executed = Inr executed"
proof -
  have "case deduct_caller db tx j of
        Inl e \<Rightarrow> db (et_caller tx) \<noteq> None
      | Inr j1 \<Rightarrow> ea_balance \<circ> j1 = ea_balance \<circ> j \<and> ea_code \<circ> j1 = ea_code \<circ> j
          \<and> ea_nonce \<circ> j1 = (ea_nonce \<circ> j)(et_caller tx :=
               (case et_transact_to tx of TxCall _ \<Rightarrow> saturating_inc (ea_nonce (j (et_caller tx)))
                | TxCreate \<Rightarrow> ea_nonce (j (et_caller tx))))
          \<and> ea_touched \<circ> j1 = (ea_touched \<circ> j)(et_caller tx := True)"
    by (auto simp: deduct_caller_def load_account_def Let_def fun_eq_iff split: option.splits tx_kind.splits)
  then show ?thesis by (simp add: ivm_gas_handler_register_def)
qed

text \<open>
  A call cannot be replayed: a call with an explicit nonce that the validation accepts is refused
  with \<open>NonceTooLow\<close> in the state that charging the caller leaves, unless its nonce is the largest,
  which the saturating increment keeps.
\<close>

theorem call_not_replayed:
  assumes "tx_against_state db tx j = None" and "et_transact_to tx = TxCall target" and "et_nonce tx = Some n"
  shows "\<exists>j1. deduct_caller db tx j = Inr j1 \<and>
    tx_against_state db tx j1 = (if n = - 1 then None else Some (NonceTooLow n (n + 1)))"
proof -
  have v: "db (et_caller tx) = None" "ea_nonce (j (et_caller tx)) = n"
    "case ea_code (j (et_caller tx)) of Some (CodeOther _) \<Rightarrow> False | _ \<Rightarrow> True"
    using assms(1,3) by (simp_all add: tx_against_state_None)
  let ?j1 = "j(et_caller tx := (j (et_caller tx))\<lparr>ea_nonce := saturating_inc n, ea_touched := True\<rparr>)"
  have d: "deduct_caller db tx j = Inr ?j1" using assms(2) v by (simp add: deduct_caller_Inr)
  have "n < n + 1" if "n \<noteq> - 1" using word_less_succ [of n] that by (metis add_eq_0_iff2)
  then have "tx_against_state db tx ?j1 = (if n = - 1 then None else Some (NonceTooLow n (n + 1)))"
    using v assms(3)
    by (auto simp: tx_against_state_def load_account_def saturating_inc_def Let_def split: option.splits bytecode.splits)
  with d show ?thesis by blast
qed

definition sample_evm_tx :: "u64 \<Rightarrow> evm_tx" where
  "sample_evm_tx n = \<lparr>et_caller = 7, et_transact_to = TxCall 8, et_nonce = Some n\<rparr>"

definition sample_journal :: journal where
  "sample_journal = (\<lambda>_. \<lparr>ea_balance = 0, ea_nonce = 3, ea_code = None, ea_touched = False\<rparr>)"

theorem call_not_replayed_witness:
  "\<exists>j1. deduct_caller (\<lambda>_. None) (sample_evm_tx 3) sample_journal = Inr j1 \<and>
     tx_against_state (\<lambda>_. None) (sample_evm_tx 3) j1 = Some (NonceTooLow 3 4)"
proof -
  have "tx_against_state (\<lambda>_. None) (sample_evm_tx 3) sample_journal = None"
    by (simp add: tx_against_state_None sample_evm_tx_def sample_journal_def)
  from call_not_replayed [OF this, of 8 3] show ?thesis by (simp add: sample_evm_tx_def)
qed

end
