(* ===== verification/ExecClient.thy ===== *)
theory ExecClient
  imports ExecPool ExecEvm
begin

text \<open>
  The execution client as a whole: what the transaction pool (\<open>ExecPool\<close>) accepts is what the EVM with
  its gas rules (\<open>ExecEvm\<close>) executes.
\<close>

text \<open>The account the pool reads and the account the EVM loads are the same one.\<close>

definition accounts_agree :: "state_provider \<Rightarrow> journal \<Rightarrow> address \<Rightarrow> bool" where
  "accounts_agree state j a =
     (case sp_basic_account state a of
        Inl _ \<Rightarrow> False
      | Inr None \<Rightarrow> ea_nonce (j a) = 0 \<and> ea_code (j a) \<in> {None, Some CodeEmpty}
      | Inr (Some acc) \<Rightarrow> ea_nonce (j a) = acc_nonce acc \<and>
          (case acc_bytecode_hash acc of
             None \<Rightarrow> ea_code (j a) \<in> {None, Some CodeEmpty}
           | Some h \<Rightarrow> sp_code_is_eip7702 state h = Inr (case ea_code (j a) of Some (CodeEip7702 _) \<Rightarrow> True | _ \<Rightarrow> False)))"

lemma agreeing_sender:
  assumes "sender_ok self state tx n" and "accounts_agree state j (tx_sender tx)"
  shows "ea_nonce (j (tx_sender tx)) = n \<and>
    (case ea_code (j (tx_sender tx)) of Some (CodeOther _) \<Rightarrow> False | _ \<Rightarrow> True)"
proof -
  from assms(1) obtain ma where ma: "sp_basic_account state (tx_sender tx) = Inr ma"
    by (auto simp: sender_ok_def)
  show ?thesis
  proof (cases ma)
    case None
    then show ?thesis using assms ma by (auto simp: sender_ok_def accounts_agree_def)
  next
    case (Some a)
    then show ?thesis using assms ma
      by (cases "acc_bytecode_hash a")
         (auto simp: sender_ok_def accounts_agree_def split: option.splits bytecode.splits)
  qed
qed

text \<open>
  C33. What the pool lets in, the EVM executes: when the pool accepts a transaction of a sender whose
  account is the same in the pool's state and in the EVM's, then the EVM's check accepts the sender's
  transaction at the nonce the pool reports, and charging succeeds, whatever the sender's balance.
\<close>

theorem pool_accepted_executes:
  assumes "validate_one libs (Inr state) v orig tx = Valid b n tx' blob p"
    and "accounts_agree state j (tx_sender tx)"
    and "et_caller etx = tx_sender tx" and "et_nonce etx = Some n" and "db (tx_sender tx) = None"
  shows "n \<le> tx_nonce tx \<and> tx_against_state db etx j = None \<and> (\<exists>j1. deduct_caller db etx j = Inr j1)"
proof -
  have "eth_validate_one libs (Inr state) (iv_eth v) orig tx = Valid b n tx' blob p"
    using assms(1) by (simp add: validate_one_def split: if_splits)
  then have s: "sender_ok (iv_eth v) state tx n" by (simp add: eth_validate_one_Valid)
  then have n: "n \<le> tx_nonce tx" by (auto simp: sender_ok_def split: option.splits)
  have "ea_nonce (j (tx_sender tx)) = n \<and>
      (case ea_code (j (tx_sender tx)) of Some (CodeOther _) \<Rightarrow> False | _ \<Rightarrow> True)"
    using s assms(2) by (rule agreeing_sender)
  then have "tx_against_state db etx j = None"
    using assms(3-5) by (simp add: tx_against_state_None)
  moreover have "\<exists>j1. deduct_caller db etx j = Inr j1" using assms(3,5) by (simp add: deduct_caller_Inr)
  ultimately show ?thesis using n by blast
qed

lemma sample_accepted:
  "validate_one sample_pool_libs (Inr sample_provider) (sample_validator config_allow_all 0) External (sample_blob_tx 1)
     = Valid (- 1) 0 ((sample_blob_tx 1)\<lparr>tx_sidecar := SidecarMissing\<rparr>) (Some [1]) True"
proof -
  have "eth_validate_one sample_pool_libs (Inr sample_provider) (iv_eth (sample_validator config_allow_all 0))
      External (sample_blob_tx 1) = Valid (- 1) 0 ((sample_blob_tx 1)\<lparr>tx_sidecar := SidecarMissing\<rparr>) (Some [1]) True"
    unfolding eth_validate_one_Valid
    by (simp add: admissible_def type_enabled_def size_ok_def fees_ok_def kind_ok_def sender_ok_def check_blob_def
        propagate_def sample_provider_def sample_blob_tx_def sample_pool_libs_def sample_spec_def blob_count_def
        sample_validator_def pool_validator_def build_def builder_new_def with_head_timestamp_def
        with_local_transactions_config_def with_additional_tasks_def Let_def)
  then show ?thesis
    by (simp add: validate_one_def is_allowed_def sample_validator_def pool_validator_def build_def Let_def)
qed

theorem pool_accepted_executes_witness:
  "tx_against_state (\<lambda>_. None) (sample_evm_tx 0) (\<lambda>_. (sample_journal 0)\<lparr>ea_nonce := 0\<rparr>) = None"
  using pool_accepted_executes [OF sample_accepted, of "\<lambda>_. (sample_journal 0)\<lparr>ea_nonce := 0\<rparr>" "sample_evm_tx 0" "\<lambda>_. None"]
  by (simp add: accounts_agree_def sample_provider_def sample_journal_def sample_evm_tx_def sample_blob_tx_def)

section \<open>Executed transactions\<close>

text \<open>
  C34. An executed call is done with: once the EVM has accepted a call at its nonce and charged its
  sender, the EVM refuses the same call in the new state, and no pool whose state agrees with the EVM
  about the sender admits it again, whatever its libraries, configuration and head. (A nonce of
  \<open>2 ^ 64 - 1\<close> is the exception, where the increment saturates.)
\<close>

theorem executed_call_not_readmitted:
  assumes "tx_against_state db etx j = None" and "deduct_caller db etx j = Inr j1"
    and "et_caller etx = tx_sender tx" and "et_nonce etx = Some (tx_nonce tx)" and "et_transact_to etx = TxCall target"
    and "tx_nonce tx \<noteq> - 1" and "accounts_agree state j1 (tx_sender tx)"
  shows "validate_one libs (Inr state) v orig tx \<noteq> Valid b n tx' blob p
    \<and> tx_against_state db etx j1 = Some (NonceTooLow (tx_nonce tx) (tx_nonce tx + 1))"
proof -
  have j: "ea_nonce (j (tx_sender tx)) = tx_nonce tx"
    "case ea_code (j (tx_sender tx)) of Some (CodeOther _) \<Rightarrow> False | _ \<Rightarrow> True"
    using assms(1,3,4) by (simp_all add: tx_against_state_None)
  have j1: "ea_nonce (j1 (tx_sender tx)) = tx_nonce tx + 1" "ea_code (j1 (tx_sender tx)) = ea_code (j (tx_sender tx))"
    and db: "db (tx_sender tx) = None"
    using assms(2,3,5,6) j(1) by (auto simp: deduct_caller_Inr saturating_inc_def)
  have less: "tx_nonce tx < tx_nonce tx + 1"
    using word_less_succ [of "tx_nonce tx"] assms(6) by (metis add_eq_0_iff2)
  have "validate_one libs (Inr state) v orig tx \<noteq> Valid b n tx' blob p"
  proof
    assume "validate_one libs (Inr state) v orig tx = Valid b n tx' blob p"
    then have "eth_validate_one libs (Inr state) (iv_eth v) orig tx = Valid b n tx' blob p"
      by (simp add: validate_one_def split: if_splits)
    then have s: "sender_ok (iv_eth v) state tx n" by (simp add: eth_validate_one_Valid)
    then have "n \<le> tx_nonce tx" by (auto simp: sender_ok_def split: option.splits)
    moreover have "n = tx_nonce tx + 1" using agreeing_sender [OF s assms(7)] j1(1) by simp
    ultimately show False using less by simp
  qed
  moreover have "tx_against_state db etx j1 = Some (NonceTooLow (tx_nonce tx) (tx_nonce tx + 1))"
    using j(2) j1 db less assms(3,4)
    by (auto simp: tx_against_state_def load_account_def Let_def split: option.splits bytecode.splits)
  ultimately show ?thesis by simp
qed

definition sample_after :: state_provider where
  "sample_after = sample_provider\<lparr>sp_basic_account := (\<lambda>_. Inr (Some
     \<lparr>acc_nonce = 1, acc_balance = 0, acc_bytecode_hash = None\<rparr>))\<rparr>"

theorem executed_call_not_readmitted_witness:
  "\<exists>j1. deduct_caller (\<lambda>_. None) (sample_evm_tx 0) (\<lambda>_. (sample_journal 0)\<lparr>ea_nonce := 0\<rparr>) = Inr j1 \<and>
     validate_one sample_pool_libs (Inr sample_after) (sample_validator config_allow_all 0) External (sample_blob_tx 1)
       \<noteq> Valid 0 1 (sample_blob_tx 1) None True"
proof -
  let ?j = "\<lambda>_. (sample_journal 0)\<lparr>ea_nonce := 0\<rparr>"
  have v: "tx_against_state (\<lambda>_. None) (sample_evm_tx 0) ?j = None"
    by (simp add: tx_against_state_None sample_evm_tx_def sample_journal_def)
  obtain j1 where d: "deduct_caller (\<lambda>_. None) (sample_evm_tx 0) ?j = Inr j1"
    "j1 7 = (sample_journal 0)\<lparr>ea_nonce := 1, ea_touched := True\<rparr>"
    by (auto simp: deduct_caller_Inr sample_evm_tx_def saturating_inc_def)
  have a: "accounts_agree sample_after j1 (tx_sender (sample_blob_tx 1))"
    by (simp add: accounts_agree_def sample_after_def sample_blob_tx_def d(2) sample_journal_def)
  from executed_call_not_readmitted [OF v d(1) _ _ _ _ a, of 8 sample_pool_libs
      "sample_validator config_allow_all 0" External 0 1 "sample_blob_tx 1" None True] d(1)
  show ?thesis by (auto simp: sample_evm_tx_def sample_blob_tx_def)
qed

end
