(* ===== verification/ExecNode.thy ===== *)
theory ExecNode
  imports ExecClient
begin

text \<open>
  How the execution client is put together (\<^verbatim>\<open>bin/exec/src/lib.rs\<close>, \<^verbatim>\<open>evm/mod.rs\<close>, \<^verbatim>\<open>engine.rs\<close>,
  \<^verbatim>\<open>payload.rs\<close>, \<^verbatim>\<open>pool/mod.rs\<close>): the configured EVM, the engine validator, and the components of the node.
  The configured EVM and the validators of reth are parameters, each as a function of the chain specification
  it is created with; its network and consensus are left out.
\<close>

section \<open>The configured EVM\<close>

text \<open>\<open>EthEvmConfig\<close> of reth.\<close>

record ('c, 't, 'e, 'h, 'a, 's, 'cfg, 'blk) eth_evm_lib =
  el_tx_env :: "'c \<Rightarrow> 't \<Rightarrow> address \<Rightarrow> 'e"
  el_evm_env :: "'c \<Rightarrow> 'h \<Rightarrow> ('s, 'cfg, 'blk) evm_env"
  el_next_evm_env :: "'c \<Rightarrow> 'h \<Rightarrow> 'a \<Rightarrow> ('s, 'cfg, 'blk) evm_env"

record 'c ivm_evm_config =
  ec_eth :: 'c

definition ivm_evm_config_new :: "'c \<Rightarrow> 'c ivm_evm_config" where
  "ivm_evm_config_new chain_spec = \<lparr>ec_eth = chain_spec\<rparr>"

definition tx_env :: "('c, 't, 'e, 'h, 'a, 's, 'cfg, 'blk) eth_evm_lib \<Rightarrow> 'c ivm_evm_config \<Rightarrow> 't \<Rightarrow> address \<Rightarrow> 'e" where
  "tx_env R self transaction signer = el_tx_env R (ec_eth self) transaction signer"

definition evm_env_of :: "('c, 't, 'e, 'h, 'a, 's, 'cfg, 'blk) eth_evm_lib \<Rightarrow> 'c ivm_evm_config \<Rightarrow> 'h
    \<Rightarrow> ('s, 'cfg, 'blk) evm_env" where
  "evm_env_of R self header = el_evm_env R (ec_eth self) header"

definition next_evm_env :: "('c, 't, 'e, 'h, 'a, 's, 'cfg, 'blk) eth_evm_lib \<Rightarrow> 'c ivm_evm_config \<Rightarrow> 'h \<Rightarrow> 'a
    \<Rightarrow> ('s, 'cfg, 'blk) evm_env" where
  "next_evm_env R self parent attributes = el_next_evm_env R (ec_eth self) parent attributes"

section \<open>The engine validator\<close>

text \<open>The two validators of reth; an error is \<open>Inl\<close>.\<close>

record ('c, 'p, 'b, 'v, 'f, 'a) engine_lib =
  nl_ensure_well_formed_payload :: "'c \<Rightarrow> 'p \<Rightarrow> string + 'b"
  nl_validate_version_specific_fields :: "'c \<Rightarrow> 'v \<Rightarrow> 'f \<Rightarrow> string + unit"
  nl_ensure_well_formed_attributes :: "'c \<Rightarrow> 'v \<Rightarrow> 'a \<Rightarrow> string + unit"

record 'c ivm_engine_validator =
  nv_payload_validator :: 'c
  nv_engine_validator :: 'c

definition ivm_engine_validator_new :: "'c \<Rightarrow> 'c ivm_engine_validator" where
  "ivm_engine_validator_new chain_spec = \<lparr>nv_payload_validator = chain_spec, nv_engine_validator = chain_spec\<rparr>"

definition ensure_well_formed_payload :: "('c, 'p, 'b, 'v, 'f, 'a) engine_lib \<Rightarrow> 'c ivm_engine_validator \<Rightarrow> 'p \<Rightarrow> string + 'b" where
  "ensure_well_formed_payload R self payload = nl_ensure_well_formed_payload R (nv_payload_validator self) payload"

definition validate_version_specific_fields :: "('c, 'p, 'b, 'v, 'f, 'a) engine_lib \<Rightarrow> 'c ivm_engine_validator \<Rightarrow> 'v \<Rightarrow> 'f
    \<Rightarrow> string + unit" where
  "validate_version_specific_fields R self version payload_or_attrs =
     nl_validate_version_specific_fields R (nv_engine_validator self) version payload_or_attrs"

definition ensure_well_formed_attributes :: "('c, 'p, 'b, 'v, 'f, 'a) engine_lib \<Rightarrow> 'c ivm_engine_validator \<Rightarrow> 'v \<Rightarrow> 'a
    \<Rightarrow> string + unit" where
  "ensure_well_formed_attributes R self version attributes =
     nl_ensure_well_formed_attributes R (nv_engine_validator self) version attributes"

section \<open>The node\<close>

record ivm_node =
  nd_ivm_config :: ivm_config

definition ivm_node_new :: "ivm_config \<Rightarrow> ivm_node" where
  "ivm_node_new ivm_config = \<lparr>nd_ivm_config = ivm_config\<rparr>"

record ivm_pool_builder =
  pb_ivm_config :: ivm_config

definition ivm_pool_builder_new :: "ivm_config \<Rightarrow> ivm_pool_builder" where
  "ivm_pool_builder_new ivm_config = \<lparr>pb_ivm_config = ivm_config\<rparr>"

datatype ivm_executor_builder = IvmExecutorBuilder
datatype ivm_payload_builder = IvmPayloadBuilder

record components =
  cp_pool :: ivm_pool_builder
  cp_executor :: ivm_executor_builder
  cp_payload :: ivm_payload_builder

definition components_of :: "ivm_node \<Rightarrow> components" where
  "components_of self = \<lparr>cp_pool = ivm_pool_builder_new (nd_ivm_config self), cp_executor = IvmExecutorBuilder,
     cp_payload = IvmPayloadBuilder\<rparr>"

text \<open>What the builders build: the EVM and the block executor, the EVM of the payload builder, the validator.\<close>

record 'c executor_provider =
  ep_chain_spec :: 'c
  ep_evm_config :: "'c ivm_evm_config"

fun build_evm :: "ivm_executor_builder \<Rightarrow> 'c \<Rightarrow> 'c ivm_evm_config \<times> 'c executor_provider" where
  "build_evm IvmExecutorBuilder chain_spec =
     (let evm_config = ivm_evm_config_new chain_spec
      in (evm_config, \<lparr>ep_chain_spec = chain_spec, ep_evm_config = evm_config\<rparr>))"

fun build_payload_builder :: "ivm_payload_builder \<Rightarrow> 'c \<Rightarrow> 'c ivm_evm_config" where
  "build_payload_builder IvmPayloadBuilder chain_spec = ivm_evm_config_new chain_spec"

definition build_pool :: "'b pool_libs \<Rightarrow> ivm_pool_builder \<Rightarrow> chain_spec \<Rightarrow> u64 \<Rightarrow> local_config \<Rightarrow> nat \<Rightarrow> ivm_validator" where
  "build_pool libs self spec head_timestamp local_config additional_tasks =
     pool_validator libs spec head_timestamp local_config additional_tasks (pb_ivm_config self)"

text \<open>\<open>main\<close>: the node of the chosen configuration.\<close>

definition node_of_args :: "(string \<Rightarrow> string + ivm_config) \<Rightarrow> (string \<Rightarrow> string \<Rightarrow> string) \<Rightarrow> string \<Rightarrow> cli_ext
    \<Rightarrow> string + ivm_node" where
  "node_of_args load join data_dir args =
     (case choose_config load join data_dir args of Inl e \<Rightarrow> Inl e | Inr c \<Rightarrow> Inr (ivm_node_new c))"

section \<open>Lemmas\<close>

text \<open>
  Blocks are built and executed with the same EVM: every transaction of either goes through the
  hooks without gas, in the environment of the same chain specification.
\<close>

lemma one_evm:
  assumes "evm = fst (build_evm (cp_executor (components_of node)) spec)"
  shows "build_payload_builder (cp_payload (components_of node)) spec = evm"
    and "ep_evm_config (snd (build_evm (cp_executor (components_of node)) spec)) = evm"
    and "gh_deduct_caller (vm_handler (evm_with_env mainnet (evm_env_of R evm header))) = deduct_caller"
  using assms
  by (simp_all add: components_of_def evm_with_env_def ivm_gas_handler_register_def Let_def)

text \<open>Started with \<open>--tx-allow.all\<close>, the node's pool refuses nothing as not allowed, whatever else the arguments say.\<close>

lemma allow_all_node:
  assumes "node_of_args load join data_dir args = Inr node" and "cli_allow_all args"
  shows "validate_one libs latest (run_heads (build_pool libs (cp_pool (components_of node)) spec t lc k) bs) orig tx
    \<noteq> Invalid tx NonAllowedSenderAndRecipient"
proof -
  have c: "pb_ivm_config (cp_pool (components_of node)) = config_allow_all"
    using assms by (auto simp: node_of_args_def choose_config_def ivm_node_new_def components_of_def ivm_pool_builder_new_def)
  have "governing_fork config_allow_all n 0 allow_config_allow_all" for n
    by (auto simp: governing_fork_def config_allow_all_def bt_collect_def)
  moreover have "ac_all allow_config_allow_all" by (simp add: allow_config_allow_all_def)
  ultimately show ?thesis
    using is_allowed_iff [OF config_ok_choice(1), of "iv_latest_timestamp (run_heads (build_pool libs (cp_pool (components_of node)) spec t lc k) bs)"]
    by (auto simp: validate_one_def build_pool_def c run_heads_eq after_heads_def pool_validator_def build_def Let_def
        eth_validate_one_not_non_allowed is_allowed_def)
qed

end
