(* ===== verification/AppNodes.thy ===== *)
theory AppNodes
  imports EndToEnd GameNode Tasks
begin

text \<open>
  Starting the two application nodes: the environment variables that their binaries read
  (\<^verbatim>\<open>main.rs\<close> of \<^verbatim>\<open>examples/clob/node\<close> and \<^verbatim>\<open>examples/matching-game/server\<close>), the tasks that
  \<open>run\<close> joins (their \<^verbatim>\<open>lib.rs\<close>), and what a node that starts again does to its jobs: the batcher counts its
  job nonces from one, whatever the coprocessor node has seen before.
\<close>

section \<open>The binaries\<close>

text \<open>Parsing and decoding: integers, block numbers or tags, hex strings, secret keys.\<close>

record ('blk, 'key) app_libs =
  al_parse_u64 :: "string \<Rightarrow> u64 option"
  al_parse_block :: "string \<Rightarrow> 'blk option"
  al_earliest :: 'blk
  al_block_to_string :: "'blk \<Rightarrow> string"
  al_hex_decode :: "string \<Rightarrow> bytes option"
  al_from_slice :: "bytes \<Rightarrow> 'key option"

definition DB_DIR :: string where "DB_DIR = ''./tmp-data-dir/dev/db''"

definition DEV_SECRET :: string where
  "DEV_SECRET = ''92db14e403b83dfe3df233f83dfa3a0d7096f21ca9b0d6d6b8d88b2b4ec1564e''"

definition GAME_DEV_SECRET :: string where
  "GAME_DEV_SECRET = ''92db14e403b83dfe3df233f83dfa3a0d7096f21ca9b0d6d6b8d88b2b4ec1564e''"

definition env_or :: "(string \<Rightarrow> string option) \<Rightarrow> string \<Rightarrow> string \<Rightarrow> string" where
  "env_or env name otherwise = (case env name of None \<Rightarrow> otherwise | Some v \<Rightarrow> v)"

definition signer_of_hex :: "('blk, 'key) app_libs \<Rightarrow> string \<Rightarrow> 'key option" where
  "signer_of_hex A operator_key = Option.bind (al_hex_decode A operator_key) (al_from_slice A)"

definition address_of_hex :: "('blk, 'key) app_libs \<Rightarrow> string \<Rightarrow> address option" where
  "address_of_hex A hex = Option.bind (al_hex_decode A hex) try_into_address"

record ('blk, 'key) clob_args =
  ca_db_dir :: string
  ca_listen_addr :: string
  ca_batcher_duration_ms :: u64
  ca_operator_signer :: 'key
  ca_cn_grpc_url :: string
  ca_eth_ws_url :: string
  ca_clob_consumer_addr :: address
  ca_job_sync_start :: 'blk

text \<open>What \<open>main\<close> gives to \<open>run\<close>; \<open>None\<close> is the panic of an \<open>unwrap\<close>.\<close>

definition clob_main :: "('blk, 'key) app_libs \<Rightarrow> (string \<Rightarrow> string option) \<Rightarrow> ('blk, 'key) clob_args option" where
  "clob_main A env =
     (let listen_addr = env_or env ''CLOB_LISTEN_ADDR'' ''127.0.0.1:3001'';
          db_dir = env_or env ''CLOB_DB_DIR'' DB_DIR;
          cn_grpc_addr = env_or env ''CLOB_CN_GRPC_ADDR'' ''http://127.0.0.1:50051'';
          eth_ws_addr = env_or env ''CLOB_ETH_WS_ADDR'' ''ws://127.0.0.1:8545''
      in case al_parse_u64 A (env_or env ''CLOB_BATCHER_DURATION_MS'' ''1000'') of
           None \<Rightarrow> None
         | Some batcher_duration_ms \<Rightarrow>
      (case al_parse_block A (env_or env ''CLOB_JOB_SYNC_START'' (al_block_to_string A (al_earliest A))) of
           None \<Rightarrow> None
         | Some job_sync_start \<Rightarrow>
      (case signer_of_hex A (env_or env ''CLOB_OPERATOR_KEY'' DEV_SECRET) of
           None \<Rightarrow> None
         | Some operator_signer \<Rightarrow>
      (case address_of_hex A (env_or env ''CLOB_CONSUMER_ADDR'' ''b794f5ea0ba39494ce839613fffba74279579268'') of
           None \<Rightarrow> None
         | Some clob_consumer_addr \<Rightarrow>
             Some \<lparr>ca_db_dir = db_dir, ca_listen_addr = listen_addr, ca_batcher_duration_ms = batcher_duration_ms,
               ca_operator_signer = operator_signer, ca_cn_grpc_url = cn_grpc_addr, ca_eth_ws_url = eth_ws_addr,
               ca_clob_consumer_addr = clob_consumer_addr, ca_job_sync_start = job_sync_start\<rparr>))))"

record 'key game_args =
  ga_listen_addr :: string
  ga_batcher_duration_ms :: u64
  ga_operator_signer :: 'key
  ga_cn_grpc_url :: string
  ga_consumer_addr :: address

definition game_main :: "('blk, 'key) app_libs \<Rightarrow> (string \<Rightarrow> string option) \<Rightarrow> 'key game_args option" where
  "game_main A env =
     (let listen_addr = env_or env ''LISTEN_ADDR'' ''127.0.0.1:3001'';
          cn_grpc_addr = env_or env ''CN_GRPC_ADDR'' ''http://127.0.0.1:50051''
      in case al_parse_u64 A (env_or env ''BATCHER_DURATION_MS'' ''1000'') of
           None \<Rightarrow> None
         | Some batcher_duration_ms \<Rightarrow>
      (case signer_of_hex A (env_or env ''OPERATOR_KEY'' GAME_DEV_SECRET) of
           None \<Rightarrow> None
         | Some operator_signer \<Rightarrow>
      (case address_of_hex A (env_or env ''CONSUMER_ADDR'' ''b794f5ea0ba39494ce839613fffba74279579268'') of
           None \<Rightarrow> None
         | Some consumer_addr \<Rightarrow>
             Some \<lparr>ga_listen_addr = listen_addr, ga_batcher_duration_ms = batcher_duration_ms,
               ga_operator_signer = operator_signer, ga_cn_grpc_url = cn_grpc_addr,
               ga_consumer_addr = consumer_addr\<rparr>)))"

section \<open>The tasks\<close>

text \<open>The tasks that \<open>run\<close> spawns, with what they are given.\<close>

datatype ('blk, 'key) clob_task = ClobServer string | ClobEngine | ClobDepositListener string address 'blk
  | ClobBatcher u64 'key string address

definition clob_tasks :: "('blk, 'key) clob_args \<Rightarrow> ('blk, 'key) clob_task list" where
  "clob_tasks c =
     (let server_handle = ClobServer (ca_listen_addr c);
          engine_handle = ClobEngine;
          deposit_event_listener_handle =
            ClobDepositListener (ca_eth_ws_url c) (ca_clob_consumer_addr c) (ca_job_sync_start c);
          batcher_handle = ClobBatcher (ca_batcher_duration_ms c) (ca_operator_signer c) (ca_cn_grpc_url c)
            (ca_clob_consumer_addr c)
      in [server_handle, engine_handle, deposit_event_listener_handle, batcher_handle])"

text \<open>\<open>run\<close>: opening the database can fail; \<open>ends\<close> are the tasks that have ended.\<close>

definition clob_run :: "(string \<Rightarrow> 'e) \<Rightarrow> (string \<Rightarrow> 'e + unit) \<Rightarrow> ('blk, 'key) clob_args
    \<Rightarrow> (('blk, 'key) clob_task \<times> ('e, unit) join_result) list \<Rightarrow> ('e + unit) option" where
  "clob_run report init_db c ends =
     (case init_db (ca_db_dir c) of
        Inl e \<Rightarrow> Some (Inl e)
      | Inr _ \<Rightarrow> join_tasks (ClobNode.flatten report) (clob_tasks c) ends)"

datatype 'key game_task = GameServer string | GameEngine | GameBatcher u64 'key string address

definition game_tasks :: "'key game_args \<Rightarrow> 'key game_task list" where
  "game_tasks c =
     (let server_handle = GameServer (ga_listen_addr c);
          engine_handle = GameEngine;
          batcher_handle = GameBatcher (ga_batcher_duration_ms c) (ga_operator_signer c) (ga_cn_grpc_url c)
            (ga_consumer_addr c)
      in [server_handle, engine_handle, batcher_handle])"

text \<open>\<open>flatten\<close> is the same function in both nodes.\<close>

definition game_flatten :: "(string \<Rightarrow> 'e) \<Rightarrow> ('e, 'a) join_result \<Rightarrow> 'e + 'a" where
  "game_flatten report r = (case r of
     ClobNode.Joined (Inr result) \<Rightarrow> Inr result
   | ClobNode.Joined (Inl err) \<Rightarrow> Inl err
   | JoinError err \<Rightarrow> Inl (report err))"

definition game_run :: "(string \<Rightarrow> 'e) \<Rightarrow> 'key game_args \<Rightarrow> ('key game_task \<times> ('e, unit) join_result) list
    \<Rightarrow> ('e + unit) option" where
  "game_run report c ends = join_tasks (game_flatten report) (game_tasks c) ends"

section \<open>The batcher at its start\<close>

text \<open>
  \<open>run_batcher\<close> up to its loop: the next index is stored when it is missing, and the nonce of the next job is
  one. \<open>None\<close> while no request has been processed.
\<close>

definition batcher_start :: "clob_db \<Rightarrow> (clob_db \<times> u64) option" where
  "batcher_start db = map_option (\<lambda>db. let job_nonce = 1 in (db, job_nonce)) (ensure_initialized db)"

text \<open>
  The coprocessor node after \<open>k\<close> attempts to submit a request, and whether the next attempt succeeds: an error
  status or no answer is a failure.
\<close>

fun after_attempts :: "(Intake.submit_job_request \<Rightarrow> node \<Rightarrow> (status + bytes) option \<times> node)
    \<Rightarrow> Intake.submit_job_request \<Rightarrow> node \<Rightarrow> nat \<Rightarrow> node" where
  "after_attempts submit req n 0 = n"
| "after_attempts submit req n (Suc k) = snd (submit req (after_attempts submit req n k))"

definition attempt_succeeds :: "(Intake.submit_job_request \<Rightarrow> node \<Rightarrow> (status + bytes) option \<times> node)
    \<Rightarrow> Intake.submit_job_request \<Rightarrow> node \<Rightarrow> nat \<Rightarrow> bool" where
  "attempt_succeeds submit req n k \<longleftrightarrow>
     (case fst (submit req (after_attempts submit req n k)) of Some (Inr _) \<Rightarrow> True | _ \<Rightarrow> False)"

section \<open>Lemmas\<close>

text \<open>A node ends with the error of the first of its tasks that fails.\<close>

lemma clob_run_exact:
  assumes "distinct (map fst ends)" and "fst ` set ends \<subseteq> set (clob_tasks c)" and "init_db (ca_db_dir c) = Inr u"
  shows "clob_run report init_db c ends =
    (case List.find (\<lambda>(t, r). isl (ClobNode.flatten report r)) ends of
       Some (t, r) \<Rightarrow> Some (Inl (projl (ClobNode.flatten report r)))
     | None \<Rightarrow> if length ends = 4 then Some (Inr ()) else None)"
proof -
  have "distinct (clob_tasks c)" "clob_tasks c \<noteq> []" "length (clob_tasks c) = 4" by (simp_all add: clob_tasks_def)
  then show ?thesis
    using join_tasks_exact [of "clob_tasks c" ends "ClobNode.flatten report"] assms by (simp add: clob_run_def)
qed

lemma game_run_exact:
  assumes "distinct (map fst ends)" and "fst ` set ends \<subseteq> set (game_tasks c)"
  shows "game_run report c ends =
    (case List.find (\<lambda>(t, r). isl (ClobNode.flatten report r)) ends of
       Some (t, r) \<Rightarrow> Some (Inl (projl (ClobNode.flatten report r)))
     | None \<Rightarrow> if length ends = 3 then Some (Inr ()) else None)"
proof -
  have "game_flatten report = (ClobNode.flatten report :: (_, unit) join_result \<Rightarrow> _)"
    by (simp add: fun_eq_iff game_flatten_def ClobNode.flatten_def)
  moreover have "distinct (game_tasks c)" "game_tasks c \<noteq> []" "length (game_tasks c) = 3"
    by (simp_all add: game_tasks_def)
  ultimately show ?thesis
    using join_tasks_exact [of "game_tasks c" ends "ClobNode.flatten report"] assms by (simp add: game_run_def)
qed

lemma failed_batcher_ends_node:
  "init_db (ca_db_dir c) = Inr u \<Longrightarrow>
     clob_run report init_db c ((clob_tasks c ! 3, ClobNode.Joined (Inl e)) # ends) = Some (Inl e)"
  by (simp add: clob_run_def clob_tasks_def ClobNode.flatten_def)

text \<open>Without any variable set the nodes use these settings, when the library reads the defaults.\<close>

lemma clob_defaults:
  assumes "clob_main A (\<lambda>_. None) = Some c"
  shows "ca_listen_addr c = ''127.0.0.1:3001'' \<and> ca_cn_grpc_url c = ''http://127.0.0.1:50051''
    \<and> al_parse_u64 A ''1000'' = Some (ca_batcher_duration_ms c)
    \<and> signer_of_hex A DEV_SECRET = Some (ca_operator_signer c)"
  using assms by (auto simp: clob_main_def env_or_def Let_def split: option.splits)

text \<open>The submission of a job whose id belongs to a relayed or pending job changes nothing.\<close>

lemma resubmission_no_effect:
  assumes "request_job L dec req = Inr j" and "try_into_address (jb_consumer_address j) = Some a"
    and "length (lib_compress L (jb_offchain_input j)) \<le> ic_max_da_per_job cfg"
    and "get_job (nd_db n) (jb_id j) = Some old"
    and "is_relayed old \<or> (\<exists>ps. get_pending_nonces n a = Some ps \<and> jb_nonce j \<in> set ps)"
  shows "server_submit_job L dec cfg ans req n =
    (Some (if is_relayed old then Inl (Internal JobRelayed) else Inr (b256_key_encode (jb_id j))), n)"
proof -
  have "\<not> is_failed j"
    using assms(1) by (auto simp: request_job_def job_predicates split: option.splits if_splits)
  then have "check_old_job n a j = Stop (Some (if is_relayed old then Inl JobRelayed else Inr ()))"
    using assms(4,5) by (auto simp: check_old_job_def Let_def)
  then show ?thesis using assms(1-3) by (simp add: server_submit_job_def submit_job_def)
qed

lemma after_attempts_fixed: "submit req n = (r, n) \<Longrightarrow> after_attempts submit req n k = n"
  by (induction k) simp_all

lemma request_job_consumer:
  "request_job L dec req = Inr j \<Longrightarrow> dec (sr_request req) = Some r \<Longrightarrow> jb_consumer_address j = be_bytes 20 (ojr_consumer r)"
  by (auto simp: request_job_def split: if_splits)

lemma batcher_start_again:
  "batcher_start db = Some (db', nonce) \<Longrightarrow> batcher_start db' = Some (db', nonce) \<and> nonce = 1"
  by (auto simp: batcher_start_def ensure_initialized_def split: option.splits if_splits)

lemma batcher_turn_outcome:
  assumes "read_batch db = Batch b" and "\<And>k. outcome k = ok"
  shows "batcher_turn env outcome db nonce = (Some (snd (batch_job env nonce b)),
    if ok then Some (db\<lparr>db_global_index := (db_global_index db)(NEXT_BATCH_GLOBAL_INDEX_KEY \<mapsto> bat_end b + 1)\<rparr>, nonce + 1)
    else None)"
  using assms by (simp add: batcher_turn_def submit_job_with_backoff_def numeral_3_eq_3 Let_def)

section \<open>A node that starts again\<close>

text \<open>
  C23. A CLOB node that is started again does not get its next batch executed. The index of the next batch
  is stored, but the nonces start from one again, and the coprocessor node knows the job with this nonce.
  When that job has been relayed, all attempts are refused, the batcher ends with an error, which ends
  the node (\<open>failed_batcher_ends_node\<close>), and a further start does the same. When it is still pending, as
  it is for ever after its first relay has failed, the server answers with success although nothing
  happens: the node counts the batch as submitted and goes on to the next one, and no job carries its
  requests. In both cases the coprocessor node does not change.
\<close>

theorem restarted_batcher_reuses_nonce:
  assumes start: "batcher_start db = Some (db', nonce)" "read_batch db' = Batch b"
    and req: "batch_job env nonce b = (params, req)" "dec (sj_request req) = Some (params_request params)"
      "be_keccak256 env = lib_keccak256 L" "sj_signature req \<noteq> []" "be_program_id env \<noteq> []"
      "length (lib_compress L (sj_offchain_input req)) \<le> ic_max_da_per_job cfg"
    and known: "get_job (nd_db n) (get_job_id (lib_keccak256 L) 1 (be_consumer env)) = Some old"
      "is_relayed old \<or> (\<exists>ps. get_pending_nonces n (be_consumer env) = Some ps \<and> 1 \<in> set ps)"
    and submit: "submit = server_submit_job L dec cfg ans"
  shows "after_attempts submit (grpc_request req) n k = n
    \<and> batcher_turn env (attempt_succeeds submit (grpc_request req) n) db' nonce =
        (Some req,
         if is_relayed old then None
         else Some (db'\<lparr>db_global_index := (db_global_index db')(NEXT_BATCH_GLOBAL_INDEX_KEY \<mapsto> bat_end b + 1)\<rparr>, 2))
    \<and> batcher_start db' = Some (db', nonce)"
proof -
  have nonce: "nonce = 1" "batcher_start db' = Some (db', nonce)" using batcher_start_again [OF start(1)] by auto
  obtain j where j: "request_job L dec (grpc_request req) = Inr j" "jb_nonce j = nonce"
    "jb_id j = get_job_id (lib_keccak256 L) nonce (be_consumer env)" "jb_offchain_input j = sj_offchain_input req"
    by (rule request_job_batch [where dec = dec, OF req(1-5)]) blast
  have "ojr_consumer (params_request params) = be_consumer env"
    using req(1) by (auto simp: params_request_def batch_job_def Let_def)
  then have "try_into_address (jb_consumer_address j) = Some (be_consumer env)"
    using request_job_consumer [OF j(1)] req(2) by (simp add: grpc_request_def)
  then have answer: "submit (grpc_request req) n =
      (Some (if is_relayed old then Inl (Internal JobRelayed) else Inr (b256_key_encode (jb_id j))), n)"
    unfolding submit using known req(6) nonce(1) j by (intro resubmission_no_effect) simp_all
  then have fixed: "after_attempts submit (grpc_request req) n k = n" for k by (rule after_attempts_fixed)
  then have "attempt_succeeds submit (grpc_request req) n k = (\<not> is_relayed old)" for k
    by (simp add: attempt_succeeds_def answer)
  from batcher_turn_outcome [where outcome = "attempt_succeeds submit (grpc_request req) n", OF start(2) this]
  show ?thesis using req(1) nonce by (simp add: fixed)
qed

text \<open>A restarted node with one batch left, and a coprocessor node that has relayed its first job.\<close>

definition restarted_db :: clob_db where
  "restarted_db = ClobNode.empty_db\<lparr>
     db_global_index := [PROCESSED_GLOBAL_INDEX_KEY \<mapsto> 2, NEXT_BATCH_GLOBAL_INDEX_KEY \<mapsto> 2],
     db_clob_state := [1 \<mapsto> default_clob_state], db_request := [2 \<mapsto> sample_deposit]\<rparr>"

definition restarted_batch :: batch where
  "restarted_batch = \<lparr>bat_start = 2, bat_end = 2, bat_state = default_clob_state, bat_requests = [sample_deposit]\<rparr>"

definition relayed_node :: node where
  "relayed_node = node_start (CoprocDb.empty_db\<lparr>db_jobs :=
     [(get_job_id be_word 1 (be_consumer settle_env), sample_job 1 Ordered JRelayed)]\<rparr>)"

theorem restarted_batcher_reuses_nonce_witness:
  "batcher_start restarted_db = Some (restarted_db, 1)
   \<and> batcher_turn settle_env (attempt_succeeds (server_submit_job sample_libs
        (\<lambda>_. Some (params_request (fst (batch_job settle_env 1 restarted_batch)))) sample_config None)
        (grpc_request (snd (batch_job settle_env 1 restarted_batch))) relayed_node) restarted_db 1
      = (Some (snd (batch_job settle_env 1 restarted_batch)), None)"
proof -
  have start: "batcher_start restarted_db = Some (restarted_db, 1)"
    by (simp add: batcher_start_def ensure_initialized_def restarted_db_def PROCESSED_GLOBAL_INDEX_KEY_def
        NEXT_BATCH_GLOBAL_INDEX_KEY_def)
  moreover have "read_batch restarted_db = Batch restarted_batch"
    by (simp add: read_batch_def read_all_def restarted_db_def restarted_batch_def PROCESSED_GLOBAL_INDEX_KEY_def
        NEXT_BATCH_GLOBAL_INDEX_KEY_def)
  moreover have "get_job (nd_db relayed_node) (get_job_id be_word 1 (be_consumer settle_env))
      = Some (sample_job 1 Ordered JRelayed)" "is_relayed (sample_job 1 Ordered JRelayed)"
    by (simp_all add: relayed_node_def node_start_def get_job_def sample_job_def is_relayed_def)
  moreover have "lib_keccak256 sample_libs = be_word" "lib_compress sample_libs bs = bs" for bs
    by (simp_all add: sample_libs_def)
  moreover have "length (sj_offchain_input (snd (batch_job settle_env 1 restarted_batch))) \<le> ic_max_da_per_job sample_config"
    "sj_signature (snd (batch_job settle_env 1 restarted_batch)) \<noteq> []" "be_keccak256 settle_env = be_word"
    "be_program_id settle_env \<noteq> []"
    by (simp_all add: batch_job_def Let_def settle_env_def sample_env_def sample_config_def restarted_batch_def
        combined_offchain_input_def)
  ultimately show ?thesis
    using restarted_batcher_reuses_nonce [of restarted_db restarted_db 1 restarted_batch settle_env
        "fst (batch_job settle_env 1 restarted_batch)" "snd (batch_job settle_env 1 restarted_batch)"
        "\<lambda>_. Some (params_request (fst (batch_job settle_env 1 restarted_batch)))" sample_libs sample_config
        relayed_node "sample_job 1 Ordered JRelayed" _ None 0]
    by simp
qed

end
