(* ===== verification/Spec2Isabelle.thy ===== *)
theory Spec2Isabelle
  imports Deployment Grpc ExecNode AppNodes
begin

text \<open>
  A verification development for InfinityVM: the coprocessor node that executes jobs in a zkVM and
  relays their signed results to a chain, the execution client that runs this chain, and the two
  example applications, a CLOB and a matching game.

  \<^bold>\<open>The parts and how they interact.\<close> A job request reaches the coprocessor by gRPC (\<open>server.rs\<close>) or
  as an onchain event (\<open>event.rs\<close>). The intake (\<open>intake.rs\<close>) records it and sends it to the execution
  actor of its consumer (\<open>execute.rs\<close>), which has it executed by the pool (\<open>pool.rs\<close>, with the executor
  service and the zkVM) and passes the result to its relay actor (\<open>relayer.rs\<close>), in the order of the
  nonces for ordered jobs. What cannot be relayed goes to the dead letter queue. All writes go through
  one writer thread (\<open>writer.rs\<close>). The CLOB node (\<open>examples/clob/node\<close>) runs its state machine
  (\<open>examples/clob/core\<close>) locally, batches its requests and submits each batch as an ordered job, whose
  program runs the same state machine again. The matching game node (\<open>examples/matching-game\<close>) does the
  same with a Merkle trie, of which the program sees only a snapshot. The execution client (\<open>bin/exec\<close>)
  accepts transactions by an allow list and without fees: its pool validates them, and its gas rules
  replace those of the EVM. On the chain the job manager contract checks what the relayer sends and
  hands the output of the program to the consumer contract of the application (\<open>contracts/src\<close>).

  \<^bold>\<open>Theories.\<close> Paths are under \<open>src/\<close>; each theory's own text says more.
  \<^item> \<open>Prelude\<close>: machine words, byte strings, ordered maps (\<open>BTreeMap\<close>), event machines, framing; the
    locales \<open>ordered_map\<close> and \<open>event_machine\<close>.
  \<^item> \<open>Abi\<close>: \<open>crates/sdk/abi\<close>, the payloads and the job id.
  \<^item> \<open>ClobApi\<close>, \<open>OrderBook\<close>, \<open>ClobCore\<close>, \<open>ClobScenarios\<close>: \<open>examples/clob/core\<close>; the matching engine, the
    balances, \<open>tick\<close> and the state transition function, with the locale \<open>book_side\<close> for the two sides.
  \<^item> \<open>ClobNode\<close>: \<open>examples/clob/node\<close> and the guest program; engine with crashes, batcher, listener and
    HTTP handlers, with the locale \<open>batch_store\<close> for the database the batcher reads.
  \<^item> \<open>CoprocDb\<close>: \<open>crates/db\<close>, \<open>writer.rs\<close> and the enumerations of the protocol.
  \<^item> \<open>ExecActor\<close>: \<open>execute.rs\<close> as an event machine. \<open>Executor\<close>: \<open>crates/zkvm\<close>, \<open>crates/zkvm-executor\<close>,
    \<open>pool.rs\<close>. \<open>Relayer\<close>: \<open>relayer.rs\<close>. \<open>DeadLetters\<close>: properties of the relayer over time.
  \<^item> \<open>Intake\<close>: \<open>intake.rs\<close> and \<open>server.rs\<close>. \<open>Frontend\<close>: \<open>event.rs\<close>, parts of \<open>gateway.rs\<close>, \<open>node.rs\<close>, \<open>cli.rs\<close>.
  \<^item> \<open>CoprocNode\<close>: the coprocessor node as a step relation, and its invariant. \<open>EndToEnd\<close>: the way of a
    CLOB batch from the batcher through server, worker and guest to the signed result. \<open>NodeMain\<close>:
    options, start and end of the node, the handlers of the gateway, \<open>crates/eip4844\<close>. \<open>Grpc\<close>: the messages,
    client and service of \<open>crates/sdk/proto\<close> between them and their callers.
  \<^item> \<open>ExecConfig\<close>: \<open>bin/exec/src/config\<close> and the choice of a configuration in \<open>main.rs\<close>. \<open>ExecPool\<close>:
    \<open>pool/validator.rs\<close>, \<open>pool/mod.rs\<close>; head blocks as an event machine. \<open>ExecEvm\<close>: \<open>evm\<close>,
    \<open>engine.rs\<close>. \<open>ExecClient\<close>: pool and EVM together.
  \<^item> \<open>GameCore\<close>: \<open>examples/matching-game/core\<close>, with one slot per number as its specification.
    \<open>GameNode\<close>: \<open>server\<close> and \<open>programs\<close> of the matching game; engine, batcher and guest program.
  \<^item> \<open>JobManager\<close>: \<open>contracts/src/coprocessor\<close>, the job manager and the consumers behind it as one state
    with a step relation, and the locale \<open>consumer_contract\<close>. \<open>Settlement\<close>: the node and the contracts
    together, with the locale \<open>result_app\<close> for what an application does with results. \<open>ClobConsumer\<close>
    and \<open>GameConsumer\<close>: \<open>contracts/src/clob\<close> and \<open>contracts/src/matching-game\<close>. \<open>Solvency\<close>: when the
    CLOB's results settle, with its checked arithmetic; the locale \<open>live_app\<close> extends \<open>result_app\<close>.
  \<^item> \<open>ClobClient\<close>: \<open>examples/clob/client\<close> and the routes of the CLOB node that it calls. \<open>Deployment\<close>:
    \<open>crates/sdk/test-utils\<close>, \<open>test/load-test\<close> and the initialisers of the contracts: accounts, deployed
    states, signed offchain requests. \<open>ExecNode\<close>: the components of \<open>bin/exec\<close> and their assembly.
  \<^item> \<open>Tasks\<close>: joining the tasks of a node. \<open>AppNodes\<close>: the binaries of the CLOB node and the matching game
    server, their tasks, and what a restart of the CLOB node does to its batches.

  \<^bold>\<open>What the lemmas show.\<close> Order book: price-time priority, exact fills, sorted
  and uncrossed levels. CLOB state: conservation of funds, well-formedness, deltas that account for
  the balances. CLOB node: a gapless history over crashes, batches whose state roots chain, deposits
  credited once. Coprocessor: nothing but signed results of runs of the job's own program on its own
  inputs is sent, ordered results in the order of their nonces, exact outcomes of submission,
  execution, relay and retry; each gRPC method reaches its handler, within the size limit of the server; a
  batch of the CLOB node settles with the root from which its next batch starts; and the cases in which
  the code does not do what its comments say. Execution client:
  the pool's decision as a conjunction of rules, independent of balances; allow lists by the head's
  timestamp; no fee moves funds; accepted transactions execute. Matching game: the trie code refines
  the slots, batches and guest repeat what the server answered, and what stops the engine. Contracts:
  each result is delivered once; what the node relays for onchain and offchain jobs passes every check
  of the job manager; the results of the CLOB's batches are accepted in order, a missing one blocks
  those after it, and the balances on chain follow the node's; the partners on chain are those that
  the matching game's server answered. Solvency: batches in which no balance
  of the node wraps around and whose deposits were made on the contract settle, and the contract follows
  the node exactly; an order filled beyond its size, or a deposit made on the HTTP route only, halts settlement;
  a restarted batcher reuses its first nonce, so that its next batch is refused or lost. Client and
  deployment: the client's requests reach the handler they name, the deployed contracts satisfy the
  start conditions of the theorems above, and a request signed by the development accounts is accepted.

  \<^bold>\<open>Libraries\<close> are arguments: hashes, the ABI and Borsh encoders, SP1, bincode, the signer, LZ4, KZG,
  tonic, prost, the checks of \<open>reth\<close>, the trie (\<open>trie_laws\<close>, without hash collisions); what a property needs of one is a
  hypothesis of that property. The chain and the provider are inputs.

  \<^bold>\<open>Bounds and fuel.\<close> Integers have their width and wrap. \<open>OrderBook\<close> bounds its loops by the number of
  resting orders; \<open>relay_subsequent\<close> by the number of stored jobs; the relay loop runs over the given
  answers of the chain, and \<open>relay_job_result_exact\<close> says how many are enough.

  \<^bold>\<open>Not modelled:\<close> the node builder, network and consensus of \<open>reth\<close> that the execution client is
  plugged into, the token contracts, the contract bindings that a build generates, interceptors of gRPC, the
  scripts that start local processes, mock jobs, metrics, tracing and tests: they keep no state of
  their own, call libraries, or only drive the parts above.
\<close>

end
